(* ===== verification/Sci_Prelude.thy ===== *)
theory Sci_Prelude
  imports Main "HOL-Library.Word" "HOL-Library.Multiset"
begin

text \<open>
  Shared vocabulary of the development: the machine types of the Rust code as words, the
  saturating and checked integer operations of \<open>core\<close> and \<open>ruint\<close> that the sources
  call, and the generic lemmas on them that the component theories use.

  The collections \<open>sat_unat\<close> (values of saturating operations as naturals) and
  \<open>pc_run\<close>, \<open>pc_runs\<close>, \<open>pc_plain\<close>, \<open>pc_wp\<close>, \<open>pc_keep\<close> (running, specifying and
  framing precompile programs, filled in \<open>Pc_Monad\<close> and the component theories) carry most
  proofs.
\<close>

unbundle bit_operations_syntax

named_theorems sat_unat \<open>saturating operations read as naturals\<close>
named_theorems pc_run \<open>what a storage program computes when no access fails\<close>
named_theorems pc_wp \<open>what a storage program needs to reach a postcondition, whatever its accesses answer\<close>
named_theorems pc_runs \<open>what a storage program reaches when no access fails\<close>
named_theorems pc_plain \<open>storage programs that do not inspect errors\<close>
named_theorems pc_keep \<open>which parts of the state a storage program leaves alone\<close>

section \<open>Machine types\<close>

type_synonym u8 = "8 word"
type_synonym u32 = "32 word"
type_synonym u64 = "64 word"
type_synonym u128 = "128 word"
type_synonym u256 = "256 word"
type_synonym address = "160 word"
type_synonym b256 = "256 word"
type_synonym selector = "32 word"
type_synonym bytes = "8 word list"

section \<open>Saturating and checked arithmetic\<close>

definition sat_add :: "'a::len word \<Rightarrow> 'a word \<Rightarrow> 'a word" where
  "sat_add a b = (if unat a + unat b < 2 ^ LENGTH('a) then a + b else - 1)"

definition sat_sub :: "'a::len word \<Rightarrow> 'a word \<Rightarrow> 'a word" where
  "sat_sub a b = (if b \<le> a then a - b else 0)"

definition sat_mul :: "'a::len word \<Rightarrow> 'a word \<Rightarrow> 'a word" where
  "sat_mul a b = (if unat a * unat b < 2 ^ LENGTH('a) then a * b else - 1)"

definition checked_add :: "'a::len word \<Rightarrow> 'a word \<Rightarrow> 'a word option" where
  "checked_add a b = (if unat a + unat b < 2 ^ LENGTH('a) then Some (a + b) else None)"

text \<open>\<open>U256::saturating_to::<u64>\<close>.\<close>

definition saturating_to_u64 :: "u256 \<Rightarrow> u64" where
  "saturating_to_u64 w = (if unat w < 2 ^ 64 then ucast w else - 1)"

section \<open>Big-endian bytes\<close>

text \<open>A word from big-endian bytes, and the bytes of a storage word (\<open>from_be_slice\<close>,
  \<open>to_be_bytes\<close>).\<close>

definition be_word :: "bytes \<Rightarrow> 'a::len word" where
  "be_word bs = foldl (\<lambda>acc b. acc * 256 + ucast b) 0 bs"

definition be_bytes :: "u256 \<Rightarrow> bytes" where
  "be_bytes w = map (\<lambda>i. ucast (drop_bit (8 * (31 - i)) w)) [0..<32]"

definition byte_slice :: "nat \<Rightarrow> nat \<Rightarrow> bytes \<Rightarrow> bytes" where
  "byte_slice off n bs = take n (drop off bs)"

section \<open>Facts about them\<close>

lemma unat_max_word [sat_unat]: "unat (- 1 :: 'a::len word) = 2 ^ LENGTH('a) - 1"
  by (simp add: unsigned_minus_1_eq_mask mask_eq_exp_minus_1)

lemma unat_le_max: "unat (a :: 'a::len word) \<le> 2 ^ LENGTH('a) - 1"
  using unsigned_less [of a] by (simp add: less_Suc_eq_le [symmetric])

lemma unat_sat_add [sat_unat]:
  "unat (sat_add a b :: 'a::len word) = min (unat a + unat b) (2 ^ LENGTH('a) - 1)"
  by (auto simp: sat_add_def unat_max_word min_def unat_word_ariths)

lemma unat_sat_sub [sat_unat]: "unat (sat_sub a b) = unat a - unat b"
  by (auto simp: sat_sub_def unat_sub word_le_nat_alt)

lemma unat_sat_mul [sat_unat]:
  "unat (sat_mul a b :: 'a::len word) = min (unat a * unat b) (2 ^ LENGTH('a) - 1)"
proof (cases "unat a * unat b < 2 ^ LENGTH('a)")
  case True
  then have "unat a * unat b \<le> 2 ^ LENGTH('a) - 1" by simp
  with True show ?thesis by (simp add: sat_mul_def min_absorb1 unat_word_ariths)
next
  case False
  then have "2 ^ LENGTH('a) - 1 \<le> unat a * unat b" by simp
  with False show ?thesis by (simp add: sat_mul_def unat_max_word min_absorb2)
qed

lemma sat_add_zero [simp]: "sat_add a 0 = a" "sat_add 0 a = a"
  using unsigned_less [of a] by (auto simp: sat_add_def)

lemma sat_add_mono: "a \<le> b \<Longrightarrow> c \<le> d \<Longrightarrow> sat_add a c \<le> sat_add b d"
  by (simp add: word_le_nat_alt unat_sat_add)

lemma sat_add_upper: "a \<le> sat_add a b"
  using unat_le_max [of a] by (simp add: word_le_nat_alt unat_sat_add)

lemma sat_mul_mono: "a \<le> b \<Longrightarrow> sat_mul a c \<le> sat_mul b c"
  by (simp add: word_le_nat_alt unat_sat_mul min_le_iff_disj mult_le_mono1)

lemma saturating_to_u64_small: "unat w < 2 ^ 64 \<Longrightarrow> unat (saturating_to_u64 w) = unat w"
  by (simp add: saturating_to_u64_def unsigned_ucast_eq take_bit_nat_eq_self)

lemma sat_add_commute: "sat_add a b = sat_add b a"
  by (simp add: sat_add_def add.commute)

lemma word_eq_unatI: "unat a = unat b \<Longrightarrow> a = b"
  by (simp add: word_unat_eq_iff)

lemma sat_add_assoc: "sat_add (sat_add a b) c = sat_add a (sat_add b c)"
  by (rule word_eq_unatI) (simp add: unat_sat_add)

lemma be_word_snoc: "be_word (bs @ [b]) = be_word bs * 256 + ucast b"
  by (simp add: be_word_def)

lemma slice_be_bytes:
  "off + n \<le> 32 \<Longrightarrow> byte_slice off n (be_bytes w) = map (\<lambda>i. ucast (drop_bit (8 * (31 - i)) w)) [off..<off + n]"
  by (simp add: byte_slice_def be_bytes_def drop_map take_map take_upt)

text \<open>Reading bytes of a storage word as a big-endian number is taking its bits.\<close>

lemma be_word_slice:
  "off + n \<le> 32 \<Longrightarrow> be_word (byte_slice off n (be_bytes w)) = take_bit (8 * n) (drop_bit (8 * (32 - off - n)) w)"
proof (induction n)
  case 0
  then show ?case by (simp add: byte_slice_def be_word_def)
next
  case (Suc n)
  let ?x = "drop_bit (8 * (31 - off - n)) w"
  have "8 * (32 - off - n) = 8 * (31 - off - n) + 8" using Suc.prems by simp
  then have "drop_bit (8 * (32 - off - n)) w = drop_bit 8 ?x" by (simp add: drop_bit_drop_bit add.commute)
  moreover have "byte_slice off (Suc n) (be_bytes w) = byte_slice off n (be_bytes w) @ [ucast ?x]"
    using Suc.prems by (simp add: slice_be_bytes)
  moreover have "ucast (ucast ?x :: u8) = take_bit 8 ?x"
    by (intro bit_word_eqI) (auto simp: bit_ucast_iff bit_take_bit_iff)
  ultimately have "be_word (byte_slice off (Suc n) (be_bytes w)) = push_bit 8 (take_bit (8 * n) (drop_bit 8 ?x)) + take_bit 8 ?x"
    using Suc by (simp add: be_word_snoc push_bit_eq_mult)
  also have "\<dots> = take_bit (8 * Suc n) ?x"
    by (intro bit_word_eqI) (auto simp: disjunctive_add bit_take_bit_iff bit_push_bit_iff bit_drop_bit_eq bit_or_iff)
  finally show ?case by simp
qed

end
