(* ===== verification/Pc_Monad.thy ===== *)
theory Pc_Monad
  imports Sci_Prelude
begin

text \<open>
  The hardfork ladder (\<open>sci/crates/tempo-chainspec-shim\<close>), the precompile error type
  (\<open>sci/crates/precompiles/src/error.rs\<close>) and the storage programs the precompiles are
  written in.

  A precompile method returns \<open>Result<T>\<close> and works on EVM storage through
  \<open>StorageCtx\<close>, whose production provider (\<open>storage/evm.rs\<close>) asks the journal and the gas
  tracker of \<open>revm\<close>. Both are outside this repository, so what they answer is a parameter:
  a program runs against a script of access outcomes, one per storage access.
  \<open>Done\<close> is a successful access, \<open>Fail e\<close> an access refused before it took effect and
  \<open>Late e\<close> one that took effect and then failed: \<open>sstore\<close> writes the journal before it
  charges the dynamic gas. An exhausted script means that every further access succeeds, so the
  empty script is a provider with enough gas and a healthy database, and a property stated for
  every script covers every gas limit and every database fault.

  As in Rust, an error does not undo what was written before it; the roll-back is the EVM's
  (a reverted frame) or an explicit journal checkpoint, and is modelled where the code does it.
\<close>

section \<open>Hardforks\<close>

datatype TempoHardfork = Genesis | T0 | T1 | T1A | T1B | T1C | T2 | T3 | T4 | T5 | T6

primrec fork_rank :: "TempoHardfork \<Rightarrow> nat" where
  "fork_rank Genesis = 0"
| "fork_rank T0 = 1"
| "fork_rank T1 = 2"
| "fork_rank T1A = 3"
| "fork_rank T1B = 4"
| "fork_rank T1C = 5"
| "fork_rank T2 = 6"
| "fork_rank T3 = 7"
| "fork_rank T4 = 8"
| "fork_rank T5 = 9"
| "fork_rank T6 = 10"

text \<open>The derived \<open>Ord\<close> of the enum compares discriminants.\<close>

instantiation TempoHardfork :: linorder
begin

definition less_eq_TempoHardfork :: "TempoHardfork \<Rightarrow> TempoHardfork \<Rightarrow> bool" where
  "less_eq_TempoHardfork a b \<longleftrightarrow> fork_rank a \<le> fork_rank b"

definition less_TempoHardfork :: "TempoHardfork \<Rightarrow> TempoHardfork \<Rightarrow> bool" where
  "less_TempoHardfork a b \<longleftrightarrow> fork_rank a < fork_rank b"

instance
proof
  fix x y :: TempoHardfork
  show "x \<le> y \<Longrightarrow> y \<le> x \<Longrightarrow> x = y"
    by (cases x; cases y) (simp_all add: less_eq_TempoHardfork_def)
qed (auto simp: less_eq_TempoHardfork_def less_TempoHardfork_def)

end

definition is_t0 :: "TempoHardfork \<Rightarrow> bool" where "is_t0 f \<longleftrightarrow> fork_rank f \<ge> fork_rank T0"
definition is_t1 :: "TempoHardfork \<Rightarrow> bool" where "is_t1 f \<longleftrightarrow> fork_rank f \<ge> fork_rank T1"
definition is_t2 :: "TempoHardfork \<Rightarrow> bool" where "is_t2 f \<longleftrightarrow> fork_rank f \<ge> fork_rank T2"
definition is_t3 :: "TempoHardfork \<Rightarrow> bool" where "is_t3 f \<longleftrightarrow> fork_rank f \<ge> fork_rank T3"
definition is_t4 :: "TempoHardfork \<Rightarrow> bool" where "is_t4 f \<longleftrightarrow> fork_rank f \<ge> fork_rank T4"
definition is_t5 :: "TempoHardfork \<Rightarrow> bool" where "is_t5 f \<longleftrightarrow> fork_rank f \<ge> fork_rank T5"

lemmas fork_defs = is_t0_def is_t1_def is_t2_def is_t3_def is_t4_def is_t5_def

definition SCI_LAUNCH_HARDFORK :: TempoHardfork where "SCI_LAUNCH_HARDFORK = T5"

section \<open>Errors\<close>

datatype AccountKeychainErr =
    UnauthorizedCaller | KeyAlreadyExists | KeyNotFound | KeyExpired | SpendingLimitExceeded
  | InvalidSpendingLimit | InvalidSignatureType | ZeroPublicKey | ExpiryInPast
  | KeyAlreadyRevoked | SignatureTypeMismatch u8 u8 | CallNotAllowed | InvalidCallScope
  | InvalidKeyAuthorizationWitness | KeyAuthorizationWitnessAlreadyBurned
  | LegacyAuthorizeKeySelectorChanged selector

datatype SciAgentStateErr = AgentUnauthorizedCaller | KeyTripped address

datatype PanicKind = UnderOverflow | EnumConversionError | ArrayOutOfBounds

datatype TempoPrecompileError =
    Panic PanicKind
  | AccountKeychainError AccountKeychainErr
  | SciAgentStateError SciAgentStateErr
  | OutOfGas
  | UnknownFunctionSelector selector
  | Fatal string

primrec is_system_error :: "TempoPrecompileError \<Rightarrow> bool" where
  "is_system_error OutOfGas = True"
| "is_system_error (Fatal _) = True"
| "is_system_error (Panic _) = True"
| "is_system_error (AccountKeychainError _) = False"
| "is_system_error (SciAgentStateError _) = False"
| "is_system_error (UnknownFunctionSelector _) = False"

section \<open>Storage programs\<close>

datatype access = Done | Fail TempoPrecompileError | Late TempoPrecompileError

type_synonym ('s, 'a) pc =
  "access list \<Rightarrow> 's \<Rightarrow> (TempoPrecompileError + 'a) \<times> access list \<times> 's"

definition pc_return :: "'a \<Rightarrow> ('s, 'a) pc" where
  "pc_return x = (\<lambda>fs s. (Inr x, fs, s))"

definition pc_throw :: "TempoPrecompileError \<Rightarrow> ('s, 'a) pc" where
  "pc_throw e = (\<lambda>fs s. (Inl e, fs, s))"

text \<open>The \<open>?\<close> operator: go on with the value, or return the error at once.\<close>

definition pc_bind :: "('s, 'a) pc \<Rightarrow> ('a \<Rightarrow> ('s, 'b) pc) \<Rightarrow> ('s, 'b) pc" where
  "pc_bind m k = (\<lambda>fs s. case m fs s of
     (Inl e, fs', s') \<Rightarrow> (Inl e, fs', s')
   | (Inr x, fs', s') \<Rightarrow> k x fs' s')"

definition pc_then :: "('s, 'a) pc \<Rightarrow> ('s, 'b) pc \<Rightarrow> ('s, 'b) pc" where
  "pc_then m n = pc_bind m (\<lambda>_. n)"

text \<open>A \<open>match\<close> on the \<open>Result\<close> itself.\<close>

definition pc_catch :: "('s, 'a) pc \<Rightarrow> (TempoPrecompileError \<Rightarrow> ('s, 'a) pc) \<Rightarrow> ('s, 'a) pc" where
  "pc_catch m h = (\<lambda>fs s. case m fs s of
     (Inl e, fs', s') \<Rightarrow> h e fs' s'
   | (Inr x, fs', s') \<Rightarrow> (Inr x, fs', s'))"

fun next_access :: "access list \<Rightarrow> access \<times> access list" where
  "next_access [] = (Done, [])"
| "next_access (a # fs) = (a, fs)"

definition pc_read :: "('s \<Rightarrow> 'a) \<Rightarrow> ('s, 'a) pc" where
  "pc_read g = (\<lambda>fs s. case next_access fs of
     (Done, fs') \<Rightarrow> (Inr (g s), fs', s)
   | (Fail e, fs') \<Rightarrow> (Inl e, fs', s)
   | (Late e, fs') \<Rightarrow> (Inl e, fs', s))"

definition pc_write :: "('s \<Rightarrow> 's) \<Rightarrow> ('s, unit) pc" where
  "pc_write u = (\<lambda>fs s. case next_access fs of
     (Done, fs') \<Rightarrow> (Inr (), fs', u s)
   | (Fail e, fs') \<Rightarrow> (Inl e, fs', s)
   | (Late e, fs') \<Rightarrow> (Inl e, fs', u s))"

fun pc_each :: "('x \<Rightarrow> ('s, unit) pc) \<Rightarrow> 'x list \<Rightarrow> ('s, unit) pc" where
  "pc_each f [] = pc_return ()"
| "pc_each f (x # xs) = pc_then (f x) (pc_each f xs)"

fun pc_collect :: "('x \<Rightarrow> ('s, 'y) pc) \<Rightarrow> 'x list \<Rightarrow> ('s, 'y list) pc" where
  "pc_collect f [] = pc_return []"
| "pc_collect f (x # xs) = pc_bind (f x) (\<lambda>y. pc_bind (pc_collect f xs) (\<lambda>ys. pc_return (y # ys)))"

text \<open>A handler for a part of the state works on the whole through its location.\<close>

definition pc_zoom :: "('s \<Rightarrow> 't) \<Rightarrow> ('t \<Rightarrow> 's \<Rightarrow> 's) \<Rightarrow> ('t, 'a) pc \<Rightarrow> ('s, 'a) pc" where
  "pc_zoom g p m = (\<lambda>fs s. case m fs (g s) of (r, fs', t) \<Rightarrow> (r, fs', p t s))"

definition pc_state :: "('s, 'a) pc \<Rightarrow> access list \<Rightarrow> 's \<Rightarrow> 's" where
  "pc_state m fs s = snd (snd (m fs s))"

definition pc_result :: "('s, 'a) pc \<Rightarrow> access list \<Rightarrow> 's \<Rightarrow> TempoPrecompileError + 'a" where
  "pc_result m fs s = fst (m fs s)"

text \<open>\<open>pc_keeps P m\<close>: whatever the accesses answer, \<open>m\<close> leads from states with \<open>P\<close> to
  states with \<open>P\<close>. \<open>pc_reads m\<close>: \<open>m\<close> only reads.\<close>

definition pc_keeps :: "('s \<Rightarrow> bool) \<Rightarrow> ('s, 'a) pc \<Rightarrow> bool" where
  "pc_keeps P m \<longleftrightarrow> (\<forall>fs s. P s \<longrightarrow> P (pc_state m fs s))"

definition pc_reads :: "('s, 'a) pc \<Rightarrow> bool" where
  "pc_reads m \<longleftrightarrow> (\<forall>s. pc_keeps (\<lambda>t. t = s) m)"

section \<open>Running with no failing access\<close>

lemma pc_return_run [pc_run, simp]: "pc_return x fs s = (Inr x, fs, s)"
  by (simp add: pc_return_def)

lemma pc_throw_run [pc_run, simp]: "pc_throw e fs s = (Inl e, fs, s)"
  by (simp add: pc_throw_def)

lemma pc_read_run [pc_run, simp]: "pc_read g [] s = (Inr (g s), [], s)"
  by (simp add: pc_read_def)

lemma pc_write_run [pc_run, simp]: "pc_write u [] s = (Inr (), [], u s)"
  by (simp add: pc_write_def)

lemma pc_bind_Inr: "m fs s = (Inr x, fs', s') \<Longrightarrow> pc_bind m k fs s = k x fs' s'"
  by (simp add: pc_bind_def)

lemma pc_bind_Inl: "m fs s = (Inl e, fs', s') \<Longrightarrow> pc_bind m k fs s = (Inl e, fs', s')"
  by (simp add: pc_bind_def)

lemma pc_then_Inr: "m fs s = (Inr x, fs', s') \<Longrightarrow> pc_then m n fs s = n fs' s'"
  by (simp add: pc_then_def pc_bind_def)

lemma pc_then_Inl: "m fs s = (Inl e, fs', s') \<Longrightarrow> pc_then m n fs s = (Inl e, fs', s')"
  by (simp add: pc_then_def pc_bind_def)

lemma pc_bind_read [pc_run, simp]: "pc_bind (pc_read g) k [] s = k (g s) [] s"
  by (simp add: pc_bind_def)

lemma pc_bind_return [pc_run, simp]: "pc_bind (pc_return x) k = k x"
  by (simp add: pc_bind_def fun_eq_iff)

lemma pc_bind_throw [pc_run, simp]: "pc_bind (pc_throw e) k = pc_throw e"
  by (simp add: pc_bind_def fun_eq_iff pc_throw_def)

lemma pc_then_return [pc_run, simp]: "pc_then (pc_return x) n = n"
  by (simp add: pc_then_def)

lemma pc_then_throw [pc_run, simp]: "pc_then (pc_throw e) n = pc_throw e"
  by (simp add: pc_then_def)

lemma pc_then_write [pc_run, simp]: "pc_then (pc_write u) n [] s = n [] (u s)"
  by (simp add: pc_then_def pc_bind_def)

lemma pc_bind_assoc: "pc_bind (pc_bind m k) l = pc_bind m (\<lambda>x. pc_bind (k x) l)"
  by (auto simp: pc_bind_def fun_eq_iff split: prod.splits sum.splits)

lemma pc_bind_if: "pc_bind (if b then m else n) k = (if b then pc_bind m k else pc_bind n k)"
  by simp

lemma pc_then_if: "pc_then (if b then m else n) k = (if b then pc_then m k else pc_then n k)"
  by simp

lemma pc_bind_elim:
  assumes "pc_bind m k fs s = (r, fs', s')"
  obtains e where "m fs s = (Inl e, fs', s')" "r = Inl e"
        | x fs1 s1 where "m fs s = (Inr x, fs1, s1)" "k x fs1 s1 = (r, fs', s')"
  using assms by (auto simp: pc_bind_def split: prod.splits sum.splits)

lemma pc_zoom_run [pc_run]: "m fs (g s) = (r, fs', t) \<Longrightarrow> pc_zoom g p m fs s = (r, fs', p t s)"
  by (simp add: pc_zoom_def)

lemma pc_each_run:
  assumes "\<And>x s. x \<in> set xs \<Longrightarrow> f x [] s = (Inr (), [], u x s)"
  shows "pc_each f xs [] s = (Inr (), [], fold u xs s)"
  using assms by (induction xs arbitrary: s) (simp_all add: pc_then_def pc_bind_def)

lemma pc_collect_run:
  assumes "\<And>x. x \<in> set xs \<Longrightarrow> f x [] s = (Inr (g x), [], s)"
  shows "pc_collect f xs [] s = (Inr (map g xs), [], s)"
  using assms by (induction xs) (simp_all add: pc_bind_def)

section \<open>Framing\<close>

lemma pc_keepsI: "(\<And>fs s. P s \<Longrightarrow> P (pc_state m fs s)) \<Longrightarrow> pc_keeps P m"
  by (simp add: pc_keeps_def)

lemma pc_keepsD: "pc_keeps P m \<Longrightarrow> P s \<Longrightarrow> P (pc_state m fs s)"
  by (simp add: pc_keeps_def)

lemma pc_keepsD': "pc_keeps P m \<Longrightarrow> P s \<Longrightarrow> m fs s = (r, fs', s') \<Longrightarrow> P s'"
  using pc_keepsD [of P m s fs] by (simp add: pc_state_def)

lemma pc_readsD: "pc_reads m \<Longrightarrow> m fs s = (r, fs', s') \<Longrightarrow> s' = s"
  using pc_keepsD' [of "\<lambda>t. t = s" m s] by (simp add: pc_reads_def)

lemma pc_reads_keeps: "pc_reads m \<Longrightarrow> pc_keeps P m"
  by (simp add: pc_reads_def pc_keeps_def)

lemma pc_readsI: "(\<And>s. pc_keeps (\<lambda>t. t = s) m) \<Longrightarrow> pc_reads m"
  by (simp add: pc_reads_def)

lemma pc_keeps_return [pc_keep]: "pc_keeps P (pc_return x)"
  by (simp add: pc_keeps_def pc_state_def)

lemma pc_keeps_throw [pc_keep]: "pc_keeps P (pc_throw e)"
  by (simp add: pc_keeps_def pc_state_def)

lemma pc_keeps_read [pc_keep]: "pc_keeps P (pc_read g)"
  by (auto simp: pc_keeps_def pc_state_def pc_read_def split: prod.splits access.splits)

lemma pc_keeps_write [pc_keep]: "(\<And>s. P s \<Longrightarrow> P (u s)) \<Longrightarrow> pc_keeps P (pc_write u)"
  by (auto simp: pc_keeps_def pc_state_def pc_write_def split: prod.splits access.splits)

lemma pc_keeps_bind [pc_keep]:
  assumes m: "pc_keeps P m" and k: "\<And>x. pc_keeps P (k x)"
  shows "pc_keeps P (pc_bind m k)"
proof (rule pc_keepsI)
  fix fs s
  assume "P s"
  obtain r fs' s' where eq: "m fs s = (r, fs', s')" by (cases "m fs s")
  have "P s'" using m \<open>P s\<close> eq by (rule pc_keepsD')
  then show "P (pc_state (pc_bind m k) fs s)"
    using pc_keepsD [OF k] by (cases r) (auto simp: pc_state_def pc_bind_def eq)
qed

lemma pc_keeps_then [pc_keep]: "pc_keeps P m \<Longrightarrow> pc_keeps P n \<Longrightarrow> pc_keeps P (pc_then m n)"
  by (simp add: pc_then_def pc_keeps_bind)

lemma pc_keeps_catch [pc_keep]:
  assumes m: "pc_keeps P m" and h: "\<And>e. pc_keeps P (h e)"
  shows "pc_keeps P (pc_catch m h)"
proof (rule pc_keepsI)
  fix fs s
  assume "P s"
  obtain r fs' s' where eq: "m fs s = (r, fs', s')" by (cases "m fs s")
  have "P s'" using m \<open>P s\<close> eq by (rule pc_keepsD')
  then show "P (pc_state (pc_catch m h) fs s)"
    using pc_keepsD [OF h] by (cases r) (auto simp: pc_state_def pc_catch_def eq)
qed

lemma pc_keeps_each [pc_keep]: "(\<And>x. pc_keeps P (f x)) \<Longrightarrow> pc_keeps P (pc_each f xs)"
  by (induction xs) (simp_all add: pc_keep)

lemma pc_keeps_collect [pc_keep]: "(\<And>x. pc_keeps P (f x)) \<Longrightarrow> pc_keeps P (pc_collect f xs)"
  by (induction xs) (simp_all add: pc_keep)

lemma pc_keeps_if [pc_keep]: "pc_keeps P m \<Longrightarrow> pc_keeps P n \<Longrightarrow> pc_keeps P (if b then m else n)"
  by simp

lemma pc_keeps_zoom [pc_keep]: "(\<And>t s. P s \<Longrightarrow> P (p t s)) \<Longrightarrow> pc_keeps P (pc_zoom g p m)"
  by (auto simp: pc_keeps_def pc_state_def pc_zoom_def split: prod.splits)

lemma pc_reads_return [pc_keep]: "pc_reads (pc_return x)"
  by (rule pc_readsI) (rule pc_keeps_return)

lemma pc_reads_throw [pc_keep]: "pc_reads (pc_throw e)"
  by (rule pc_readsI) (rule pc_keeps_throw)

lemma pc_reads_read [pc_keep]: "pc_reads (pc_read g)"
  by (rule pc_readsI) (rule pc_keeps_read)

lemma pc_reads_bind [pc_keep]:
  "pc_reads m \<Longrightarrow> (\<And>x. pc_reads (k x)) \<Longrightarrow> pc_reads (pc_bind m k)"
  by (rule pc_readsI, rule pc_keeps_bind) (simp_all add: pc_reads_keeps)

lemma pc_reads_then [pc_keep]: "pc_reads m \<Longrightarrow> pc_reads n \<Longrightarrow> pc_reads (pc_then m n)"
  by (rule pc_readsI, rule pc_keeps_then) (simp_all add: pc_reads_keeps)

lemma pc_reads_catch [pc_keep]:
  "pc_reads m \<Longrightarrow> (\<And>e. pc_reads (h e)) \<Longrightarrow> pc_reads (pc_catch m h)"
  by (rule pc_readsI, rule pc_keeps_catch) (simp_all add: pc_reads_keeps)

lemma pc_reads_if [pc_keep]: "pc_reads m \<Longrightarrow> pc_reads n \<Longrightarrow> pc_reads (if b then m else n)"
  by simp

lemma pc_reads_collect [pc_keep]: "(\<And>x. pc_reads (f x)) \<Longrightarrow> pc_reads (pc_collect f xs)"
  by (rule pc_readsI, rule pc_keeps_collect) (simp_all add: pc_reads_keeps)

lemma pc_reads_zoom [pc_keep]:
  fixes g :: "'s \<Rightarrow> 't"
  assumes m: "pc_reads m" and p: "\<And>s. p (g s) s = s"
  shows "pc_reads (pc_zoom g p m)"
proof (intro pc_readsI pc_keepsI)
  fix s s0 :: 's and fs
  assume "s0 = s"
  moreover obtain r fs' t where eq: "m fs (g s0) = (r, fs', t)" by (cases "m fs (g s0)")
  moreover have "t = g s0" using pc_readsD [OF m eq] .
  ultimately show "pc_state (pc_zoom g p m) fs s0 = s"
    by (simp add: pc_state_def pc_zoom_def p)
qed

section \<open>Pre- and postconditions\<close>

text \<open>\<open>wp m Q E s\<close>: whatever the accesses answer, \<open>m\<close> started in \<open>s\<close> either returns a value and
  a state with \<open>Q\<close>, or an error and a state with \<open>E\<close>. The introduction rules follow the program.\<close>

definition wp :: "('s, 'a) pc \<Rightarrow> ('a \<Rightarrow> 's \<Rightarrow> bool) \<Rightarrow> (TempoPrecompileError \<Rightarrow> 's \<Rightarrow> bool) \<Rightarrow> 's \<Rightarrow> bool"
where
  "wp m Q E s \<longleftrightarrow> (\<forall>fs. case m fs s of (Inr x, _, s') \<Rightarrow> Q x s' | (Inl e, _, s') \<Rightarrow> E e s')"

lemma wpD: "wp m Q E s \<Longrightarrow> m fs s = (Inr x, fs', s') \<Longrightarrow> Q x s'"
  unfolding wp_def by (drule spec [of _ fs]) simp

lemma wpD_err: "wp m Q E s \<Longrightarrow> m fs s = (Inl e, fs', s') \<Longrightarrow> E e s'"
  unfolding wp_def by (drule spec [of _ fs]) simp

lemma wpI:
  assumes "\<And>fs x fs' s'. m fs s = (Inr x, fs', s') \<Longrightarrow> Q x s'"
    and "\<And>fs e fs' s'. m fs s = (Inl e, fs', s') \<Longrightarrow> E e s'"
  shows "wp m Q E s"
  unfolding wp_def using assms by (auto split: prod.split sum.split)

lemma wp_mono:
  assumes "wp m Q E s" "\<And>x t. Q x t \<Longrightarrow> Q' x t" "\<And>e t. E e t \<Longrightarrow> E' e t"
  shows "wp m Q' E' s"
  using assms(1) by (auto intro!: wpI assms(2,3) dest: wpD wpD_err)

lemma wp_keeps: "pc_keeps P m \<Longrightarrow> P s \<Longrightarrow> wp m (\<lambda>_. P) (\<lambda>_. P) s"
  by (rule wpI) (erule (2) pc_keepsD')+

lemma keeps_wp:
  assumes "\<And>s. P s \<Longrightarrow> wp m (\<lambda>_. P) (\<lambda>_. P) s"
  shows "pc_keeps P m"
proof (rule pc_keepsI)
  fix fs s
  assume "P s"
  then have "wp m (\<lambda>_. P) (\<lambda>_. P) s" by (rule assms)
  moreover obtain r fs' s' where "m fs s = (r, fs', s')" by (cases "m fs s")
  ultimately show "P (pc_state m fs s)" by (cases r) (auto simp: pc_state_def dest: wpD wpD_err)
qed

lemma wp_return [pc_wp]: "Q x s \<Longrightarrow> wp (pc_return x) Q E s"
  by (simp add: wp_def)

lemma wp_throw [pc_wp]: "E e s \<Longrightarrow> wp (pc_throw e) Q E s"
  by (simp add: wp_def)

lemma wp_read [pc_wp]: "Q (g s) s \<Longrightarrow> (\<And>e. E e s) \<Longrightarrow> wp (pc_read g) Q E s"
  by (auto simp: wp_def pc_read_def split: prod.split access.split)

lemma wp_write [pc_wp]:
  "Q () (u s) \<Longrightarrow> (\<And>e. E e s) \<Longrightarrow> (\<And>e. E e (u s)) \<Longrightarrow> wp (pc_write u) Q E s"
  by (auto simp: wp_def pc_write_def split: prod.split access.split)

lemma wp_bind [pc_wp]: "wp m (\<lambda>x. wp (k x) Q E) E s \<Longrightarrow> wp (pc_bind m k) Q E s"
  by (rule wpI) (auto elim!: pc_bind_elim dest: wpD wpD_err)

lemma wp_then [pc_wp]: "wp m (\<lambda>_. wp n Q E) E s \<Longrightarrow> wp (pc_then m n) Q E s"
  unfolding pc_then_def by (rule wp_bind)

lemma wp_catch [pc_wp]:
  assumes "wp m Q (\<lambda>e. wp (h e) Q E) s"
  shows "wp (pc_catch m h) Q E s"
  by (rule wpI) (auto simp: pc_catch_def split: prod.splits sum.splits dest: wpD [OF assms]
      intro: wpD [OF wpD_err [OF assms]] wpD_err [OF wpD_err [OF assms]])

lemma wp_if [pc_wp]:
  "(b \<Longrightarrow> wp m Q E s) \<Longrightarrow> (\<not> b \<Longrightarrow> wp n Q E s) \<Longrightarrow> wp (if b then m else n) Q E s"
  by simp

lemma wp_zoom [pc_wp]:
  assumes "wp m (\<lambda>x t. Q x (p t s)) (\<lambda>e t. E e (p t s)) (g s)"
  shows "wp (pc_zoom g p m) Q E s"
  by (rule wpI) (auto simp: pc_zoom_def split: prod.splits dest: wpD [OF assms] wpD_err [OF assms])

lemma wp_reads:
  assumes "pc_reads m" "\<And>x. Q x s" "\<And>e. E e s"
  shows "wp m Q E s"
  by (rule wpI) (auto dest: pc_readsD [OF assms(1)] intro: assms(2,3))

section \<open>Fault-free runs\<close>

text \<open>\<open>runs m Q E s\<close>: with no failing access, \<open>m\<close> returns a value and a state with \<open>Q\<close>, or
  an error and a state with \<open>E\<close>. A \<open>plain\<close> program (one that does not inspect errors)
  can only succeed by succeeding in every access, so its successes are its fault-free runs.\<close>

definition runs :: "('s, 'a) pc \<Rightarrow> ('a \<Rightarrow> 's \<Rightarrow> bool) \<Rightarrow> (TempoPrecompileError \<Rightarrow> 's \<Rightarrow> bool) \<Rightarrow> 's \<Rightarrow> bool"
where
  "runs m Q E s \<longleftrightarrow> (case m [] s of (Inr x, fs, t) \<Rightarrow> fs = [] \<and> Q x t | (Inl e, fs, t) \<Rightarrow> fs = [] \<and> E e t)"

definition plain :: "('s, 'a) pc \<Rightarrow> bool" where
  "plain m \<longleftrightarrow> (\<forall>fs s x fs' s'. m fs s = (Inr x, fs', s') \<longrightarrow> m [] s = (Inr x, [], s'))"

lemma runs_Inr: "m [] s = (Inr x, [], t) \<Longrightarrow> Q x t \<Longrightarrow> runs m Q E s"
  by (simp add: runs_def)

lemma runs_Inl: "m [] s = (Inl e, [], t) \<Longrightarrow> E e t \<Longrightarrow> runs m Q E s"
  by (simp add: runs_def)

lemma runsD: "runs m Q E s \<Longrightarrow> m [] s = (Inr x, fs, t) \<Longrightarrow> fs = [] \<and> Q x t"
  by (simp add: runs_def)

lemma runs_elim:
  assumes "runs m Q E s"
  obtains x t where "m [] s = (Inr x, [], t)" "Q x t" | e t where "m [] s = (Inl e, [], t)" "E e t"
  using assms by (auto simp: runs_def split: prod.splits sum.splits)

lemma runs_total: "runs m Q (\<lambda>_ _. False) s \<Longrightarrow> \<exists>x t. m [] s = (Inr x, [], t) \<and> Q x t"
  by (auto elim: runs_elim)

lemma runs_mono: "runs m Q E s \<Longrightarrow> (\<And>x t. Q x t \<Longrightarrow> Q' x t) \<Longrightarrow> (\<And>e t. E e t \<Longrightarrow> E' e t) \<Longrightarrow> runs m Q' E' s"
  by (auto simp: runs_def split: prod.splits sum.splits)

lemma wp_runs: "plain m \<Longrightarrow> runs m Q (\<lambda>_ _. True) s \<Longrightarrow> wp m Q (\<lambda>_ _. True) s"
  by (rule wpI) (auto simp: plain_def dest: runsD)

lemma runs_return [pc_runs]: "Q x s \<Longrightarrow> runs (pc_return x) Q E s"
  by (simp add: runs_def)

lemma runs_throw [pc_runs]: "E e s \<Longrightarrow> runs (pc_throw e) Q E s"
  by (simp add: runs_def)

lemma runs_read [pc_runs]: "Q (g s) s \<Longrightarrow> runs (pc_read g) Q E s"
  by (simp add: runs_def)

lemma runs_write [pc_runs]: "Q () (u s) \<Longrightarrow> runs (pc_write u) Q E s"
  by (simp add: runs_def)

lemma runs_bind [pc_runs]: "runs m (\<lambda>x. runs (k x) Q E) E s \<Longrightarrow> runs (pc_bind m k) Q E s"
  by (erule runs_elim) (simp_all add: runs_def pc_bind_def)

lemma runs_then [pc_runs]: "runs m (\<lambda>_. runs n Q E) E s \<Longrightarrow> runs (pc_then m n) Q E s"
  unfolding pc_then_def by (rule runs_bind)

lemma runs_if [pc_runs]:
  "(b \<Longrightarrow> runs m Q E s) \<Longrightarrow> (\<not> b \<Longrightarrow> runs n Q E s) \<Longrightarrow> runs (if b then m else n) Q E s"
  by simp

lemma runs_case_option [pc_runs]:
  "(opt = None \<Longrightarrow> runs m Q E s) \<Longrightarrow> (\<And>x. opt = Some x \<Longrightarrow> runs (f x) Q E s) \<Longrightarrow>
   runs (case_option m f opt) Q E s"
  by (cases opt) simp_all

lemma runs_zoom [pc_runs]:
  "runs m (\<lambda>x t. Q x (p t s)) (\<lambda>e t. E e (p t s)) (g s) \<Longrightarrow> runs (pc_zoom g p m) Q E s"
  by (erule runs_elim) (simp_all add: runs_def pc_zoom_def)

lemma runs_each:
  assumes "I [] s" and "\<And>ds x t. x \<in> set xs \<Longrightarrow> I ds t \<Longrightarrow> \<exists>rest. xs = ds @ x # rest \<Longrightarrow>
      runs (f x) (\<lambda>_. I (ds @ [x])) E t"
  shows "runs (pc_each f xs) (\<lambda>_. I xs) E s"
proof -
  have "runs (pc_each f ys) (\<lambda>_. I (ds @ ys)) E t" if "I ds t" "xs = ds @ ys" for ds ys t
    using that
  proof (induction ys arbitrary: ds t)
    case (Cons y ys)
    then have "runs (f y) (\<lambda>_. I (ds @ [y])) E t" by (intro assms(2)) auto
    moreover have "runs (pc_each f ys) (\<lambda>_. I (ds @ y # ys)) E u" if "I (ds @ [y]) u" for u
      using Cons.IH [of "ds @ [y]" u] Cons.prems(2) that by simp
    ultimately show ?case by (auto intro!: runs_then intro: runs_mono)
  qed (simp add: runs_def)
  from this [of "[]" s xs] assms(1) show ?thesis by simp
qed

lemma plainI: "(\<And>fs s x fs' s'. m fs s = (Inr x, fs', s') \<Longrightarrow> m [] s = (Inr x, [], s')) \<Longrightarrow> plain m"
  by (simp add: plain_def)

lemma plainD: "plain m \<Longrightarrow> m fs s = (Inr x, fs', s') \<Longrightarrow> m [] s = (Inr x, [], s')"
  by (simp add: plain_def)

lemma plain_return [pc_plain]: "plain (pc_return x)"
  by (simp add: plain_def)

lemma plain_throw [pc_plain]: "plain (pc_throw e)"
  by (simp add: plain_def)

lemma plain_read [pc_plain]: "plain (pc_read g)"
  by (auto simp: plain_def pc_read_def split: prod.splits access.splits)

lemma plain_write [pc_plain]: "plain (pc_write u)"
  by (auto simp: plain_def pc_write_def split: prod.splits access.splits)

lemma plain_bind [pc_plain]:
  assumes "plain m" "\<And>x. plain (k x)"
  shows "plain (pc_bind m k)"
  by (rule plainI, erule pc_bind_elim) (auto simp: pc_bind_def plainD [OF assms(1)] plainD [OF assms(2)])

lemma plain_then [pc_plain]: "plain m \<Longrightarrow> plain n \<Longrightarrow> plain (pc_then m n)"
  by (simp add: pc_then_def plain_bind)

lemma plain_if [pc_plain]: "plain m \<Longrightarrow> plain n \<Longrightarrow> plain (if b then m else n)"
  by simp

lemma plain_case_option [pc_plain]:
  "plain m \<Longrightarrow> (\<And>x. plain (f x)) \<Longrightarrow> plain (case_option m f opt)"
  by (cases opt) simp_all

lemma plain_zoom [pc_plain]: "plain m \<Longrightarrow> plain (pc_zoom g p m)"
  by (rule plainI) (auto simp: pc_zoom_def split: prod.splits dest: plainD)

lemma plain_each [pc_plain]: "(\<And>x. plain (f x)) \<Longrightarrow> plain (pc_each f xs)"
  by (induction xs) (simp_all add: pc_plain)

lemma plain_collect [pc_plain]: "(\<And>x. plain (f x)) \<Longrightarrow> plain (pc_collect f xs)"
  by (induction xs) (simp_all add: pc_plain)

end
