(* ===== verification/Set_Handler.thy ===== *)
theory Set_Handler
  imports Pc_Monad
begin

text \<open>
  The enumerable set of EVM storage (\<open>storage/types/set.rs\<close>) on top of the storage vector
  (\<open>storage/types/vec.rs\<close>): a length word, the element cells and a mapping from elements to
  one-based positions. The cells and the length word are kept apart, as in storage, because the
  operations update them in separate accesses.

  The element type is \<open>Address\<close> (20 bytes, one slot each) or \<open>FixedBytes<4>\<close>
  (packed eight to a slot); the operations that depend on the layout take the element size
  \<open>eb\<close>. Machine sizes of type \<open>usize\<close> are naturals; \<open>len - 1\<close> wraps at 64 bits as
  release builds do.

  The lemmas show that on well-formed sets the operations refine those of a list without
  repetitions, that well-formedness is kept, and, through the locale \<open>enumerable_set\<close>, what a
  client gets from a series of insertions.
\<close>

section \<open>Storage vector\<close>

record 'a set_handler =
  vec_len :: u256
  vec_cells :: "nat \<Rightarrow> 'a"
  positions :: "'a \<Rightarrow> u32"

definition elems_per_slot :: "nat \<Rightarrow> nat" where
  "elems_per_slot eb = 32 div eb"

definition calc_packed_slot_count :: "nat \<Rightarrow> nat \<Rightarrow> nat" where
  "calc_packed_slot_count n eb = (n + elems_per_slot eb - 1) div elems_per_slot eb"

definition max_index :: "nat \<Rightarrow> nat" where
  "max_index eb = (if eb \<le> 16 then (2 ^ 32 - 1) div eb else 2 ^ 32 - 1)"

definition load_checked_len :: "('a set_handler, nat) pc" where
  "load_checked_len = pc_bind (pc_read vec_len) (\<lambda>raw.
     if raw > 0xFFFFFFFF then pc_throw (Panic UnderOverflow) else pc_return (unat raw))"

definition cell_read :: "nat \<Rightarrow> ('a set_handler, 'a) pc" where
  "cell_read i = pc_read (\<lambda>s. vec_cells s i)"

definition cell_write :: "nat \<Rightarrow> 'a \<Rightarrow> ('a set_handler, unit) pc" where
  "cell_write i v = pc_write (\<lambda>s. s\<lparr>vec_cells := (vec_cells s)(i := v)\<rparr>)"

definition len_write :: "nat \<Rightarrow> ('a set_handler, unit) pc" where
  "len_write n = pc_write (\<lambda>s. s\<lparr>vec_len := of_nat n\<rparr>)"

definition position_read :: "'a \<Rightarrow> ('a set_handler, u32) pc" where
  "position_read v = pc_read (\<lambda>s. positions s v)"

definition position_write :: "'a \<Rightarrow> u32 \<Rightarrow> ('a set_handler, unit) pc" where
  "position_write v p = pc_write (\<lambda>s. s\<lparr>positions := (positions s)(v := p)\<rparr>)"

definition vec_push :: "nat \<Rightarrow> 'a \<Rightarrow> ('a set_handler, unit) pc" where
  "vec_push eb v = pc_bind load_checked_len (\<lambda>length.
     if length \<ge> max_index eb then pc_throw (Fatal ''Vec is at max capacity'')
     else pc_then (cell_write length v) (len_write (length + 1)))"

text \<open>Zeroing one storage slot clears every element packed in it.\<close>

definition slot_clear :: "nat \<Rightarrow> nat \<Rightarrow> ('a::zero set_handler, unit) pc" where
  "slot_clear eb k = pc_write (\<lambda>s. s\<lparr>vec_cells := (\<lambda>i.
     if k * elems_per_slot eb \<le> i \<and> i < (k + 1) * elems_per_slot eb then 0 else vec_cells s i)\<rparr>)"

definition clear_elements :: "nat \<Rightarrow> nat \<Rightarrow> nat \<Rightarrow> ('a::zero set_handler, unit) pc" where
  "clear_elements eb from to =
     (if from \<ge> to then pc_return ()
      else if eb \<le> 16 then
        pc_each (slot_clear eb) [calc_packed_slot_count from eb..<calc_packed_slot_count to eb]
      else pc_each (\<lambda>i. cell_write i 0) [from..<to])"

definition vec_delete :: "nat \<Rightarrow> ('a::zero set_handler, unit) pc" where
  "vec_delete eb = pc_bind load_checked_len (\<lambda>length.
     pc_then (len_write 0)
       (if length = 0 then pc_return () else clear_elements eb 0 length))"

section \<open>Set operations\<close>

definition checked_position :: "nat \<Rightarrow> ('s, u32) pc" where
  "checked_position index =
     (if index < 2 ^ 32 \<and> index + 1 < 2 ^ 32 then pc_return (of_nat (index + 1))
      else pc_throw (Panic UnderOverflow))"

definition set_is_empty :: "('a set_handler, bool) pc" where
  "set_is_empty = pc_bind load_checked_len (\<lambda>n. pc_return (n = 0))"

definition set_contains :: "'a \<Rightarrow> ('a set_handler, bool) pc" where
  "set_contains v = pc_bind (position_read v) (\<lambda>pos. pc_return (pos \<noteq> 0))"

definition set_insert :: "nat \<Rightarrow> 'a \<Rightarrow> ('a set_handler, bool) pc" where
  "set_insert eb v = pc_bind (set_contains v) (\<lambda>present.
     if present then pc_return False
     else pc_bind load_checked_len (\<lambda>length.
       pc_bind (checked_position length) (\<lambda>pos.
       pc_then (position_write v pos)
       (pc_then (vec_push eb v) (pc_return True)))))"

definition set_remove :: "'a::zero \<Rightarrow> ('a set_handler, bool) pc" where
  "set_remove v = pc_bind (position_read v) (\<lambda>position.
     if position = 0 then pc_return False
     else pc_bind load_checked_len (\<lambda>len.
       let last_index = (if len = 0 then 2 ^ 64 - 1 else len - 1);
           index = unat (position - 1)
       in pc_then
            (if index \<noteq> last_index then
               pc_bind (cell_read last_index) (\<lambda>last_value.
               pc_then (position_write last_value position) (cell_write index last_value))
             else pc_return ())
          (pc_then (cell_write last_index 0)
          (pc_then (len_write last_index)
          (pc_then (position_write v 0) (pc_return True))))))"

definition set_at :: "nat \<Rightarrow> ('a set_handler, 'a option) pc" where
  "set_at index = pc_bind load_checked_len (\<lambda>len.
     if index \<ge> len then pc_return None
     else pc_bind (cell_read index) (\<lambda>v. pc_return (Some v)))"

definition set_read_range :: "nat \<Rightarrow> nat \<Rightarrow> ('a set_handler, 'a list) pc" where
  "set_read_range start stop = pc_bind load_checked_len (\<lambda>len.
     let e = min stop len; b = min start e in pc_collect cell_read [b..<e])"

definition set_read :: "('a set_handler, 'a list) pc" where
  "set_read = pc_bind load_checked_len (\<lambda>len. pc_collect cell_read [0..<len])"

definition clear_position :: "nat \<Rightarrow> ('a set_handler, unit) pc" where
  "clear_position i = pc_bind (cell_read i) (\<lambda>old. position_write old 0)"

definition write_element :: "nat \<times> 'a \<Rightarrow> ('a set_handler, unit) pc" where
  "write_element iv = pc_bind (checked_position (fst iv)) (\<lambda>pos.
     pc_then (position_write (snd iv) pos) (cell_write (fst iv) (snd iv)))"

definition set_write :: "'a::zero list \<Rightarrow> ('a set_handler, unit) pc" where
  "set_write vs = pc_bind load_checked_len (\<lambda>old_len.
     let new_len = length vs in
     pc_then (pc_each clear_position [0..<old_len])
     (pc_then (pc_each write_element (enumerate 0 vs))
     (pc_then (len_write new_len)
        (pc_each (\<lambda>i. cell_write i 0) [new_len..<old_len]))))"

definition set_delete :: "nat \<Rightarrow> ('a::zero set_handler, unit) pc" where
  "set_delete eb = pc_bind load_checked_len (\<lambda>len.
     pc_then (pc_each clear_position [0..<len]) (vec_delete eb))"

text \<open>\<open>Set::from(Vec<T>)\<close>: keep first occurrences.\<close>

fun set_from_vec_aux :: "'a set \<Rightarrow> 'a list \<Rightarrow> 'a list" where
  "set_from_vec_aux seen [] = []"
| "set_from_vec_aux seen (x # xs) =
     (if x \<in> seen then set_from_vec_aux seen xs
      else x # set_from_vec_aux (insert x seen) xs)"

definition set_from_vec :: "'a list \<Rightarrow> 'a list" where
  "set_from_vec = set_from_vec_aux {}"

section \<open>The list a stored set stands for\<close>

definition empty_set_handler :: "'a::zero set_handler" where
  "empty_set_handler = \<lparr>vec_len = 0, vec_cells = (\<lambda>_. 0), positions = (\<lambda>_. 0)\<rparr>"

definition set_elems :: "'a set_handler \<Rightarrow> 'a list" where
  "set_elems s = map (vec_cells s) [0..<unat (vec_len s)]"

definition set_wf :: "'a::zero set_handler \<Rightarrow> bool" where
  "set_wf s \<longleftrightarrow> unat (vec_len s) < 0x100000000
     \<and> (\<forall>i < unat (vec_len s). positions s (vec_cells s i) = of_nat (Suc i))
     \<and> (\<forall>v. v \<notin> set (set_elems s) \<longrightarrow> positions s v = 0)
     \<and> (\<forall>i \<ge> unat (vec_len s). vec_cells s i = 0)"

section \<open>Running the vector operations\<close>

lemma unat_of_nat_small: "n < 2 ^ LENGTH('a) \<Longrightarrow> unat (of_nat n :: 'a::len word) = n"
  by (simp add: unat_of_nat take_bit_nat_eq_self)

lemma unat_len_Suc: "Suc n < 0x100000000 \<Longrightarrow> unat (of_nat (Suc n) :: u256) = Suc n"
  by (rule unat_of_nat_small) simp

lemma load_checked_len_run [pc_run]:
  assumes "unat (vec_len s) < 0x100000000"
  shows "load_checked_len [] s = (Inr (unat (vec_len s)), [], s)"
proof -
  have "\<not> (0xFFFFFFFF :: u256) < vec_len s"
    using assms by (simp add: word_less_nat_alt)
  then show ?thesis by (simp add: load_checked_len_def)
qed

lemma load_checked_len_reads [pc_keep]: "pc_reads load_checked_len"
  unfolding load_checked_len_def by (intro pc_reads_bind pc_reads_if pc_keep)

lemmas access_defs = cell_read_def cell_write_def len_write_def position_read_def position_write_def

lemma set_contains_run [pc_run]: "set_contains v [] s = (Inr (positions s v \<noteq> 0), [], s)"
  by (simp add: set_contains_def access_defs)

lemma set_elems_length [simp]: "length (set_elems s) = unat (vec_len s)"
  by (simp add: set_elems_def)

lemma set_elems_nth: "i < unat (vec_len s) \<Longrightarrow> set_elems s ! i = vec_cells s i"
  by (simp add: set_elems_def)

lemma in_set_elems: "v \<in> set (set_elems s) \<longleftrightarrow> (\<exists>i < unat (vec_len s). v = vec_cells s i)"
  by (auto simp: set_elems_def)

lemma set_wf_len: "set_wf s \<Longrightarrow> unat (vec_len s) < 0x100000000"
  by (simp add: set_wf_def)

lemma set_wf_position:
  assumes "set_wf s" "i < unat (vec_len s)"
  shows "unat (positions s (vec_cells s i)) = Suc i"
proof -
  have "positions s (vec_cells s i) = of_nat (Suc i)" using assms unfolding set_wf_def by blast
  moreover have "Suc i < 2 ^ LENGTH(32)" using assms(2) set_wf_len [OF assms(1)] by simp
  ultimately show ?thesis by (metis unat_of_nat_small)
qed

lemma set_wf_member:
  assumes "set_wf s"
  shows "positions s v \<noteq> 0 \<longleftrightarrow> v \<in> set (set_elems s)"
proof
  show "positions s v \<noteq> 0 \<Longrightarrow> v \<in> set (set_elems s)"
    using assms by (auto simp: set_wf_def)
  assume "v \<in> set (set_elems s)"
  then obtain i where "i < unat (vec_len s)" "v = vec_cells s i" by (auto simp: in_set_elems)
  with assms have "unat (positions s v) = Suc i" by (simp add: set_wf_position)
  then show "positions s v \<noteq> 0" by auto
qed

lemma set_wf_inj:
  "set_wf s \<Longrightarrow> i < unat (vec_len s) \<Longrightarrow> j < unat (vec_len s) \<Longrightarrow>
   vec_cells s i = vec_cells s j \<Longrightarrow> i = j"
  by (metis nat.inject set_wf_position)

lemma set_wf_distinct: "set_wf s \<Longrightarrow> distinct (set_elems s)"
  unfolding distinct_conv_nth using set_wf_inj [of s] by (simp add: set_elems_nth) blast

lemma set_wf_empty [simp]: "set_wf empty_set_handler" "set_elems empty_set_handler = []"
  by (simp_all add: set_wf_def empty_set_handler_def set_elems_def)

section \<open>Membership, insertion\<close>

lemma set_contains_elems [pc_run]:
  "set_wf s \<Longrightarrow> set_contains v [] s = (Inr (v \<in> set (set_elems s)), [], s)"
  by (simp add: set_contains_run set_wf_member)

lemma set_is_empty_elems [pc_run]:
  "set_wf s \<Longrightarrow> set_is_empty [] s = (Inr (set_elems s = []), [], s)"
  by (simp add: set_is_empty_def pc_bind_def load_checked_len_run set_wf_len set_elems_def)

lemma set_read_elems [pc_run]:
  assumes "set_wf s"
  shows "set_read [] s = (Inr (set_elems s), [], s)"
proof -
  have "pc_collect cell_read [0..<unat (vec_len s)] [] s = (Inr (set_elems s), [], s)"
    unfolding set_elems_def by (rule pc_collect_run) (simp add: cell_read_def)
  with assms show ?thesis
    by (simp add: set_read_def pc_bind_def load_checked_len_run set_wf_len)
qed

lemma set_at_elems [pc_run]:
  "set_wf s \<Longrightarrow> set_at i [] s =
     (Inr (if i < length (set_elems s) then Some (set_elems s ! i) else None), [], s)"
  by (simp add: set_at_def pc_bind_def load_checked_len_run set_wf_len cell_read_def set_elems_nth)

definition inserted :: "'a \<Rightarrow> 'a set_handler \<Rightarrow> 'a set_handler" where
  "inserted v s = (let n = unat (vec_len s) in
     s\<lparr>positions := (positions s)(v := of_nat (Suc n)), vec_cells := (vec_cells s)(n := v),
       vec_len := of_nat (Suc n)\<rparr>)"

lemma max_index_bound: "n < max_index eb \<Longrightarrow> Suc n < 0x100000000"
proof -
  assume "n < max_index eb"
  moreover have "max_index eb \<le> 0xFFFFFFFF"
    using div_le_dividend [of "0xFFFFFFFF" eb] by (simp add: max_index_def)
  ultimately show ?thesis by simp
qed

lemma set_insert_run:
  assumes "set_wf s" "unat (vec_len s) < max_index eb"
  shows "set_insert eb v [] s =
    (if v \<in> set (set_elems s) then (Inr False, [], s) else (Inr True, [], inserted v s))"
proof -
  let ?n = "unat (vec_len s)"
  let ?s1 = "s\<lparr>positions := (positions s)(v := of_nat (Suc ?n))\<rparr>"
  have n: "Suc ?n < 0x100000000" using assms(2) by (rule max_index_bound)
  have len: "load_checked_len [] t = (Inr ?n, [], t)" if "vec_len t = vec_len s" for t :: "'a set_handler"
    using n that by (simp add: load_checked_len_run)
  have push: "vec_push eb v [] ?s1 = (Inr (), [], inserted v s)"
    using assms(2) len [of ?s1]
    by (simp add: vec_push_def pc_bind_def access_defs inserted_def Let_def)
  show ?thesis
    using n assms push
    by (simp add: set_insert_def pc_bind_def set_contains_elems len checked_position_def
        access_defs pc_then_def)
qed

lemma inserted_elems:
  assumes "set_wf s" "Suc (unat (vec_len s)) < 0x100000000"
  shows "set_elems (inserted v s) = set_elems s @ [v]"
proof -
  have "unat (of_nat (Suc (unat (vec_len s))) :: u256) = Suc (unat (vec_len s))"
    using assms(2) by (rule unat_len_Suc)
  then show ?thesis by (simp add: set_elems_def inserted_def Let_def del: of_nat_Suc)
qed

lemma inserted_wf:
  assumes wf: "set_wf s" and n: "Suc (unat (vec_len s)) < 0x100000000" and new: "v \<notin> set (set_elems s)"
  shows "set_wf (inserted v s)"
proof -
  let ?n = "unat (vec_len s)"
  have len: "unat (vec_len (inserted v s)) = Suc ?n"
    using n by (simp add: inserted_def Let_def unat_len_Suc del: of_nat_Suc)
  have pos: "positions (inserted v s) (vec_cells (inserted v s) i) = of_nat (Suc i)"
    if "i < Suc ?n" for i
    using that wf new
    by (cases "i = ?n") (auto simp: inserted_def Let_def set_wf_def in_set_elems less_Suc_eq simp del: of_nat_Suc)
  have "set (set_elems (inserted v s)) = insert v (set (set_elems s))"
    by (simp add: inserted_elems [OF wf n])
  then have other: "positions (inserted v s) w = 0" if "w \<notin> set (set_elems (inserted v s))" for w
    using that set_wf_member [OF wf, of w] by (simp add: inserted_def Let_def)
  have beyond: "vec_cells (inserted v s) i = 0" if "i \<ge> Suc ?n" for i
    using that wf by (simp add: inserted_def Let_def set_wf_def)
  show ?thesis
    unfolding set_wf_def len using n pos other beyond by simp
qed

section \<open>Removal\<close>

text \<open>Removal of the element at \<open>i\<close> moves the last element into its place.\<close>

definition swap_remove :: "nat \<Rightarrow> 'a list \<Rightarrow> 'a list" where
  "swap_remove i xs = butlast (xs[i := last xs])"

definition removed :: "nat \<Rightarrow> 'a::zero set_handler \<Rightarrow> 'a set_handler" where
  "removed i s = (let n = unat (vec_len s) - 1; v = vec_cells s i; l = vec_cells s n in
     s\<lparr>positions := (if i \<noteq> n then (positions s)(l := of_nat (Suc i)) else positions s)(v := 0),
       vec_cells := ((vec_cells s)(i := l))(n := 0), vec_len := of_nat n\<rparr>)"

lemma set_remove_absent:
  "set_wf s \<Longrightarrow> v \<notin> set (set_elems s) \<Longrightarrow> set_remove v [] s = (Inr False, [], s)"
  using set_wf_member [of s v] by (simp add: set_remove_def access_defs)

lemma set_remove_run:
  assumes wf: "set_wf s" and i: "i < unat (vec_len s)"
  shows "set_remove (vec_cells s i) [] s = (Inr True, [], removed i s)"
proof -
  let ?n = "unat (vec_len s)"
  let ?p = "positions s (vec_cells s i)"
  have p: "?p = of_nat (Suc i)" using wf i unfolding set_wf_def by blast
  have p0: "?p \<noteq> 0" using set_wf_position [OF wf i] by auto
  have small: "i < 2 ^ LENGTH(32)" using i set_wf_len [OF wf] by simp
  have "?p - 1 = of_nat i" by (simp add: p)
  then have idx: "unat (?p - 1) = i" by (simp only: unat_of_nat_small [OF small])
  have len: "load_checked_len [] s = (Inr ?n, [], s)" using set_wf_len [OF wf] by (rule load_checked_len_run)
  show ?thesis
  proof (cases "i = ?n - 1")
    case True
    with i p0 idx show ?thesis
      by (simp add: set_remove_def pc_bind_def [of load_checked_len] len access_defs Let_def removed_def)
  next
    case False
    with i p0 idx p show ?thesis
      by (simp add: set_remove_def pc_bind_def [of load_checked_len] len access_defs Let_def removed_def
          pc_then_def pc_bind_def)
  qed
qed

lemma removed_len:
  assumes "set_wf s"
  shows "unat (vec_len (removed i s)) = unat (vec_len s) - 1"
proof -
  have "vec_len (removed i s) = of_nat (unat (vec_len s) - 1)" by (simp add: removed_def Let_def)
  moreover have "unat (vec_len s) - 1 < 2 ^ LENGTH(256)" using set_wf_len [OF assms] by simp
  ultimately show ?thesis by (simp only: unat_of_nat_small)
qed

lemma removed_elems:
  assumes wf: "set_wf s" and i: "i < unat (vec_len s)"
  shows "set_elems (removed i s) = swap_remove i (set_elems s)"
proof (rule nth_equalityI)
  let ?n = "unat (vec_len s)"
  note len = removed_len [OF wf, of i]
  show "length (set_elems (removed i s)) = length (swap_remove i (set_elems s))"
    by (simp add: swap_remove_def len)
  fix j
  assume "j < length (set_elems (removed i s))"
  then have j: "j < ?n - 1" by (simp add: len)
  have last: "last (set_elems s) = vec_cells s (?n - 1)"
    using i by (simp add: last_conv_nth set_elems_nth set_elems_def)
  show "set_elems (removed i s) ! j = swap_remove i (set_elems s) ! j"
    using i j len last
    by (simp add: swap_remove_def nth_butlast nth_list_update set_elems_nth)
      (simp add: removed_def Let_def)
qed

lemma set_swap_remove:
  assumes "distinct xs" "i < length xs"
  shows "set (swap_remove i xs) = set xs - {xs ! i}" "distinct (swap_remove i xs)"
proof -
  obtain ys z where xs: "xs = ys @ [z]" using assms(2) by (cases xs rule: rev_cases) auto
  show "set (swap_remove i xs) = set xs - {xs ! i}"
    using assms by (cases "i < length ys")
      (auto simp: swap_remove_def xs nth_append list_update_append set_update_distinct
        nth_eq_iff_index_eq in_set_conv_nth)
  show "distinct (swap_remove i xs)"
    using assms by (cases "i < length ys")
      (auto simp: swap_remove_def xs list_update_append distinct_list_update)
qed

lemma removed_wf:
  assumes wf: "set_wf s" and i: "i < unat (vec_len s)"
  shows "set_wf (removed i s)"
proof -
  let ?n = "unat (vec_len s)"
  have small: "?n < 0x100000000" using set_wf_len [OF wf] .
  note len = removed_len [OF wf, of i]
  have els: "set (set_elems (removed i s)) = set (set_elems s) - {vec_cells s i}"
    using set_swap_remove [OF set_wf_distinct [OF wf], of i] i
    by (simp add: removed_elems [OF wf i] set_elems_nth)
  have pos: "positions (removed i s) (vec_cells (removed i s) j) = of_nat (Suc j)"
    if j: "j < ?n - 1" for j
  proof (cases "j = i")
    case True
    with j i set_wf_inj [OF wf i, of "?n - 1"] show ?thesis
      by (auto simp: removed_def Let_def simp del: of_nat_Suc)
  next
    case False
    have "j < ?n" using j by simp
    moreover have "positions s (vec_cells s j) = of_nat (Suc j)" using wf j unfolding set_wf_def by auto
    ultimately show ?thesis
      using False j i set_wf_inj [OF wf i, of j] set_wf_inj [OF wf, of j "?n - 1"]
      by (auto simp: removed_def Let_def simp del: of_nat_Suc)
  qed
  have other: "positions (removed i s) w = 0" if "w \<notin> set (set_elems (removed i s))" for w
  proof (cases "w = vec_cells s i")
    case False
    with that els have "w \<notin> set (set_elems s)" by simp
    moreover have "vec_cells s (?n - 1) \<in> set (set_elems s)"
      using i nth_mem [of "?n - 1" "set_elems s"] by (simp add: set_elems_nth)
    ultimately have "w \<noteq> vec_cells s (?n - 1)" by auto
    then show ?thesis using False \<open>w \<notin> set (set_elems s)\<close> set_wf_member [OF wf, of w]
      by (simp add: removed_def Let_def)
  qed (simp add: removed_def Let_def)
  have "vec_cells (removed i s) j = 0" if "j \<ge> ?n - 1" for j
    using that wf i by (cases "j = ?n - 1") (auto simp: removed_def Let_def set_wf_def)
  with small len pos other show ?thesis unfolding set_wf_def by auto
qed

section \<open>Bulk replacement and deletion\<close>

lemma clear_positions_run:
  "pc_each clear_position is [] s =
    (Inr (), [], s\<lparr>positions := (\<lambda>v. if v \<in> vec_cells s ` set is then 0 else positions s v)\<rparr>)"
proof (induction "is" arbitrary: s)
  case (Cons i "is")
  let ?t = "s\<lparr>positions := (positions s)(vec_cells s i := 0)\<rparr>"
  have "clear_position i [] s = (Inr (), [], ?t)"
    by (simp add: clear_position_def access_defs)
  then have "pc_each clear_position (i # is) [] s = pc_each clear_position is [] ?t"
    by (simp add: pc_then_Inr)
  also have "\<dots> = (Inr (), [], ?t\<lparr>positions :=
      (\<lambda>v. if v \<in> vec_cells ?t ` set is then 0 else positions ?t v)\<rparr>)"
    by (rule Cons.IH)
  finally show ?case by (simp add: fun_eq_iff)
qed simp

lemma clear_positions_wf:
  assumes "set_wf s"
  shows "pc_each clear_position [0..<unat (vec_len s)] [] s = (Inr (), [], s\<lparr>positions := (\<lambda>_. 0)\<rparr>)"
proof -
  have "(\<lambda>v. if v \<in> vec_cells s ` set [0..<unat (vec_len s)] then 0 else positions s v) = (\<lambda>_. 0)"
    using set_wf_member [OF assms] by (auto simp: fun_eq_iff set_elems_def)
  then show ?thesis by (simp only: clear_positions_run)
qed

definition put_element :: "nat \<times> 'a \<Rightarrow> 'a set_handler \<Rightarrow> 'a set_handler" where
  "put_element iv s = s\<lparr>positions := (positions s)(snd iv := of_nat (Suc (fst iv))),
     vec_cells := (vec_cells s)(fst iv := snd iv)\<rparr>"

lemma write_elements_run:
  assumes "k + length vs < 0x100000000"
  shows "pc_each write_element (enumerate k vs) [] s =
    (Inr (), [], fold put_element (enumerate k vs) s)"
proof (rule pc_each_run)
  fix iv s
  assume "iv \<in> set (enumerate k vs)"
  then have "fst iv < k + length vs" by (simp add: in_set_enumerate_eq)
  with assms show "write_element iv [] s = (Inr (), [], put_element iv s)"
    by (simp add: write_element_def checked_position_def access_defs put_element_def)
qed

lemma put_elements_frame: "vec_len (fold put_element ivs s) = vec_len s"
  by (induction ivs arbitrary: s) (simp_all add: put_element_def)

lemma put_elements_cells:
  "vec_cells (fold put_element (enumerate k vs) s) j =
    (if k \<le> j \<and> j < k + length vs then vs ! (j - k) else vec_cells s j)"
proof (induction vs arbitrary: k s)
  case (Cons v vs)
  then show ?case
    by (auto simp: put_element_def nth_Cons' not_less_eq_eq)
qed auto

lemma put_elements_other:
  "v \<notin> set vs \<Longrightarrow> positions (fold put_element (enumerate k vs) s) v = positions s v"
  by (induction vs arbitrary: k s) (simp_all add: put_element_def)

lemma put_elements_position:
  assumes "distinct vs" "i < length vs"
  shows "positions (fold put_element (enumerate k vs) s) (vs ! i) = of_nat (Suc (k + i))"
  using assms
proof (induction vs arbitrary: k s i)
  case (Cons w vs)
  then show ?case
  proof (cases i)
    case 0
    with Cons.prems show ?thesis by (simp add: put_elements_other) (simp add: put_element_def)
  next
    case (Suc m)
    with Cons.prems Cons.IH [of m "Suc k"] show ?thesis by (simp del: of_nat_Suc)
  qed
qed simp

lemma clear_cells_run:
  "pc_each (\<lambda>i. cell_write i 0) is [] s =
    (Inr (), [], s\<lparr>vec_cells := (\<lambda>i. if i \<in> set is then 0 else vec_cells s i)\<rparr>)"
proof (induction "is" arbitrary: s)
  case (Cons i "is")
  then show ?case by (simp add: cell_write_def fun_eq_iff)
qed simp

text \<open>\<open>SetHandler::write\<close> on a list without repetitions leaves exactly that list.\<close>

lemma set_write_run:
  assumes wf: "set_wf s" and d: "distinct vs" and l: "length vs < 0x100000000"
  obtains t where "set_write vs [] s = (Inr (), [], t)" "set_wf t" "set_elems t = vs"
proof -
  let ?n = "unat (vec_len s)"
  define t0 where "t0 = fold put_element (enumerate 0 vs) (s\<lparr>positions := (\<lambda>_. 0)\<rparr>)"
  define t where "t = t0\<lparr>vec_len := of_nat (length vs),
    vec_cells := (\<lambda>i. if i \<in> set [length vs..<?n] then 0 else vec_cells t0 i)\<rparr>"
  have "load_checked_len [] s = (Inr ?n, [], s)" using set_wf_len [OF wf] by (rule load_checked_len_run)
  moreover have "pc_each write_element (enumerate 0 vs) [] (s\<lparr>positions := (\<lambda>_. 0)\<rparr>) = (Inr (), [], t0)"
    using write_elements_run [of 0 vs] l by (simp add: t0_def)
  ultimately have run: "set_write vs [] s = (Inr (), [], t)"
    using clear_positions_wf [OF wf]
    by (simp add: set_write_def pc_bind_def [of load_checked_len] Let_def pc_then_Inr len_write_def
        clear_cells_run t_def cong: if_cong)
  have len: "unat (vec_len t) = length vs"
    using l by (simp add: t_def unat_of_nat_small)
  have cells: "vec_cells t i = (if i < length vs then vs ! i else 0)" for i
    using put_elements_cells [of 0 vs] wf by (simp add: t_def t0_def set_wf_def)
  then have els: "set_elems t = vs"
    by (intro nth_equalityI) (simp_all add: set_elems_nth len)
  have other: "positions t v = 0" if "v \<notin> set vs" for v
    using put_elements_other [OF that, of 0] by (simp add: t_def t0_def)
  have pos: "positions t (vec_cells t i) = of_nat (Suc i)" if "i < length vs" for i
    using put_elements_position [OF d that, of 0] that by (simp add: cells) (simp add: t_def t0_def)
  have "set_wf t"
    unfolding set_wf_def els len using l pos other cells by (intro conjI allI impI) simp_all
  from that [OF run this els] show ?thesis .
qed

lemma slot_clears_run:
  "pc_each (slot_clear eb) [0..<k] [] s =
    (Inr (), [], s\<lparr>vec_cells := (\<lambda>i. if i < k * elems_per_slot eb then 0 else vec_cells s i)\<rparr>)"
proof -
  define u :: "nat \<Rightarrow> 'a set_handler \<Rightarrow> 'a set_handler"
    where "u j s = s\<lparr>vec_cells := (\<lambda>i. if j * elems_per_slot eb \<le> i \<and>
      i < (j + 1) * elems_per_slot eb then 0 else vec_cells s i)\<rparr>" for j s
  have "fold u [0..<k] s =
    s\<lparr>vec_cells := (\<lambda>i. if i < k * elems_per_slot eb then 0 else vec_cells s i)\<rparr>"
  proof (induction k)
    case (Suc k)
    let ?e = "elems_per_slot eb"
    have cells: "(\<lambda>i. if k * ?e \<le> i \<and> i < (k + 1) * ?e then 0
        else if i < k * ?e then 0 else vec_cells s i) = (\<lambda>i. if i < Suc k * ?e then 0 else vec_cells s i)"
      by (rule ext) auto
    have "fold u [0..<Suc k] s = u k (fold u [0..<k] s)" by simp
    also have "\<dots> = u k (s\<lparr>vec_cells := (\<lambda>i. if i < k * ?e then 0 else vec_cells s i)\<rparr>)"
      by (simp only: Suc.IH)
    also have "\<dots> = s\<lparr>vec_cells := (\<lambda>i. if i < Suc k * ?e then 0 else vec_cells s i)\<rparr>"
      using cells by (simp add: u_def cong: if_cong)
    finally show ?case .
  qed simp
  moreover have "pc_each (slot_clear eb) [0..<k] [] s = (Inr (), [], fold u [0..<k] s)"
    by (rule pc_each_run) (simp add: slot_clear_def u_def)
  ultimately show ?thesis by simp
qed

lemma elems_per_slot_pos: "0 < eb \<Longrightarrow> eb \<le> 16 \<Longrightarrow> 0 < elems_per_slot eb"
  using div_le_mono2 [of eb 16 32] by (simp add: elems_per_slot_def)

lemma slot_count_covers:
  assumes "0 < eb" "eb \<le> 16"
  shows "n \<le> calc_packed_slot_count n eb * elems_per_slot eb"
proof -
  define e where "e = elems_per_slot eb"
  have "0 < e" using elems_per_slot_pos [OF assms] by (simp add: e_def)
  then have "n \<le> (n + e - 1) div e * e"
    using div_mult_mod_eq [of "n + e - 1" e] mod_less_divisor [of e "n + e - 1"] by linarith
  then show ?thesis by (simp add: calc_packed_slot_count_def e_def)
qed

text \<open>Deleting a set leaves the all-zero storage of a set that was never written.\<close>

lemma set_delete_run:
  assumes wf: "set_wf s" and eb: "0 < eb"
  shows "set_delete eb [] s = (Inr (), [], empty_set_handler)"
proof -
  let ?n = "unat (vec_len s)"
  let ?s1 = "s\<lparr>positions := (\<lambda>_. 0)\<rparr>"
  let ?s2 = "?s1\<lparr>vec_len := 0\<rparr>"
  have l: "load_checked_len [] t = (Inr ?n, [], t)" if "vec_len t = vec_len s" for t :: "'a set_handler"
    using that set_wf_len [OF wf] by (simp add: load_checked_len_run)
  have beyond: "vec_cells s i = 0" if "\<not> i < ?n" for i using wf that by (simp add: set_wf_def)
  have "(if ?n = 0 then pc_return () else clear_elements eb 0 ?n) [] ?s2 = (Inr (), [], empty_set_handler)"
  proof (cases "?n = 0")
    case True
    with beyond have "vec_cells s = (\<lambda>_. 0)" by auto
    with True show ?thesis by (simp add: empty_set_handler_def)
  next
    case False
    show ?thesis
    proof (cases "eb \<le> 16")
      case True
      let ?k = "calc_packed_slot_count ?n eb"
      have "i < ?k * elems_per_slot eb" if "vec_cells s i \<noteq> 0" for i
        using that beyond slot_count_covers [OF eb True, of ?n] by (meson less_le_trans)
      then have "(\<lambda>i. if i < ?k * elems_per_slot eb then 0 else vec_cells s i) = (\<lambda>_. 0)"
        by (auto simp: fun_eq_iff)
      moreover have "calc_packed_slot_count 0 eb = 0"
        using elems_per_slot_pos [OF eb True] by (simp add: calc_packed_slot_count_def)
      ultimately show ?thesis
        using True False by (simp add: clear_elements_def slot_clears_run empty_set_handler_def cong: if_cong)
    next
      case eb16: False
      have "(\<lambda>i. if i \<in> set [0..<?n] then 0 else vec_cells s i) = (\<lambda>_. 0)"
        using beyond by (auto simp: fun_eq_iff)
      with eb16 False show ?thesis
        by (simp add: clear_elements_def clear_cells_run empty_set_handler_def cong: if_cong)
    qed
  qed
  then show ?thesis
    using clear_positions_wf [OF wf]
    by (simp add: set_delete_def pc_bind_def [of load_checked_len] l pc_then_Inr vec_delete_def len_write_def)
qed

section \<open>What clients rely on\<close>

locale enumerable_set =
  fixes elems :: "'s \<Rightarrow> 'a list" and inv :: "'s \<Rightarrow> bool" and ins :: "'a \<Rightarrow> 's \<Rightarrow> 's"
    and rem :: "'a \<Rightarrow> 's \<Rightarrow> 's" and has :: "'a \<Rightarrow> 's \<Rightarrow> bool" and cap :: nat
  assumes has_elems: "inv s \<Longrightarrow> has x s \<longleftrightarrow> x \<in> set (elems s)"
    and elems_distinct: "inv s \<Longrightarrow> distinct (elems s)"
    and elems_ins: "inv s \<Longrightarrow> length (elems s) < cap \<Longrightarrow>
      elems (ins x s) = (if x \<in> set (elems s) then elems s else elems s @ [x])"
    and inv_ins: "inv s \<Longrightarrow> length (elems s) < cap \<Longrightarrow> inv (ins x s)"
    and elems_rem: "inv s \<Longrightarrow> set (elems (rem x s)) = set (elems s) - {x}"
    and inv_rem: "inv s \<Longrightarrow> inv (rem x s)"
begin

lemma has_ins: "inv s \<Longrightarrow> length (elems s) < cap \<Longrightarrow> has y (ins x s) \<longleftrightarrow> y = x \<or> has y s"
  by (auto simp: has_elems inv_ins elems_ins)

lemma has_rem: "inv s \<Longrightarrow> has y (rem x s) \<longleftrightarrow> y \<noteq> x \<and> has y s"
  by (auto simp: has_elems inv_rem elems_rem)

lemma ins_all:
  assumes "inv s" "length (elems s) + length xs \<le> cap" "distinct xs" "set xs \<inter> set (elems s) = {}"
  shows "inv (fold ins xs s) \<and> elems (fold ins xs s) = elems s @ xs"
  using assms
proof (induction xs arbitrary: s)
  case (Cons x xs)
  then have "inv (ins x s)" "elems (ins x s) = elems s @ [x]"
    by (auto simp: inv_ins elems_ins)
  with Cons.IH [of "ins x s"] Cons.prems show ?case by auto
qed simp

end

definition set_insert_state :: "nat \<Rightarrow> 'a \<Rightarrow> 'a set_handler \<Rightarrow> 'a set_handler" where
  "set_insert_state eb v s = pc_state (set_insert eb v) [] s"

definition set_remove_state :: "'a::zero \<Rightarrow> 'a set_handler \<Rightarrow> 'a set_handler" where
  "set_remove_state v s = pc_state (set_remove v) [] s"

lemma set_remove_elems:
  assumes wf: "set_wf s"
  shows "set (set_elems (set_remove_state v s)) = set (set_elems s) - {v}"
    "set_wf (set_remove_state v s)"
proof -
  have "set (set_elems (set_remove_state v s)) = set (set_elems s) - {v} \<and> set_wf (set_remove_state v s)"
  proof (cases "v \<in> set (set_elems s)")
    case True
    then obtain i where i: "i < unat (vec_len s)" and v: "v = vec_cells s i" by (auto simp: in_set_elems)
    have "set_remove_state v s = removed i s"
      by (simp add: set_remove_state_def pc_state_def set_remove_run [OF wf i] v)
    then show ?thesis
      using set_swap_remove(1) [OF set_wf_distinct [OF wf], of i] i v
      by (simp add: removed_elems [OF wf i] removed_wf [OF wf i] set_elems_nth)
  next
    case False
    with wf show ?thesis by (simp add: set_remove_state_def pc_state_def set_remove_absent)
  qed
  then show "set (set_elems (set_remove_state v s)) = set (set_elems s) - {v}"
    "set_wf (set_remove_state v s)" by simp_all
qed

interpretation stored_set: enumerable_set set_elems set_wf "set_insert_state eb" set_remove_state
    "\<lambda>v s. positions s v \<noteq> 0" "max_index eb" for eb
proof (unfold_locales, goal_cases)
  case (3 s x)
  then show ?case
    using max_index_bound [of "unat (vec_len s)" eb]
    by (auto simp: set_insert_state_def pc_state_def set_insert_run inserted_elems)
next
  case (4 s x)
  then show ?case
    using max_index_bound [of "unat (vec_len s)" eb]
    by (auto simp: set_insert_state_def pc_state_def set_insert_run inserted_wf)
qed (simp_all add: set_wf_member set_wf_distinct set_remove_elems)

section \<open>Properties\<close>

lemma set_from_vec_aux_props:
  "set (set_from_vec_aux seen vs) = set vs - seen" "distinct (set_from_vec_aux seen vs)"
  "length (set_from_vec_aux seen vs) \<le> length vs"
  by (induction vs arbitrary: seen) (auto intro: le_SucI)

lemma set_from_vec_props [simp]:
  "set (set_from_vec vs) = set vs" "distinct (set_from_vec vs)" "length (set_from_vec vs) \<le> length vs"
  by (simp_all add: set_from_vec_def set_from_vec_aux_props)

lemma single_element [simp]:
  "set_wf (inserted v empty_set_handler)" "set_elems (inserted v empty_set_handler) = [v]"
  using inserted_wf [of empty_set_handler v] inserted_elems [of empty_set_handler v]
  by (simp_all add: empty_set_handler_def [THEN arg_cong [of _ _ vec_len]])

text \<open>C32: inserting into a stored set that has room returns whether the element was new, keeps the
  set well formed, and acts on the listed elements as appending the new one at the end.\<close>

theorem set_insert_refines:
  assumes "set_wf s" "length (set_elems s) < max_index eb"
  shows "\<exists>t. set_insert eb v [] s = (Inr (v \<notin> set (set_elems s)), [], t) \<and> set_wf t \<and>
    set_elems t = (if v \<in> set (set_elems s) then set_elems s else set_elems s @ [v])"
  using assms max_index_bound [of "unat (vec_len s)" eb]
  by (auto simp: set_insert_run inserted_wf inserted_elems)

theorem set_insert_refines_witness:
  "\<exists>t. set_insert 4 (7 :: selector) [] (inserted 5 empty_set_handler) = (Inr True, [], t) \<and> set_wf t \<and>
    set_elems t = [5, 7]"
  using set_insert_refines [of "inserted (5 :: selector) empty_set_handler" 4 7]
  by (simp add: max_index_def del: set_elems_length)

text \<open>C33: removing from a stored set returns whether the element was present, keeps the set well
  formed, drops exactly that element, and fills its place with the last one; removing an absent
  element changes nothing.\<close>

theorem set_remove_refines:
  assumes "set_wf s"
  shows "\<exists>t. set_remove v [] s = (Inr (v \<in> set (set_elems s)), [], t) \<and> set_wf t
    \<and> set (set_elems t) = set (set_elems s) - {v} \<and> (v \<notin> set (set_elems s) \<longrightarrow> t = s)
    \<and> (\<forall>i < length (set_elems s). set_elems s ! i = v \<longrightarrow> set_elems t = swap_remove i (set_elems s))"
proof (cases "v \<in> set (set_elems s)")
  case True
  then obtain i where i: "i < unat (vec_len s)" and v: "v = vec_cells s i" by (auto simp: in_set_elems)
  have run: "set_remove v [] s = (Inr True, [], removed i s)" unfolding v by (rule set_remove_run [OF assms i])
  then have "set_remove_state v s = removed i s" by (simp add: set_remove_state_def pc_state_def)
  moreover have "j = i" if "j < unat (vec_len s)" "set_elems s ! j = v" for j
    using that set_wf_inj [OF assms, of j i] i v by (simp add: set_elems_nth)
  ultimately show ?thesis
    using run True set_remove_elems [OF assms, of v] by (auto simp: removed_elems [OF assms])
next
  case False
  with assms show ?thesis by (auto simp: set_remove_absent dest: nth_mem)
qed

theorem set_remove_refines_witness:
  "\<exists>t. set_remove (5 :: selector) [] (inserted 5 empty_set_handler) = (Inr True, [], t) \<and> set_elems t = []"
  using set_remove_refines [of "inserted (5 :: selector) empty_set_handler" 5] by auto

text \<open>C34: writing a vector of values over a stored set stores its values without repetitions, in
  order of first occurrence: reading gives them back and membership is membership in the vector.\<close>

theorem set_write_read:
  assumes "set_wf s" "length vs < 0x100000000"
  shows "\<exists>t. set_write (set_from_vec vs) [] s = (Inr (), [], t) \<and> set_wf t
    \<and> set_read [] t = (Inr (set_from_vec vs), [], t) \<and> (\<forall>v. set_contains v [] t = (Inr (v \<in> set vs), [], t))"
proof -
  have "length (set_from_vec vs) < 0x100000000" using assms(2) set_from_vec_props(3) [of vs] by linarith
  then obtain t where "set_write (set_from_vec vs) [] s = (Inr (), [], t)" "set_wf t"
      "set_elems t = set_from_vec vs"
    using set_write_run [OF assms(1), of "set_from_vec vs"] by auto
  then show ?thesis using set_read_elems [of t] set_contains_elems [of t] by auto
qed

theorem set_write_read_witness:
  "\<exists>t. set_write (set_from_vec [3, 4, 3]) [] (inserted (5 :: address) empty_set_handler) = (Inr (), [], t)
    \<and> set_read [] t = (Inr [3, 4], [], t) \<and> set_contains 5 [] t = (Inr False, [], t)"
proof -
  have "set_from_vec [3, 4, 3 :: address] = [3, 4]" by (simp add: set_from_vec_def)
  then show ?thesis using set_write_read [of "inserted (5 :: address) empty_set_handler" "[3, 4, 3]"] by auto
qed

text \<open>C35: deleting a stored set, packed or not, leaves the all-zero storage of a set that was never
  written: no element, no position and no cell stays behind.\<close>

theorem set_delete_leaves_nothing:
  assumes "set_wf s" "0 < eb"
  shows "set_delete eb [] s = (Inr (), [], empty_set_handler)"
  using assms by (rule set_delete_run)

theorem set_delete_leaves_nothing_witness:
  "set_delete 4 [] (inserted (5 :: selector) empty_set_handler) = (Inr (), [], empty_set_handler)"
  using set_delete_leaves_nothing [of "inserted (5 :: selector) empty_set_handler" 4] by simp

end
