(* ===== verification/Keychain_Model.thy ===== *)
theory Keychain_Model
  imports Set_Handler
begin

text \<open>
  The account keychain precompile (\<open>sci/crates/precompiles/src/account_keychain/mod.rs\<close>): its
  storage rows as records, and one definition per method, in the order of the source.

  Storage is modelled at the level of the typed handlers: a mapping is a total function whose
  default is the zero row, as an untouched storage slot reads as zero. A row of several slots is
  written in one access per slot. What the methods ask of the block (\<open>spec\<close>, \<open>timestamp\<close>)
  and the hash function are the fields of the record \<open>host\<close>; \<open>keccak256\<close> is not part of
  this repository, so it is a parameter, and properties that need it collision free say so.
  \<open>events\<close> is the log that \<open>emit_event\<close> appends to.

  Where the code takes a \<open>HashSet\<close> to reject repetitions, the set of elements seen so far is an
  argument of the loop.
\<close>

section \<open>Data\<close>

record host =
  spec :: TempoHardfork
  timestamp :: u256
  keccak256 :: "bytes \<Rightarrow> b256"

definition now :: "host \<Rightarrow> u64" where
  "now h = saturating_to_u64 (timestamp h)"

record AuthorizedKey =
  signature_type :: u8
  expiry :: u64
  enforce_limits :: bool
  is_revoked :: bool

record SelectorScope =
  recipients :: "address set_handler"

record TargetScope =
  selectors :: "selector set_handler"
  selector_scopes :: "selector \<Rightarrow> SelectorScope"

record KeyScope =
  is_scoped :: bool
  targets :: "address set_handler"
  target_scopes :: "address \<Rightarrow> TargetScope"

record SpendingLimitState =
  remaining :: u256
  max_limit :: u128
  period :: u64
  period_end :: u64

datatype AccountKeychainEvent =
    KeyAuthorized address address u8 u64
  | KeyRevoked address address
  | SpendingLimitUpdated address address address u256
  | AccessKeySpend address address address u256 u256
  | KeyAuthorizationWitness address b256
  | KeyAuthorizationWitnessBurned address b256

record AccountKeychain =
  keys :: "address \<Rightarrow> address \<Rightarrow> AuthorizedKey"
  spending_limits :: "b256 \<Rightarrow> address \<Rightarrow> SpendingLimitState"
  key_scopes :: "b256 \<Rightarrow> KeyScope"
  key_authorization_witnesses :: "address \<Rightarrow> b256 \<Rightarrow> bool"
  transaction_key :: address
  tx_origin :: address
  events :: "AccountKeychainEvent list"

type_synonym 'a kc = "(AccountKeychain, 'a) pc"

datatype SignatureType = Secp256k1 | P256 | WebAuthn | UnknownSignatureType

record TokenLimit =
  token :: address
  amount :: u256
  limit_period :: u64

record SelectorRule =
  rule_selector :: selector
  rule_recipients :: "address list"

record CallScope =
  target :: address
  selectorRules :: "SelectorRule list"

record KeyRestrictions =
  restr_expiry :: u64
  enforceLimits :: bool
  limits :: "TokenLimit list"
  allowAnyCalls :: bool
  allowedCalls :: "CallScope list"

record KeyInfo =
  info_signatureType :: SignatureType
  info_keyId :: address
  info_expiry :: u64
  info_enforceLimits :: bool
  info_isRevoked :: bool

datatype TxKind = Call address | Create

text \<open>The all-zero rows of untouched storage, \<open>Default::default()\<close> in the code.\<close>

definition default_key :: AuthorizedKey where
  "default_key = \<lparr>signature_type = 0, expiry = 0, enforce_limits = False, is_revoked = False\<rparr>"

definition default_limit :: SpendingLimitState where
  "default_limit = \<lparr>remaining = 0, max_limit = 0, period = 0, period_end = 0\<rparr>"

definition default_selector_scope :: SelectorScope where
  "default_selector_scope = \<lparr>recipients = empty_set_handler\<rparr>"

definition default_target_scope :: TargetScope where
  "default_target_scope =
     \<lparr>selectors = empty_set_handler, selector_scopes = (\<lambda>_. default_selector_scope)\<rparr>"

definition default_key_scope :: KeyScope where
  "default_key_scope =
     \<lparr>is_scoped = False, targets = empty_set_handler, target_scopes = (\<lambda>_. default_target_scope)\<rparr>"

definition empty_keychain :: AccountKeychain where
  "empty_keychain = \<lparr>keys = (\<lambda>_ _. default_key), spending_limits = (\<lambda>_ _. default_limit),
     key_scopes = (\<lambda>_. default_key_scope), key_authorization_witnesses = (\<lambda>_ _. False),
     transaction_key = 0, tx_origin = 0, events = []\<rparr>"

abbreviation keychain_error :: "AccountKeychainErr \<Rightarrow> ('s, 'a) pc" where
  "keychain_error e \<equiv> pc_throw (AccountKeychainError e)"

section \<open>Constants and pure helpers\<close>

text \<open>The selectors are the first four bytes of the hash of the signature, which the ABI macro
  computes at compile time.\<close>

definition TIP20_TRANSFER_SELECTOR :: selector where
  "TIP20_TRANSFER_SELECTOR = 0xa9059cbb"

definition TIP20_APPROVE_SELECTOR :: selector where
  "TIP20_APPROVE_SELECTOR = 0x095ea7b3"

definition TIP20_TRANSFER_WITH_MEMO_SELECTOR :: selector where
  "TIP20_TRANSFER_WITH_MEMO_SELECTOR = 0x95777d59"

lemmas tip20_selector_defs =
  TIP20_TRANSFER_SELECTOR_def TIP20_APPROVE_SELECTOR_def TIP20_TRANSFER_WITH_MEMO_SELECTOR_def

definition is_constrained_tip20_selector :: "selector \<Rightarrow> bool" where
  "is_constrained_tip20_selector sel \<longleftrightarrow>
     sel = TIP20_TRANSFER_SELECTOR \<or> sel = TIP20_APPROVE_SELECTOR \<or>
     sel = TIP20_TRANSFER_WITH_MEMO_SELECTOR"

text \<open>Callers roll a period over only when \<open>period\<close> is not zero, which the source asserts; the
  division by zero it would panic on is not reached.\<close>

definition compute_next_period_end :: "SpendingLimitState \<Rightarrow> u64 \<Rightarrow> u64" where
  "compute_next_period_end st current_timestamp =
     (let elapsed = sat_sub current_timestamp (period_end st);
          periods_elapsed = sat_add (elapsed div period st) 1;
          advance = sat_mul (period st) periods_elapsed
      in sat_add (period_end st) advance)"

text \<open>Big-endian bytes of an address.\<close>

definition address_bytes :: "address \<Rightarrow> bytes" where
  "address_bytes a = map (\<lambda>i. ucast (drop_bit (8 * (19 - i)) a)) [0..<20]"

definition spending_limit_key :: "host \<Rightarrow> address \<Rightarrow> address \<Rightarrow> b256" where
  "spending_limit_key h account key_id = keccak256 h (address_bytes account @ address_bytes key_id)"

definition t3_spending_limit_cap :: "u256 \<Rightarrow> ('s, u128) pc" where
  "t3_spending_limit_cap limit =
     (if limit > ucast (- 1 :: u128) then keychain_error InvalidSpendingLimit
      else pc_return (ucast limit))"

section \<open>Storage handles\<close>

definition key_read :: "address \<Rightarrow> address \<Rightarrow> AuthorizedKey kc" where
  "key_read a k = pc_read (\<lambda>s. keys s a k)"

definition key_write :: "address \<Rightarrow> address \<Rightarrow> AuthorizedKey \<Rightarrow> unit kc" where
  "key_write a k v = pc_write (\<lambda>s. s\<lparr>keys := (keys s)(a := (keys s a)(k := v))\<rparr>)"

definition limit_update :: "b256 \<Rightarrow> address \<Rightarrow> (SpendingLimitState \<Rightarrow> SpendingLimitState) \<Rightarrow> unit kc" where
  "limit_update lk t f = pc_write (\<lambda>s. s\<lparr>spending_limits :=
     (spending_limits s)(lk := (spending_limits s lk)(t := f (spending_limits s lk t)))\<rparr>)"

definition limit_read :: "b256 \<Rightarrow> address \<Rightarrow> SpendingLimitState kc" where
  "limit_read lk t = pc_bind (pc_read (\<lambda>s. remaining (spending_limits s lk t))) (\<lambda>r.
     pc_read (\<lambda>s. (spending_limits s lk t)\<lparr>remaining := r\<rparr>))"

definition remaining_write :: "b256 \<Rightarrow> address \<Rightarrow> u256 \<Rightarrow> unit kc" where
  "remaining_write lk t v = limit_update lk t (\<lambda>st. st\<lparr>remaining := v\<rparr>)"

definition limit_write :: "b256 \<Rightarrow> address \<Rightarrow> SpendingLimitState \<Rightarrow> unit kc" where
  "limit_write lk t v = pc_then (remaining_write lk t (remaining v))
     (limit_update lk t (\<lambda>st. v\<lparr>remaining := remaining st\<rparr>))"

definition scope_put :: "b256 \<Rightarrow> KeyScope \<Rightarrow> AccountKeychain \<Rightarrow> AccountKeychain" where
  "scope_put kh ks s = s\<lparr>key_scopes := (key_scopes s)(kh := ks)\<rparr>"

definition is_scoped_read :: "b256 \<Rightarrow> bool kc" where
  "is_scoped_read kh = pc_read (\<lambda>s. is_scoped (key_scopes s kh))"

definition is_scoped_write :: "b256 \<Rightarrow> bool \<Rightarrow> unit kc" where
  "is_scoped_write kh b = pc_write (\<lambda>s. scope_put kh ((key_scopes s kh)\<lparr>is_scoped := b\<rparr>) s)"

definition on_targets :: "b256 \<Rightarrow> (address set_handler, 'a) pc \<Rightarrow> 'a kc" where
  "on_targets kh = pc_zoom (\<lambda>s. targets (key_scopes s kh))
     (\<lambda>t s. scope_put kh ((key_scopes s kh)\<lparr>targets := t\<rparr>) s)"

definition target_put :: "address \<Rightarrow> TargetScope \<Rightarrow> KeyScope \<Rightarrow> KeyScope" where
  "target_put tgt ts ks = ks\<lparr>target_scopes := (target_scopes ks)(tgt := ts)\<rparr>"

definition on_selectors :: "b256 \<Rightarrow> address \<Rightarrow> (selector set_handler, 'a) pc \<Rightarrow> 'a kc" where
  "on_selectors kh tgt = pc_zoom (\<lambda>s. selectors (target_scopes (key_scopes s kh) tgt))
     (\<lambda>t s. scope_put kh (target_put tgt
        ((target_scopes (key_scopes s kh) tgt)\<lparr>selectors := t\<rparr>) (key_scopes s kh)) s)"

definition recipients_put :: "selector \<Rightarrow> address set_handler \<Rightarrow> TargetScope \<Rightarrow> TargetScope" where
  "recipients_put sel t ts = ts\<lparr>selector_scopes :=
     (selector_scopes ts)(sel := (selector_scopes ts sel)\<lparr>recipients := t\<rparr>)\<rparr>"

definition on_recipients :: "b256 \<Rightarrow> address \<Rightarrow> selector \<Rightarrow> (address set_handler, 'a) pc \<Rightarrow> 'a kc" where
  "on_recipients kh tgt sel =
     pc_zoom (\<lambda>s. recipients (selector_scopes (target_scopes (key_scopes s kh) tgt) sel))
       (\<lambda>t s. scope_put kh (target_put tgt
          (recipients_put sel t (target_scopes (key_scopes s kh) tgt)) (key_scopes s kh)) s)"

definition witness_read :: "address \<Rightarrow> b256 \<Rightarrow> bool kc" where
  "witness_read a w = pc_read (\<lambda>s. key_authorization_witnesses s a w)"

definition witness_write :: "address \<Rightarrow> b256 \<Rightarrow> unit kc" where
  "witness_write a w = pc_write (\<lambda>s. s\<lparr>key_authorization_witnesses :=
     (key_authorization_witnesses s)(a := (key_authorization_witnesses s a)(w := True))\<rparr>)"

definition emit_event :: "AccountKeychainEvent \<Rightarrow> unit kc" where
  "emit_event e = pc_write (\<lambda>s. s\<lparr>events := events s @ [e]\<rparr>)"

lemmas handle_defs = key_read_def key_write_def limit_update_def limit_read_def remaining_write_def
  limit_write_def is_scoped_read_def is_scoped_write_def witness_read_def witness_write_def
  emit_event_def

section \<open>Callers, witnesses and active keys\<close>

definition load_active_key :: "address \<Rightarrow> address \<Rightarrow> u64 \<Rightarrow> AuthorizedKey kc" where
  "load_active_key account key_id current_timestamp = pc_bind (key_read account key_id) (\<lambda>key.
     if is_revoked key then keychain_error KeyAlreadyRevoked
     else if expiry key = 0 then keychain_error KeyNotFound
     else if current_timestamp \<ge> expiry key then keychain_error KeyExpired
     else pc_return key)"

definition ensure_account_caller :: "host \<Rightarrow> address \<Rightarrow> bool \<Rightarrow> unit kc" where
  "ensure_account_caller h msg_sender allow_active_key = pc_bind (pc_read transaction_key) (\<lambda>tk.
     pc_then
       (if tk \<noteq> 0 then
          if allow_active_key then
            pc_then (load_active_key msg_sender tk (now h)) (pc_return ())
          else keychain_error UnauthorizedCaller
        else pc_return ())
       (if is_t2 (spec h) then pc_bind (pc_read tx_origin) (\<lambda>origin.
          if origin = 0 \<or> origin \<noteq> msg_sender then keychain_error UnauthorizedCaller
          else pc_return ())
        else pc_return ()))"

definition ensure_admin_caller :: "host \<Rightarrow> address \<Rightarrow> unit kc" where
  "ensure_admin_caller h msg_sender = ensure_account_caller h msg_sender False"

definition ensure_key_authorization_witness_not_burned :: "address \<Rightarrow> b256 \<Rightarrow> unit kc" where
  "ensure_key_authorization_witness_not_burned account witness =
     pc_bind (witness_read account witness) (\<lambda>burned.
       if burned then keychain_error KeyAuthorizationWitnessAlreadyBurned else pc_return ())"

definition burn_key_authorization_witness_value :: "address \<Rightarrow> b256 \<Rightarrow> unit kc" where
  "burn_key_authorization_witness_value account witness =
     pc_then (ensure_key_authorization_witness_not_burned account witness)
     (pc_then (witness_write account witness)
        (emit_event (KeyAuthorizationWitnessBurned account witness)))"

definition validate_keychain_authorization ::
  "address \<Rightarrow> address \<Rightarrow> u64 \<Rightarrow> u8 option \<Rightarrow> AuthorizedKey kc" where
  "validate_keychain_authorization account key_id current_timestamp expected_sig_type =
     pc_bind (load_active_key account key_id current_timestamp) (\<lambda>key.
       case expected_sig_type of
         None \<Rightarrow> pc_return key
       | Some sig_type \<Rightarrow>
           if signature_type key \<noteq> sig_type
           then keychain_error (SignatureTypeMismatch (signature_type key) sig_type)
           else pc_return key)"

section \<open>Call scopes\<close>

fun validate_recipients :: "address set \<Rightarrow> address list \<Rightarrow> ('s, unit) pc" where
  "validate_recipients unique [] = pc_return ()"
| "validate_recipients unique (r # rs) =
     (if r = 0 \<or> r \<in> unique then keychain_error InvalidCallScope
      else validate_recipients (insert r unique) rs)"

fun validate_selector_rules :: "selector set \<Rightarrow> SelectorRule list \<Rightarrow> ('s, unit) pc" where
  "validate_selector_rules seen [] = pc_return ()"
| "validate_selector_rules seen (rule # rules) =
     (if rule_selector rule \<in> seen then keychain_error InvalidCallScope
      else if rule_recipients rule = [] then
        validate_selector_rules (insert (rule_selector rule) seen) rules
      else if \<not> is_constrained_tip20_selector (rule_selector rule) then
        keychain_error InvalidCallScope
      else pc_then (validate_recipients {} (rule_recipients rule))
             (validate_selector_rules (insert (rule_selector rule) seen) rules))"

definition validate_call_scope :: "CallScope \<Rightarrow> ('s, unit) pc" where
  "validate_call_scope scope =
     (if target scope = 0 then keychain_error InvalidCallScope
      else if selectorRules scope \<noteq> [] then validate_selector_rules {} (selectorRules scope)
      else pc_return ())"

fun validate_call_scopes :: "host \<Rightarrow> address set \<Rightarrow> CallScope list \<Rightarrow> ('s, unit) pc" where
  "validate_call_scopes h seen [] = pc_return ()"
| "validate_call_scopes h seen (scope # scopes) =
     (if target scope \<in> seen then keychain_error InvalidCallScope
      else pc_then (if is_t4 (spec h) then validate_call_scope scope else pc_return ())
             (validate_call_scopes h (insert (target scope) seen) scopes))"

abbreviation address_size :: nat where "address_size \<equiv> 20"
abbreviation selector_size :: nat where "selector_size \<equiv> 4"

definition clear_target_selectors :: "b256 \<Rightarrow> address \<Rightarrow> unit kc" where
  "clear_target_selectors account_key tgt =
     pc_bind (on_selectors account_key tgt set_read) (\<lambda>sels.
     pc_then (pc_each (\<lambda>sel. on_recipients account_key tgt sel (set_delete address_size)) sels)
       (on_selectors account_key tgt (set_delete selector_size)))"

definition remove_target_scope :: "b256 \<Rightarrow> address \<Rightarrow> unit kc" where
  "remove_target_scope account_key tgt =
     pc_bind (on_targets account_key (set_remove tgt)) (\<lambda>present.
       if \<not> present then pc_return () else clear_target_selectors account_key tgt)"

definition clear_all_target_scopes :: "b256 \<Rightarrow> unit kc" where
  "clear_all_target_scopes account_key =
     pc_bind (on_targets account_key set_read) (\<lambda>tgts.
     pc_then (pc_each (clear_target_selectors account_key) tgts)
       (on_targets account_key (set_delete address_size)))"

definition upsert_rule :: "host \<Rightarrow> b256 \<Rightarrow> address \<Rightarrow> SelectorRule \<Rightarrow> unit kc" where
  "upsert_rule h account_key tgt rule =
     pc_then (on_selectors account_key tgt (set_insert selector_size (rule_selector rule)))
       (if rule_recipients rule = [] then
          if \<not> is_t4 (spec h) then
            on_recipients account_key tgt (rule_selector rule) (set_delete address_size)
          else pc_return ()
        else on_recipients account_key tgt (rule_selector rule) (set_write (rule_recipients rule)))"

definition upsert_target_scope :: "host \<Rightarrow> b256 \<Rightarrow> CallScope \<Rightarrow> unit kc" where
  "upsert_target_scope h account_key scope =
     pc_then (if \<not> is_t4 (spec h) then validate_call_scope scope else pc_return ())
     (pc_then (on_targets account_key (set_insert address_size (target scope)))
     (pc_then (clear_target_selectors account_key (target scope))
       (if selectorRules scope = [] then pc_return ()
        else pc_each (upsert_rule h account_key (target scope)) (selectorRules scope))))"

definition replace_allowed_calls :: "host \<Rightarrow> b256 \<Rightarrow> CallScope list option \<Rightarrow> unit kc" where
  "replace_allowed_calls h account_key allowed_calls =
     pc_then (clear_all_target_scopes account_key)
       (case allowed_calls of
          None \<Rightarrow> is_scoped_write account_key False
        | Some scopes \<Rightarrow>
            pc_then (is_scoped_write account_key True)
              (if scopes = [] then pc_return ()
               else pc_then (validate_call_scopes h {} scopes)
                      (pc_each (upsert_target_scope h account_key) scopes)))"

text \<open>The four-byte selector and the first argument word of a call's input.\<close>

definition input_selector :: "bytes \<Rightarrow> selector" where
  "input_selector input = be_word (take 4 input)"

definition recipient_word :: "bytes \<Rightarrow> bytes" where
  "recipient_word input = take 32 (drop 4 input)"

definition validate_call_scope_for_transaction ::
  "host \<Rightarrow> address \<Rightarrow> address \<Rightarrow> TxKind \<Rightarrow> bytes \<Rightarrow> unit kc" where
  "validate_call_scope_for_transaction h account key_id dest input =
     (if key_id = 0 \<or> \<not> is_t3 (spec h) then pc_return ()
      else case dest of
        Create \<Rightarrow> keychain_error CallNotAllowed
      | Call tgt \<Rightarrow>
          let kh = spending_limit_key h account key_id in
          pc_bind (is_scoped_read kh) (\<lambda>scoped.
          if \<not> scoped then pc_return ()
          else pc_bind (on_targets kh (set_contains tgt)) (\<lambda>known.
          if \<not> known then keychain_error CallNotAllowed
          else pc_bind (on_selectors kh tgt set_is_empty) (\<lambda>target_is_unconstrained.
          if target_is_unconstrained then pc_return ()
          else if length input < 4 then keychain_error CallNotAllowed
          else let sel = input_selector input in
          pc_bind (on_selectors kh tgt (set_contains sel)) (\<lambda>listed.
          if \<not> listed then keychain_error CallNotAllowed
          else pc_bind (on_recipients kh tgt sel set_is_empty) (\<lambda>selector_is_unconstrained.
          if selector_is_unconstrained then pc_return ()
          else if length input < 36 then keychain_error CallNotAllowed
          else let word = recipient_word input in
          if \<exists>b \<in> set (take 12 word). b \<noteq> 0 then keychain_error CallNotAllowed
          else pc_bind (on_recipients kh tgt sel (set_contains (be_word (drop 12 word)))) (\<lambda>ok.
          if ok then pc_return () else keychain_error CallNotAllowed)))))))"

section \<open>Authorization and administration\<close>

fun has_duplicate_token :: "address set \<Rightarrow> TokenLimit list \<Rightarrow> bool" where
  "has_duplicate_token seen [] = False"
| "has_duplicate_token seen (l # ls) =
     (token l \<in> seen \<or> has_duplicate_token (insert (token l) seen) ls)"

definition apply_limit :: "host \<Rightarrow> b256 \<Rightarrow> TokenLimit \<Rightarrow> unit kc" where
  "apply_limit h limit_key l =
     (if is_t3 (spec h) then
        let pend = (if limit_period l = 0 then 0 else sat_add (now h) (limit_period l)) in
        pc_bind (t3_spending_limit_cap (amount l)) (\<lambda>cap.
          limit_write limit_key (token l)
            \<lparr>remaining = amount l, max_limit = cap, period = limit_period l, period_end = pend\<rparr>)
      else remaining_write limit_key (token l) (amount l))"

definition apply_key_authorization_restrictions ::
  "host \<Rightarrow> address \<Rightarrow> address \<Rightarrow> TokenLimit list \<Rightarrow> CallScope list option \<Rightarrow> unit kc" where
  "apply_key_authorization_restrictions h account key_id lims allowed_calls =
     (let limit_key = spending_limit_key h account key_id in
      pc_then (pc_each (apply_limit h limit_key) lims)
        (if \<not> is_t3 (spec h) then pc_return ()
         else replace_allowed_calls h limit_key allowed_calls))"

definition signature_type_code :: "SignatureType \<Rightarrow> ('s, u8) pc" where
  "signature_type_code st = (case st of
     Secp256k1 \<Rightarrow> pc_return 0 | P256 \<Rightarrow> pc_return 1 | WebAuthn \<Rightarrow> pc_return 2
   | UnknownSignatureType \<Rightarrow> keychain_error InvalidSignatureType)"

definition allowed_call_configs :: "host \<Rightarrow> KeyRestrictions \<Rightarrow> ('s, CallScope list option) pc" where
  "allowed_call_configs h config =
     (if is_t3 (spec h) then
        if enforceLimits config \<and> has_duplicate_token {} (limits config)
        then keychain_error InvalidSpendingLimit
        else pc_return (if allowAnyCalls config then None else Some (allowedCalls config))
      else if \<exists>l \<in> set (limits config). limit_period l \<noteq> 0 then keychain_error InvalidSpendingLimit
      else if \<not> allowAnyCalls config \<or> allowedCalls config \<noteq> [] then keychain_error InvalidCallScope
      else pc_return None)"

definition authorize_key ::
  "host \<Rightarrow> address \<Rightarrow> address \<Rightarrow> SignatureType \<Rightarrow> KeyRestrictions \<Rightarrow> b256 option \<Rightarrow> unit kc" where
  "authorize_key h msg_sender key_id sig config witness =
     pc_then (ensure_admin_caller h msg_sender)
     (if key_id = 0 then keychain_error ZeroPublicKey
      else if is_t0 (spec h) \<and> restr_expiry config \<le> now h then keychain_error ExpiryInPast
      else pc_bind (key_read msg_sender key_id) (\<lambda>existing_key.
      if expiry existing_key > 0 then keychain_error KeyAlreadyExists
      else if is_revoked existing_key then keychain_error KeyAlreadyRevoked
      else pc_bind (signature_type_code sig) (\<lambda>code.
      pc_bind (allowed_call_configs h config) (\<lambda>configs.
      pc_then (case witness of None \<Rightarrow> pc_return ()
               | Some w \<Rightarrow> ensure_key_authorization_witness_not_burned msg_sender w)
      (pc_then (key_write msg_sender key_id \<lparr>signature_type = code, expiry = restr_expiry config,
                  enforce_limits = enforceLimits config, is_revoked = False\<rparr>)
      (pc_then (apply_key_authorization_restrictions h msg_sender key_id
                  (if enforceLimits config then limits config else []) configs)
      (pc_then (case witness of None \<Rightarrow> pc_return ()
                | Some w \<Rightarrow> emit_event (KeyAuthorizationWitness msg_sender w))
      (emit_event (KeyAuthorized msg_sender key_id code (restr_expiry config))))))))))"

definition burn_key_authorization_witness :: "host \<Rightarrow> address \<Rightarrow> b256 \<Rightarrow> unit kc" where
  "burn_key_authorization_witness h msg_sender witness =
     pc_then (ensure_account_caller h msg_sender True)
       (burn_key_authorization_witness_value msg_sender witness)"

definition revoke_key :: "host \<Rightarrow> address \<Rightarrow> address \<Rightarrow> unit kc" where
  "revoke_key h msg_sender key_id =
     pc_then (ensure_admin_caller h msg_sender)
     (pc_bind (key_read msg_sender key_id) (\<lambda>key.
      if expiry key = 0 then keychain_error KeyNotFound
      else pc_then (key_write msg_sender key_id (default_key\<lparr>is_revoked := True\<rparr>))
             (emit_event (KeyRevoked msg_sender key_id))))"

definition update_spending_limit ::
  "host \<Rightarrow> address \<Rightarrow> address \<Rightarrow> address \<Rightarrow> u256 \<Rightarrow> unit kc" where
  "update_spending_limit h msg_sender key_id tok newLimit =
     pc_then (ensure_admin_caller h msg_sender)
     (pc_bind (load_active_key msg_sender key_id (now h)) (\<lambda>key.
      pc_then (if \<not> enforce_limits key
               then key_write msg_sender key_id (key\<lparr>enforce_limits := True\<rparr>) else pc_return ())
      (let limit_key = spending_limit_key h msg_sender key_id in
       pc_then
         (if is_t3 (spec h) then
            pc_bind (limit_read limit_key tok) (\<lambda>limit_state.
            pc_bind (t3_spending_limit_cap newLimit) (\<lambda>cap.
            limit_write limit_key tok (limit_state\<lparr>remaining := newLimit, max_limit := cap\<rparr>)))
          else remaining_write limit_key tok newLimit)
         (emit_event (SpendingLimitUpdated msg_sender key_id tok newLimit)))))"

definition get_key :: "address \<Rightarrow> address \<Rightarrow> KeyInfo kc" where
  "get_key account key_id = pc_bind (key_read account key_id) (\<lambda>key.
     if expiry key = 0 \<or> is_revoked key then
       pc_return \<lparr>info_signatureType = Secp256k1, info_keyId = 0, info_expiry = 0,
         info_enforceLimits = False, info_isRevoked = is_revoked key\<rparr>
     else
       pc_return \<lparr>info_signatureType =
           (if signature_type key = 1 then P256 else if signature_type key = 2 then WebAuthn
            else Secp256k1),
         info_keyId = key_id, info_expiry = expiry key,
         info_enforceLimits = enforce_limits key, info_isRevoked = is_revoked key\<rparr>)"

section \<open>Spending limits\<close>

definition effective_limit_state ::
  "host \<Rightarrow> address \<Rightarrow> address \<Rightarrow> address \<Rightarrow> u64 \<Rightarrow> (u256 \<times> u64) kc" where
  "effective_limit_state h account key_id tok current_timestamp =
     (if key_id = 0 \<and> is_t3 (spec h) then pc_return (0, 0)
      else pc_bind (key_read account key_id) (\<lambda>key.
      if is_revoked key \<or> expiry key = 0 then pc_return (0, 0)
      else if current_timestamp \<ge> expiry key \<and> is_t3 (spec h) then pc_return (0, 0)
      else let limit_key = spending_limit_key h account key_id in
      pc_bind (pc_read (\<lambda>s. remaining (spending_limits s limit_key tok))) (\<lambda>rem.
      if \<not> is_t3 (spec h) then pc_return (rem, 0)
      else pc_bind (pc_read (\<lambda>s. period (spending_limits s limit_key tok))) (\<lambda>per.
      if per = 0 then pc_return (rem, 0)
      else pc_bind (pc_read (\<lambda>s. period_end (spending_limits s limit_key tok))) (\<lambda>pend.
      if current_timestamp < pend then pc_return (rem, pend)
      else let elapsed = sat_sub current_timestamp pend;
               periods_elapsed = sat_add (elapsed div per) 1;
               advance = sat_mul per periods_elapsed;
               next_end = sat_add pend advance
      in pc_bind (pc_read (\<lambda>s. max_limit (spending_limits s limit_key tok))) (\<lambda>mx.
      pc_return (ucast mx, next_end)))))))"

definition effective_remaining_limit ::
  "host \<Rightarrow> address \<Rightarrow> address \<Rightarrow> address \<Rightarrow> u64 \<Rightarrow> u256 kc" where
  "effective_remaining_limit h account key_id tok current_timestamp =
     pc_bind (effective_limit_state h account key_id tok current_timestamp) (\<lambda>p. pc_return (fst p))"

definition get_remaining_limit_with_period ::
  "host \<Rightarrow> address \<Rightarrow> address \<Rightarrow> address \<Rightarrow> (u256 \<times> u64) kc" where
  "get_remaining_limit_with_period h account key_id tok =
     effective_limit_state h account key_id tok (now h)"

definition get_remaining_limit :: "host \<Rightarrow> address \<Rightarrow> address \<Rightarrow> address \<Rightarrow> u256 kc" where
  "get_remaining_limit h account key_id tok =
     (if \<not> is_t2 (spec h) then
        pc_read (\<lambda>s. remaining (spending_limits s (spending_limit_key h account key_id) tok))
      else pc_bind (get_remaining_limit_with_period h account key_id tok) (\<lambda>p. pc_return (fst p)))"

definition set_allowed_calls :: "host \<Rightarrow> address \<Rightarrow> address \<Rightarrow> CallScope list \<Rightarrow> unit kc" where
  "set_allowed_calls h msg_sender key_id scopes =
     (if \<not> is_t3 (spec h) then keychain_error InvalidCallScope
      else pc_then (ensure_admin_caller h msg_sender)
      (pc_then (load_active_key msg_sender key_id (now h))
      (let key_hash = spending_limit_key h msg_sender key_id in
       if scopes = [] then keychain_error InvalidCallScope
       else pc_then (validate_call_scopes h {} scopes)
       (pc_then (pc_each (upsert_target_scope h key_hash) scopes)
          (is_scoped_write key_hash True)))))"

definition remove_allowed_calls :: "host \<Rightarrow> address \<Rightarrow> address \<Rightarrow> address \<Rightarrow> unit kc" where
  "remove_allowed_calls h msg_sender key_id tgt =
     pc_then (ensure_admin_caller h msg_sender)
     (pc_then (load_active_key msg_sender key_id (now h))
     (let key_hash = spending_limit_key h msg_sender key_id in
      pc_bind (is_scoped_read key_hash) (\<lambda>current_mode.
      if \<not> current_mode then pc_return () else remove_target_scope key_hash tgt)))"

definition read_rule :: "b256 \<Rightarrow> address \<Rightarrow> selector \<Rightarrow> SelectorRule kc" where
  "read_rule key_hash tgt sel = pc_bind (on_recipients key_hash tgt sel set_read) (\<lambda>rs.
     pc_return \<lparr>rule_selector = sel, rule_recipients = rs\<rparr>)"

definition read_scope :: "b256 \<Rightarrow> address \<Rightarrow> CallScope kc" where
  "read_scope key_hash tgt = pc_bind (on_selectors key_hash tgt set_read) (\<lambda>sels.
     if sels = [] then pc_return \<lparr>target = tgt, selectorRules = []\<rparr>
     else pc_bind (pc_collect (read_rule key_hash tgt) sels) (\<lambda>rules.
       pc_return \<lparr>target = tgt, selectorRules = rules\<rparr>))"

definition get_allowed_calls :: "host \<Rightarrow> address \<Rightarrow> address \<Rightarrow> (bool \<times> CallScope list) kc" where
  "get_allowed_calls h account key_id =
     (if key_id = 0 then pc_return (False, [])
      else pc_bind (key_read account key_id) (\<lambda>key.
      if expiry key = 0 \<or> is_revoked key \<or> now h \<ge> expiry key then pc_return (True, [])
      else let key_hash = spending_limit_key h account key_id in
      pc_bind (is_scoped_read key_hash) (\<lambda>scoped.
      if \<not> scoped then pc_return (False, [])
      else pc_bind (on_targets key_hash set_read) (\<lambda>tgts.
      pc_bind (pc_collect (read_scope key_hash) tgts) (\<lambda>scopes. pc_return (True, scopes))))))"

definition is_key_authorization_witness_burned :: "address \<Rightarrow> b256 \<Rightarrow> bool kc" where
  "is_key_authorization_witness_burned account witness = witness_read account witness"

definition get_transaction_key :: "address kc" where
  "get_transaction_key = pc_read transaction_key"

definition set_transaction_key :: "address \<Rightarrow> unit kc" where
  "set_transaction_key key_id = pc_write (\<lambda>s. s\<lparr>transaction_key := key_id\<rparr>)"

definition set_tx_origin :: "address \<Rightarrow> unit kc" where
  "set_tx_origin origin = pc_write (\<lambda>s. s\<lparr>tx_origin := origin\<rparr>)"

definition roll_over :: "SpendingLimitState \<Rightarrow> u64 \<Rightarrow> SpendingLimitState" where
  "roll_over st current_timestamp =
     (if period st \<noteq> 0 \<and> current_timestamp \<ge> period_end st then
        st\<lparr>remaining := ucast (max_limit st),
           period_end := compute_next_period_end st current_timestamp\<rparr>
      else st)"

definition verify_and_update_spending ::
  "host \<Rightarrow> address \<Rightarrow> address \<Rightarrow> address \<Rightarrow> u256 \<Rightarrow> unit kc" where
  "verify_and_update_spending h account key_id tok amt =
     (if key_id = 0 then pc_return ()
      else pc_bind (load_active_key account key_id (now h)) (\<lambda>key.
      if \<not> enforce_limits key then pc_return ()
      else let limit_key = spending_limit_key h account key_id in
      if \<not> is_t3 (spec h) then
        pc_bind (pc_read (\<lambda>s. remaining (spending_limits s limit_key tok))) (\<lambda>rem.
        if amt > rem then keychain_error SpendingLimitExceeded
        else remaining_write limit_key tok (rem - amt))
      else pc_bind (limit_read limit_key tok) (\<lambda>row.
        let limit_state = roll_over row (now h); rem = remaining limit_state in
        if amt > rem then keychain_error SpendingLimitExceeded
        else pc_then
          (if period row \<noteq> 0 then limit_write limit_key tok (limit_state\<lparr>remaining := rem - amt\<rparr>)
           else remaining_write limit_key tok (rem - amt))
          (emit_event (AccessKeySpend account key_id tok amt (rem - amt))))))"

definition refund_spending_limit :: "host \<Rightarrow> address \<Rightarrow> address \<Rightarrow> u256 \<Rightarrow> unit kc" where
  "refund_spending_limit h account tok amt = pc_bind (pc_read transaction_key) (\<lambda>tk.
     if tk = 0 then pc_return ()
     else pc_bind (pc_read tx_origin) (\<lambda>origin.
     if account \<noteq> origin then pc_return ()
     else pc_bind (pc_catch (pc_bind (load_active_key account tk (now h)) (\<lambda>k. pc_return (Some k)))
                     (\<lambda>e. if is_system_error e then pc_throw e else pc_return None))
       (\<lambda>found. case found of None \<Rightarrow> pc_return () | Some key \<Rightarrow>
     if \<not> enforce_limits key then pc_return ()
     else let limit_key = spending_limit_key h account tk in
     if \<not> is_t3 (spec h) then
       pc_bind (pc_read (\<lambda>s. remaining (spending_limits s limit_key tok))) (\<lambda>rem.
       remaining_write limit_key tok (sat_add rem amt))
     else pc_bind (limit_read limit_key tok) (\<lambda>limit_state.
       let refunded = sat_add (remaining limit_state) amt in
       limit_write limit_key tok (limit_state\<lparr>remaining :=
         (if max_limit limit_state = 0 then refunded
          else min refunded (ucast (max_limit limit_state)))\<rparr>)))))"

definition authorize_transfer :: "host \<Rightarrow> address \<Rightarrow> address \<Rightarrow> u256 \<Rightarrow> unit kc" where
  "authorize_transfer h account tok amt = pc_bind (pc_read transaction_key) (\<lambda>tk.
     if tk = 0 then pc_return ()
     else pc_bind (pc_read tx_origin) (\<lambda>origin.
     if account \<noteq> origin then pc_return ()
     else verify_and_update_spending h account tk tok amt))"

definition authorize_approve :: "host \<Rightarrow> address \<Rightarrow> address \<Rightarrow> u256 \<Rightarrow> u256 \<Rightarrow> unit kc" where
  "authorize_approve h account tok old_approval new_approval =
     pc_bind (pc_read transaction_key) (\<lambda>tk.
     if tk = 0 then pc_return ()
     else pc_bind (pc_read tx_origin) (\<lambda>origin.
     if account \<noteq> origin then pc_return ()
     else let approval_increase = sat_sub new_approval old_approval in
     if approval_increase = 0 then pc_return ()
     else verify_and_update_spending h account tk tok approval_increase))"

end
