(* ===== verification/Gas_Tracker.thy ===== *)
theory Gas_Tracker
  imports Pc_Monad
begin

text \<open>
  The gas counter of a precompile call (\<open>sci/crates/revm-shim/src/interpreter.rs\<close> and
  \<open>deduct_gas\<close> of \<open>storage/evm.rs\<close>): gas is counted up against a limit with saturating
  addition, and a charge that does not fit leaves the counter as it was.
\<close>

record GasTracker =
  gas_limit :: u64
  gas_used :: u64
  state_gas_used :: u64
  reservoir :: u64
  gas_refunded :: int

definition tracker_new :: "u64 \<Rightarrow> u64 \<Rightarrow> u64 \<Rightarrow> GasTracker" where
  "tracker_new limit initial_gas res =
     \<lparr>gas_limit = limit, gas_used = 0, state_gas_used = 0, reservoir = res, gas_refunded = 0\<rparr>"

definition gas_remaining :: "GasTracker \<Rightarrow> u64" where
  "gas_remaining g = sat_sub (gas_limit g) (gas_used g)"

definition record_state_cost :: "u64 \<Rightarrow> GasTracker \<Rightarrow> bool \<times> GasTracker" where
  "record_state_cost amount g = (True, g)"

definition record_regular_cost :: "u64 \<Rightarrow> GasTracker \<Rightarrow> bool \<times> GasTracker" where
  "record_regular_cost amount g =
     (let new_used = sat_add (gas_used g) amount in
      if new_used > gas_limit g then (False, g) else (True, g\<lparr>gas_used := new_used\<rparr>))"

text \<open>\<open>i64::saturating_add\<close>.\<close>

definition sat_add_i64 :: "int \<Rightarrow> int \<Rightarrow> int" where
  "sat_add_i64 a b = max (- (2 ^ 63)) (min (2 ^ 63 - 1) (a + b))"

definition record_refund :: "int \<Rightarrow> GasTracker \<Rightarrow> GasTracker" where
  "record_refund amount g = g\<lparr>gas_refunded := sat_add_i64 (gas_refunded g) amount\<rparr>"

definition deduct_gas :: "u64 \<Rightarrow> GasTracker \<Rightarrow> (TempoPrecompileError + unit) \<times> GasTracker" where
  "deduct_gas additional_cost g =
     (case record_regular_cost additional_cost g of
        (ok, g') \<Rightarrow> (if \<not> ok then Inl OutOfGas else Inr (), g'))"

text \<open>The counter never passes its limit, and a charge adds exactly its cost or nothing.\<close>

definition tracker_ok :: "GasTracker \<Rightarrow> bool" where
  "tracker_ok g \<longleftrightarrow> gas_used g \<le> gas_limit g"

lemma tracker_new_ok [simp]: "tracker_ok (tracker_new l i r)"
  by (simp add: tracker_ok_def tracker_new_def)

lemma deduct_gas_cases:
  obtains "deduct_gas c g = (Inl OutOfGas, g)" "unat (gas_limit g) < unat (gas_used g) + unat c \<or> gas_limit g < gas_used g"
  | "deduct_gas c g = (Inr (), g\<lparr>gas_used := gas_used g + c\<rparr>)" "unat (gas_used g + c) = unat (gas_used g) + unat c"
    "unat (gas_used g) + unat c \<le> unat (gas_limit g)"
  | "deduct_gas c g = (Inr (), g\<lparr>gas_used := - 1\<rparr>)" "gas_limit g = - 1"
    "2 ^ 64 \<le> unat (gas_used g) + unat c"
proof (cases "sat_add (gas_used g) c > gas_limit g")
  case True
  then have "deduct_gas c g = (Inl OutOfGas, g)" by (simp add: deduct_gas_def record_regular_cost_def)
  moreover have "unat (gas_limit g) < unat (gas_used g) + unat c"
    using True by (simp add: word_less_nat_alt unat_sat_add)
  ultimately show thesis using that(1) by blast
next
  case False
  then have run: "deduct_gas c g = (Inr (), g\<lparr>gas_used := sat_add (gas_used g) c\<rparr>)"
    by (simp add: deduct_gas_def record_regular_cost_def)
  show thesis
  proof (cases "unat (gas_used g) + unat c < 2 ^ 64")
    case True
    then have "sat_add (gas_used g) c = gas_used g + c" "unat (gas_used g + c) = unat (gas_used g) + unat c"
      by (simp_all add: sat_add_def unat_word_ariths)
    with False run show thesis using that(2) by (simp add: not_less word_le_nat_alt)
  next
    case big: False
    then have "sat_add (gas_used g) c = - 1" by (simp add: sat_add_def)
    with False big run show thesis using that(3) by (simp add: not_less word_order.extremum_unique)
  qed
qed

lemma deduct_gas_ok: "tracker_ok g \<Longrightarrow> tracker_ok (snd (deduct_gas c g))"
  by (auto simp: tracker_ok_def deduct_gas_def record_regular_cost_def Let_def)

lemma deduct_gas_limit [simp]: "gas_limit (snd (deduct_gas c g)) = gas_limit g"
  by (simp add: deduct_gas_def record_regular_cost_def Let_def)

lemma deduct_gas_mono: "gas_used g \<le> gas_used (snd (deduct_gas c g))"
  by (simp add: deduct_gas_def record_regular_cost_def Let_def sat_add_upper)

end
