(* ===== verification/Dispatch.thy ===== *)
theory Dispatch
  imports Keychain_Model Gas_Tracker
begin

text \<open>
  The dispatch layer the precompiles share (\<open>sci/crates/precompiles/src/lib.rs\<close>,
  \<open>error.rs\<close> and the result shim \<open>sci/crates/revm-shim/src/precompile.rs\<close>): how a method's
  \<open>Result\<close> becomes a precompile output, which selectors a hardfork schedule lets through, the
  static-call guard, and the delegate-call guard at the EVM boundary.

  ABI decoding is generated by the \<open>sol!\<close> macro of an external crate and is a parameter
  \<open>decode\<close>. Return values stay decoded. The input cost is charged against the gas of the call before
  anything else; what the storage accesses cost is part of how they answer.
  A call frame of the EVM discards what a call that did not succeed has written, which
  \<open>evm_frame\<close> records.
\<close>

section \<open>Outputs\<close>

datatype revert_data =
    RevertEmpty | DelegateCallNotAllowed | StaticCallNotAllowed | RevertError TempoPrecompileError

datatype PrecompileHalt = HaltOutOfGas | HaltOther string

datatype 'r precompile_output = Success 'r | Revert revert_data | Halt PrecompileHalt | FatalError string

type_synonym ('s, 'o) run = "access list \<Rightarrow> 's \<Rightarrow> 'o \<times> access list \<times> 's"

primrec is_success :: "'r precompile_output \<Rightarrow> bool" where
  "is_success (Success _) = True"
| "is_success (Revert _) = False"
| "is_success (Halt _) = False"
| "is_success (FatalError _) = False"

primrec error_into_precompile_result :: "TempoPrecompileError \<Rightarrow> 'r precompile_output" where
  "error_into_precompile_result (AccountKeychainError e) = Revert (RevertError (AccountKeychainError e))"
| "error_into_precompile_result (SciAgentStateError e) = Revert (RevertError (SciAgentStateError e))"
| "error_into_precompile_result (Panic k) = Revert (RevertError (Panic k))"
| "error_into_precompile_result OutOfGas = Halt HaltOutOfGas"
| "error_into_precompile_result (UnknownFunctionSelector sel) =
     Revert (RevertError (UnknownFunctionSelector sel))"
| "error_into_precompile_result (Fatal msg) = FatalError msg"

definition into_precompile_result :: "('a \<Rightarrow> 'r) \<Rightarrow> TempoPrecompileError + 'a \<Rightarrow> 'r precompile_output" where
  "into_precompile_result encode_ok res = (case res of
     Inr x \<Rightarrow> Success (encode_ok x) | Inl e \<Rightarrow> error_into_precompile_result e)"

section \<open>Views and mutations\<close>

definition view :: "('a \<Rightarrow> 'r) \<Rightarrow> ('s, 'a) pc \<Rightarrow> ('s, 'r precompile_output) run" where
  "view enc m = (\<lambda>fs s. case m fs s of (r, fs', s') \<Rightarrow> (into_precompile_result enc r, fs', s'))"

definition mutate_void :: "'r \<Rightarrow> bool \<Rightarrow> ('s, unit) pc \<Rightarrow> ('s, 'r precompile_output) run" where
  "mutate_void ret is_static m = (\<lambda>fs s.
     if is_static then (Revert StaticCallNotAllowed, fs, s)
     else case m fs s of (r, fs', s') \<Rightarrow> (into_precompile_result (\<lambda>_. ret) r, fs', s'))"

section \<open>Input cost and selector schedules\<close>

definition INPUT_PER_WORD_COST :: nat where "INPUT_PER_WORD_COST = 6"

definition input_cost :: "nat \<Rightarrow> nat" where
  "input_cost calldata_len = min ((calldata_len + 31) div 32 * INPUT_PER_WORD_COST) (2 ^ 64 - 1)"

definition charge_input_cost :: "GasTracker \<Rightarrow> bytes \<Rightarrow> 'r precompile_output option \<times> GasTracker" where
  "charge_input_cost g calldata =
     (case deduct_gas (of_nat (input_cost (length calldata))) g of
        (Inl _, g') \<Rightarrow> (Some (Halt HaltOutOfGas), g')
      | (Inr _, g') \<Rightarrow> (None, g'))"

record SelectorSchedule =
  hardfork :: TempoHardfork
  added :: "selector list"
  dropped :: "selector list"

definition schedule_new :: "TempoHardfork \<Rightarrow> SelectorSchedule" where
  "schedule_new f = \<lparr>hardfork = f, added = [], dropped = []\<rparr>"

definition rejects :: "SelectorSchedule \<Rightarrow> selector \<Rightarrow> TempoHardfork \<Rightarrow> bool" where
  "rejects sch sel active =
     (sel \<in> set (if hardfork sch \<le> active then dropped sch else added sch))"

datatype abi_error = UnknownSelector selector | OtherAbiError

definition dispatch_call ::
  "TempoHardfork \<Rightarrow> bytes \<Rightarrow> SelectorSchedule list \<Rightarrow> (bytes \<Rightarrow> abi_error + 'c) \<Rightarrow>
   ('c \<Rightarrow> ('s, 'r precompile_output) run) \<Rightarrow> ('s, 'r precompile_output) run" where
  "dispatch_call active calldata hardforks decode f = (\<lambda>fs s.
     if length calldata < 4 then
       (if is_t1 active then Revert RevertEmpty
        else Halt (HaltOther ''Invalid input: missing function selector''), fs, s)
     else let sel = input_selector calldata in
     if \<exists>sch \<in> set hardforks. rejects sch sel active then
       (error_into_precompile_result (UnknownFunctionSelector sel), fs, s)
     else case decode calldata of
       Inr call \<Rightarrow> f call fs s
     | Inl (UnknownSelector sel') \<Rightarrow>
         (error_into_precompile_result (UnknownFunctionSelector sel'), fs, s)
     | Inl OtherAbiError \<Rightarrow> (Revert RevertEmpty, fs, s))"

text \<open>\<open>Precompile::call\<close> of both precompiles: input cost first, then dispatch.\<close>

definition metered :: "u64 \<Rightarrow> bytes \<Rightarrow> ('s, 'r precompile_output) run \<Rightarrow> ('s, 'r precompile_output) run" where
  "metered gas calldata f = (\<lambda>fs s. case fst (charge_input_cost (tracker_new gas gas 0) calldata) of
     Some err \<Rightarrow> (err, fs, s)
   | None \<Rightarrow> f fs s)"

section \<open>The EVM boundary\<close>

datatype revm_result = RevmSuccess | RevmReverted | RevmOutOfGas | RevmOther string | RevmFatal string

primrec to_revm34 :: "'r precompile_output \<Rightarrow> revm_result" where
  "to_revm34 (Success _) = RevmSuccess"
| "to_revm34 (Revert _) = RevmReverted"
| "to_revm34 (Halt h) = (case h of HaltOutOfGas \<Rightarrow> RevmOutOfGas | HaltOther msg \<Rightarrow> RevmOther msg)"
| "to_revm34 (FatalError msg) = RevmFatal msg"

definition sci_precompile :: "bool \<Rightarrow> ('s, 'r precompile_output) run \<Rightarrow> ('s, 'r precompile_output) run" where
  "sci_precompile is_direct_call f = (\<lambda>fs s.
     if \<not> is_direct_call then (Revert DelegateCallNotAllowed, fs, s) else f fs s)"

definition evm_frame :: "('s, 'r precompile_output) run \<Rightarrow> ('s, 'r precompile_output) run" where
  "evm_frame f = (\<lambda>fs s. case f fs s of (r, fs', s') \<Rightarrow> (r, fs', if is_success r then s' else s))"

definition run_state :: "('s, 'o) run \<Rightarrow> access list \<Rightarrow> 's \<Rightarrow> 's" where
  "run_state f fs s = snd (snd (f fs s))"

section \<open>What the layer guarantees\<close>

lemma is_success_error [simp]: "\<not> is_success (error_into_precompile_result e)"
  by (cases e) simp_all

lemma is_success_into [simp]: "is_success (into_precompile_result enc r) \<longleftrightarrow> (\<exists>x. r = Inr x)"
  by (cases r) (simp_all add: into_precompile_result_def)

lemma run_state_view [simp]: "run_state (view enc m) fs s = pc_state m fs s"
  by (simp add: run_state_def view_def pc_state_def split: prod.split)

lemma run_state_mutate_void:
  "run_state (mutate_void ret is_static m) fs s = (if is_static then s else pc_state m fs s)"
  by (simp add: run_state_def mutate_void_def pc_state_def split: prod.split)

text \<open>What a call keeps, its dispatch keeps: the layer itself writes nothing.\<close>

definition run_keeps :: "('s \<Rightarrow> bool) \<Rightarrow> ('s, 'o) run \<Rightarrow> bool" where
  "run_keeps P f \<longleftrightarrow> (\<forall>fs s. P s \<longrightarrow> P (run_state f fs s))"

lemma run_keepsD: "run_keeps P f \<Longrightarrow> P s \<Longrightarrow> P (run_state f fs s)"
  by (simp add: run_keeps_def)

lemma run_keeps_view: "pc_keeps P m \<Longrightarrow> run_keeps P (view enc m)"
  by (simp add: run_keeps_def pc_keeps_def)

lemma run_keeps_mutate: "pc_keeps P m \<Longrightarrow> run_keeps P (mutate_void ret is_static m)"
  by (simp add: run_keeps_def pc_keeps_def run_state_mutate_void)

lemma run_keeps_dispatch:
  "(\<And>c. run_keeps P (f c)) \<Longrightarrow> run_keeps P (dispatch_call active calldata hardforks decode f)"
  by (auto simp: run_keeps_def run_state_def dispatch_call_def Let_def split: sum.split abi_error.split)

lemma run_keeps_metered: "run_keeps P f \<Longrightarrow> run_keeps P (metered gas calldata f)"
  by (simp add: run_keeps_def run_state_def metered_def split: option.split)

lemma run_keeps_sci_precompile: "run_keeps P f \<Longrightarrow> run_keeps P (sci_precompile d f)"
  by (auto simp: run_keeps_def run_state_def sci_precompile_def)

lemma run_keeps_evm_frame: "run_keeps P f \<Longrightarrow> run_keeps P (evm_frame f)"
  by (auto simp: run_keeps_def run_state_def evm_frame_def split: prod.splits) (metis snd_conv)+

lemma evm_frame_atomic:
  "evm_frame f fs s = (r, fs', s') \<Longrightarrow> \<not> is_success r \<Longrightarrow> s' = s"
  by (auto simp: evm_frame_def split: prod.splits)

end
