(* ===== verification/Keychain_Dispatch.thy ===== *)
theory Keychain_Dispatch
  imports Dispatch
begin

text \<open>
  ABI dispatch of the account keychain (\<open>account_keychain/dispatch.rs\<close>) and the frames of its
  methods: what each call may touch, whatever the storage accesses answer.
\<close>

section \<open>Calls\<close>

datatype IAccountKeychainCalls =
    authorizeKey_0 address SignatureType u64 bool "(address \<times> u256) list"
  | authorizeKey_1 address SignatureType KeyRestrictions
  | authorizeKey_2 address SignatureType KeyRestrictions b256
  | burnKeyAuthorizationWitness b256
  | revokeKey address
  | updateSpendingLimit address address u256
  | setAllowedCalls address "CallScope list"
  | removeAllowedCalls address address
  | getKey address address
  | getRemainingLimit address address address
  | getRemainingLimitWithPeriod address address address
  | getAllowedCalls address address
  | isKeyAuthorizationWitnessBurned address b256
  | getTransactionKey

datatype kc_return =
    RetUnit | RetKeyInfo KeyInfo | RetAmount u256 | RetLimit "u256 \<times> u64"
  | RetScopes "bool \<times> CallScope list" | RetBool bool | RetAddress address

text \<open>Selectors, computed by the ABI macro from the signatures in \<open>precompile-abi\<close>.\<close>

definition AUTHORIZE_KEY_SELECTOR :: selector where "AUTHORIZE_KEY_SELECTOR = 0x980a6025"
definition AUTHORIZE_KEY_WITNESS_SELECTOR :: selector where "AUTHORIZE_KEY_WITNESS_SELECTOR = 0xe3c154d2"

primrec call_selector :: "IAccountKeychainCalls \<Rightarrow> selector" where
  "call_selector (authorizeKey_0 _ _ _ _ _) = 0x54063a55"
| "call_selector (authorizeKey_1 _ _ _) = AUTHORIZE_KEY_SELECTOR"
| "call_selector (authorizeKey_2 _ _ _ _) = AUTHORIZE_KEY_WITNESS_SELECTOR"
| "call_selector (burnKeyAuthorizationWitness _) = 0xcff31c46"
| "call_selector (revokeKey _) = 0x5ae7ab32"
| "call_selector (updateSpendingLimit _ _ _) = 0xcbbb4480"
| "call_selector (setAllowedCalls _ _) = 0xf5456703"
| "call_selector (removeAllowedCalls _ _) = 0xf3941811"
| "call_selector (getKey _ _) = 0xbc298553"
| "call_selector (getRemainingLimit _ _ _) = 0x63b4290d"
| "call_selector (getRemainingLimitWithPeriod _ _ _) = 0xa7f72cab"
| "call_selector (getAllowedCalls _ _) = 0x0163e7ec"
| "call_selector (isKeyAuthorizationWitnessBurned _ _) = 0x8e6c7e11"
| "call_selector getTransactionKey = 0xb07fbc1a"

definition T3_ADDED :: "selector list" where
  "T3_ADDED = [AUTHORIZE_KEY_SELECTOR, 0xf5456703, 0xf3941811, 0xa7f72cab, 0x0163e7ec]"

definition T3_DROPPED :: "selector list" where
  "T3_DROPPED = [0x63b4290d]"

definition T5_ADDED :: "selector list" where
  "T5_ADDED = [AUTHORIZE_KEY_WITNESS_SELECTOR, 0xcff31c46, 0x8e6c7e11]"

definition keychain_schedule :: "SelectorSchedule list" where
  "keychain_schedule =
     [\<lparr>hardfork = T3, added = T3_ADDED, dropped = T3_DROPPED\<rparr>,
      \<lparr>hardfork = T5, added = T5_ADDED, dropped = []\<rparr>]"

definition legacy_restrictions :: "u64 \<Rightarrow> bool \<Rightarrow> (address \<times> u256) list \<Rightarrow> KeyRestrictions" where
  "legacy_restrictions ex enforce lims = \<lparr>restr_expiry = ex, enforceLimits = enforce,
     limits = map (\<lambda>(t, a). \<lparr>token = t, amount = a, limit_period = 0\<rparr>) lims,
     allowAnyCalls = True, allowedCalls = []\<rparr>"

primrec keychain_dispatch :: "host \<Rightarrow> bool \<Rightarrow> address \<Rightarrow> IAccountKeychainCalls \<Rightarrow>
    (AccountKeychain, kc_return precompile_output) run" where
  "keychain_dispatch h is_static sender (authorizeKey_0 k sig ex enforce lims) =
     (if is_t3 (spec h) then
        (\<lambda>fs s. (error_into_precompile_result
           (AccountKeychainError (LegacyAuthorizeKeySelectorChanged AUTHORIZE_KEY_SELECTOR)), fs, s))
      else mutate_void RetUnit is_static
        (authorize_key h sender k sig (legacy_restrictions ex enforce lims) None))"
| "keychain_dispatch h is_static sender (authorizeKey_1 k sig config) =
     mutate_void RetUnit is_static (authorize_key h sender k sig config None)"
| "keychain_dispatch h is_static sender (authorizeKey_2 k sig config witness) =
     mutate_void RetUnit is_static (authorize_key h sender k sig config (Some witness))"
| "keychain_dispatch h is_static sender (burnKeyAuthorizationWitness witness) =
     mutate_void RetUnit is_static (burn_key_authorization_witness h sender witness)"
| "keychain_dispatch h is_static sender (revokeKey k) =
     mutate_void RetUnit is_static (revoke_key h sender k)"
| "keychain_dispatch h is_static sender (updateSpendingLimit k tok lim) =
     mutate_void RetUnit is_static (update_spending_limit h sender k tok lim)"
| "keychain_dispatch h is_static sender (setAllowedCalls k scopes) =
     mutate_void RetUnit is_static (set_allowed_calls h sender k scopes)"
| "keychain_dispatch h is_static sender (removeAllowedCalls k tgt) =
     mutate_void RetUnit is_static (remove_allowed_calls h sender k tgt)"
| "keychain_dispatch h is_static sender (getKey a k) = view RetKeyInfo (get_key a k)"
| "keychain_dispatch h is_static sender (getRemainingLimit a k tok) =
     view RetAmount (get_remaining_limit h a k tok)"
| "keychain_dispatch h is_static sender (getRemainingLimitWithPeriod a k tok) =
     view RetLimit (get_remaining_limit_with_period h a k tok)"
| "keychain_dispatch h is_static sender (getAllowedCalls a k) = view RetScopes (get_allowed_calls h a k)"
| "keychain_dispatch h is_static sender (isKeyAuthorizationWitnessBurned a w) =
     view RetBool (is_key_authorization_witness_burned a w)"
| "keychain_dispatch h is_static sender getTransactionKey = view RetAddress get_transaction_key"

definition keychain_call :: "host \<Rightarrow> u64 \<Rightarrow> (bytes \<Rightarrow> abi_error + IAccountKeychainCalls) \<Rightarrow> bool \<Rightarrow>
    bytes \<Rightarrow> address \<Rightarrow> (AccountKeychain, kc_return precompile_output) run" where
  "keychain_call h gas decode is_static calldata msg_sender =
     metered gas calldata (dispatch_call (spec h) calldata keychain_schedule decode
       (keychain_dispatch h is_static msg_sender))"

end
