(* ===== verification/Keychain_Frame.thy ===== *)
theory Keychain_Frame
  imports Keychain_Dispatch
begin

text \<open>
  What the keychain methods may touch, for every outcome of their storage accesses.

  \<open>confined h a\<close> relates states that differ only in rows of account \<open>a\<close>; every method a
  sender can call is confined to the sender. \<open>admin_ok\<close> is the admission rule of
  \<open>ensure_admin_caller\<close>.
\<close>

section \<open>Methods that only read\<close>

lemma pc_keeps_case_option [pc_keep]:
  "pc_keeps P m \<Longrightarrow> (\<And>x. pc_keeps P (f x)) \<Longrightarrow> pc_keeps P (case_option m f opt)"
  by (cases opt) simp_all

lemma pc_reads_case_option [pc_keep]:
  "pc_reads m \<Longrightarrow> (\<And>x. pc_reads (f x)) \<Longrightarrow> pc_reads (case_option m f opt)"
  by (cases opt) simp_all

lemma pc_reads_case_TxKind [pc_keep]:
  "(\<And>x. pc_reads (f x)) \<Longrightarrow> pc_reads m \<Longrightarrow> pc_reads (case_TxKind f m dest)"
  by (cases dest) simp_all

lemma wp_case_option [pc_wp]:
  "(opt = None \<Longrightarrow> wp m Q E s) \<Longrightarrow> (\<And>x. opt = Some x \<Longrightarrow> wp (f x) Q E s) \<Longrightarrow>
   wp (case_option m f opt) Q E s"
  by (cases opt) simp_all

lemma set_contains_reads [pc_keep]: "pc_reads (set_contains v)"
  unfolding set_contains_def position_read_def by (intro pc_keep)

lemma set_is_empty_reads [pc_keep]: "pc_reads set_is_empty"
  unfolding set_is_empty_def by (intro pc_keep)

lemma set_read_reads [pc_keep]: "pc_reads set_read"
  unfolding set_read_def cell_read_def by (intro pc_keep)

lemma key_read_reads [pc_keep]: "pc_reads (key_read a k)"
  unfolding key_read_def by (intro pc_keep)

lemma limit_read_reads [pc_keep]: "pc_reads (limit_read lk t)"
  unfolding limit_read_def by (intro pc_keep)

lemma is_scoped_read_reads [pc_keep]: "pc_reads (is_scoped_read kh)"
  unfolding is_scoped_read_def by (intro pc_keep)

lemma witness_read_reads [pc_keep]: "pc_reads (witness_read a w)"
  unfolding witness_read_def by (intro pc_keep)

lemma scope_put_id [simp]: "scope_put kh (key_scopes s kh) s = s"
  by (simp add: scope_put_def)

lemma target_put_id [simp]: "target_put tgt (target_scopes ks tgt) ks = ks"
  by (simp add: target_put_def)

lemma recipients_put_id [simp]: "recipients_put sel (recipients (selector_scopes ts sel)) ts = ts"
  by (simp add: recipients_put_def)

lemma on_targets_reads [pc_keep]: "pc_reads m \<Longrightarrow> pc_reads (on_targets kh m)"
  unfolding on_targets_def by (rule pc_reads_zoom) simp_all

lemma on_selectors_reads [pc_keep]: "pc_reads m \<Longrightarrow> pc_reads (on_selectors kh tgt m)"
  unfolding on_selectors_def by (rule pc_reads_zoom) simp_all

lemma on_recipients_reads [pc_keep]: "pc_reads m \<Longrightarrow> pc_reads (on_recipients kh tgt sel m)"
  unfolding on_recipients_def by (rule pc_reads_zoom) simp_all

lemma load_active_key_reads [pc_keep]: "pc_reads (load_active_key a k ts)"
  unfolding load_active_key_def by (intro pc_keep)

lemma ensure_account_caller_reads [pc_keep]: "pc_reads (ensure_account_caller h a allow)"
  unfolding ensure_account_caller_def by (intro pc_keep)

lemma ensure_admin_caller_reads [pc_keep]: "pc_reads (ensure_admin_caller h a)"
  unfolding ensure_admin_caller_def by (intro pc_keep)

lemma ensure_not_burned_reads [pc_keep]:
  "pc_reads (ensure_key_authorization_witness_not_burned a w)"
  unfolding ensure_key_authorization_witness_not_burned_def by (intro pc_keep)

lemma validate_recipients_reads [pc_keep]: "pc_reads (validate_recipients seen rs)"
  by (induction rs arbitrary: seen) (auto intro!: pc_keep)

lemma validate_selector_rules_reads [pc_keep]: "pc_reads (validate_selector_rules seen rules)"
  by (induction rules arbitrary: seen) (auto intro!: pc_keep)

lemma validate_call_scope_reads [pc_keep]: "pc_reads (validate_call_scope scope)"
  unfolding validate_call_scope_def by (intro pc_keep)

lemma validate_call_scopes_reads [pc_keep]: "pc_reads (validate_call_scopes h seen scopes)"
  by (induction scopes arbitrary: seen) (auto intro!: pc_keep)

lemma t3_spending_limit_cap_reads [pc_keep]: "pc_reads (t3_spending_limit_cap l)"
  unfolding t3_spending_limit_cap_def by (intro pc_keep)

lemma signature_type_code_reads [pc_keep]: "pc_reads (signature_type_code sig)"
  unfolding signature_type_code_def by (cases sig) (simp_all add: pc_keep)

lemma allowed_call_configs_reads [pc_keep]: "pc_reads (allowed_call_configs h config)"
  unfolding allowed_call_configs_def by (intro pc_keep)

lemma validate_call_scope_for_transaction_reads [pc_keep]:
  "pc_reads (validate_call_scope_for_transaction h a k dest input)"
  unfolding validate_call_scope_for_transaction_def Let_def by (intro pc_keep)

lemma effective_limit_state_reads [pc_keep]: "pc_reads (effective_limit_state h a k t ts)"
  unfolding effective_limit_state_def Let_def by (intro pc_keep)

lemma effective_remaining_limit_reads [pc_keep]: "pc_reads (effective_remaining_limit h a k t ts)"
  unfolding effective_remaining_limit_def by (intro pc_keep)

lemma getters_read [pc_keep]:
  "pc_reads (get_key a k)" "pc_reads (get_remaining_limit h a k t)"
  "pc_reads (get_remaining_limit_with_period h a k t)"
  "pc_reads (is_key_authorization_witness_burned a w)" "pc_reads get_transaction_key"
  unfolding get_key_def get_remaining_limit_def get_remaining_limit_with_period_def
    is_key_authorization_witness_burned_def get_transaction_key_def
  by (intro pc_keep)+

lemma get_allowed_calls_reads [pc_keep]: "pc_reads (get_allowed_calls h a k)"
  unfolding get_allowed_calls_def read_scope_def read_rule_def Let_def by (intro pc_keep)

section \<open>Writes confined to one account\<close>

definition confined :: "host \<Rightarrow> address \<Rightarrow> AccountKeychain \<Rightarrow> AccountKeychain \<Rightarrow> bool" where
  "confined h a s t \<longleftrightarrow>
     (\<forall>b. b \<noteq> a \<longrightarrow> keys t b = keys s b
        \<and> key_authorization_witnesses t b = key_authorization_witnesses s b)
     \<and> (\<forall>lk. lk \<notin> range (spending_limit_key h a) \<longrightarrow>
        spending_limits t lk = spending_limits s lk \<and> key_scopes t lk = key_scopes s lk)
     \<and> transaction_key t = transaction_key s \<and> tx_origin t = tx_origin s"

lemma confined_refl [simp]: "confined h a s s"
  by (simp add: confined_def)

text \<open>A handle on a row of \<open>a\<close> keeps the states confined to \<open>a\<close>.\<close>

lemma key_write_confined [pc_keep]: "pc_keeps (confined h a s) (key_write a k v)"
  unfolding key_write_def by (rule pc_keeps_write) (simp add: confined_def)

lemma limit_update_confined [pc_keep]:
  "pc_keeps (confined h a s) (limit_update (spending_limit_key h a k) t f)"
  unfolding limit_update_def by (rule pc_keeps_write) (auto simp: confined_def)

lemma remaining_write_confined [pc_keep]:
  "pc_keeps (confined h a s) (remaining_write (spending_limit_key h a k) t v)"
  unfolding remaining_write_def by (intro pc_keep)

lemma limit_write_confined [pc_keep]:
  "pc_keeps (confined h a s) (limit_write (spending_limit_key h a k) t v)"
  unfolding limit_write_def by (intro pc_keep)

lemma scope_put_confined: "confined h a s t \<Longrightarrow> confined h a s (scope_put (spending_limit_key h a k) v t)"
  by (auto simp: confined_def scope_put_def)

lemma scope_handles_confined [pc_keep]:
  fixes m :: "(address set_handler, 'a) pc" and n :: "(selector set_handler, 'b) pc"
  shows "pc_keeps (confined h a s) (is_scoped_write (spending_limit_key h a k) b)"
    "pc_keeps (confined h a s) (on_targets (spending_limit_key h a k) m)"
    "pc_keeps (confined h a s) (on_selectors (spending_limit_key h a k) tgt n)"
    "pc_keeps (confined h a s) (on_recipients (spending_limit_key h a k) tgt sel m)"
  unfolding is_scoped_write_def on_targets_def on_selectors_def on_recipients_def
  by (rule pc_keeps_write pc_keeps_zoom, erule scope_put_confined)+

lemma witness_write_confined [pc_keep]: "pc_keeps (confined h a s) (witness_write a w)"
  unfolding witness_write_def by (rule pc_keeps_write) (simp add: confined_def)

lemma emit_event_confined [pc_keep]: "pc_keeps (confined h a s) (emit_event e)"
  unfolding emit_event_def by (rule pc_keeps_write) (simp add: confined_def)

lemma clear_target_selectors_confined [pc_keep]:
  "pc_keeps (confined h a s) (clear_target_selectors (spending_limit_key h a k) tgt)"
  unfolding clear_target_selectors_def by (intro pc_keep)

lemma scope_tree_confined [pc_keep]:
  "pc_keeps (confined h a s) (remove_target_scope (spending_limit_key h a k) tgt)"
  "pc_keeps (confined h a s) (clear_all_target_scopes (spending_limit_key h a k))"
  unfolding remove_target_scope_def clear_all_target_scopes_def by (intro pc_keep)+

lemma upsert_target_scope_confined [pc_keep]:
  "pc_keeps (confined h a s) (upsert_target_scope h (spending_limit_key h a k) scope)"
  unfolding upsert_target_scope_def upsert_rule_def
  by (intro pc_keep pc_reads_keeps [OF validate_call_scope_reads])

lemma replace_allowed_calls_confined [pc_keep]:
  "pc_keeps (confined h a s) (replace_allowed_calls h (spending_limit_key h a k) cs)"
  unfolding replace_allowed_calls_def
  by (intro pc_keep pc_reads_keeps [OF validate_call_scopes_reads])

lemma restrictions_confined [pc_keep]:
  "pc_keeps (confined h a s) (apply_key_authorization_restrictions h a k lims cs)"
  unfolding apply_key_authorization_restrictions_def apply_limit_def Let_def
  by (intro pc_keep pc_reads_keeps [OF t3_spending_limit_cap_reads])

lemmas admin_reads_keep =
  pc_reads_keeps [OF ensure_admin_caller_reads] pc_reads_keeps [OF ensure_account_caller_reads]
  pc_reads_keeps [OF load_active_key_reads] pc_reads_keeps [OF key_read_reads]
  pc_reads_keeps [OF limit_read_reads] pc_reads_keeps [OF t3_spending_limit_cap_reads]
  pc_reads_keeps [OF validate_call_scopes_reads] pc_reads_keeps [OF is_scoped_read_reads]
  pc_reads_keeps [OF ensure_not_burned_reads] pc_reads_keeps [OF signature_type_code_reads]
  pc_reads_keeps [OF allowed_call_configs_reads] pc_reads_keeps [OF pc_reads_read]

lemma authorize_key_confined: "pc_keeps (confined h a s) (authorize_key h a k sig config w)"
  unfolding authorize_key_def by (intro pc_keep admin_reads_keep)

lemma burn_confined: "pc_keeps (confined h a s) (burn_key_authorization_witness h a w)"
  unfolding burn_key_authorization_witness_def burn_key_authorization_witness_value_def
  by (intro pc_keep admin_reads_keep)

lemma revoke_key_confined: "pc_keeps (confined h a s) (revoke_key h a k)"
  unfolding revoke_key_def by (intro pc_keep admin_reads_keep)

lemma update_spending_limit_confined: "pc_keeps (confined h a s) (update_spending_limit h a k t v)"
  unfolding update_spending_limit_def Let_def by (intro pc_keep admin_reads_keep)

lemma set_allowed_calls_confined: "pc_keeps (confined h a s) (set_allowed_calls h a k scopes)"
  unfolding set_allowed_calls_def Let_def by (intro pc_keep admin_reads_keep)

lemma remove_allowed_calls_confined: "pc_keeps (confined h a s) (remove_allowed_calls h a k tgt)"
  unfolding remove_allowed_calls_def Let_def by (intro pc_keep admin_reads_keep)

text \<open>Everything a dispatch can run is an administration call, a burn or a getter.\<close>

lemma keychain_dispatch_keeps:
  assumes "\<And>k sig config w. pc_keeps P (authorize_key h a k sig config w)"
    and "\<And>w. pc_keeps P (burn_key_authorization_witness h a w)"
    and "\<And>k. pc_keeps P (revoke_key h a k)"
    and "\<And>k t v. pc_keeps P (update_spending_limit h a k t v)"
    and "\<And>k scopes. pc_keeps P (set_allowed_calls h a k scopes)"
    and "\<And>k tgt. pc_keeps P (remove_allowed_calls h a k tgt)"
  shows "run_keeps P (keychain_dispatch h st a c)"
proof (cases c)
  case (authorizeKey_0 k sig ex enforce lims)
  then show ?thesis
    by (cases "is_t3 (spec h)") (simp_all add: run_keeps_mutate assms(1), simp add: run_keeps_def run_state_def)
qed (simp_all add: run_keeps_mutate run_keeps_view assms pc_reads_keeps getters_read get_allowed_calls_reads)

lemma keychain_dispatch_confined: "run_keeps (confined h a s) (keychain_dispatch h st a c)"
  by (intro keychain_dispatch_keeps authorize_key_confined burn_confined revoke_key_confined
      update_spending_limit_confined set_allowed_calls_confined remove_allowed_calls_confined)

section \<open>The admission rule\<close>

definition admin_ok :: "host \<Rightarrow> address \<Rightarrow> AccountKeychain \<Rightarrow> bool" where
  "admin_ok h a s \<longleftrightarrow> transaction_key s = 0 \<and> (is_t2 (spec h) \<longrightarrow> tx_origin s \<noteq> 0 \<and> tx_origin s = a)"

lemma ensure_admin_caller_run [pc_run]:
  "ensure_admin_caller h a [] s =
     (if admin_ok h a s then Inr () else Inl (AccountKeychainError UnauthorizedCaller), [], s)"
  by (simp add: ensure_admin_caller_def ensure_account_caller_def admin_ok_def pc_then_def pc_bind_def)

lemma wp_ensure_admin_caller [pc_wp]:
  assumes "admin_ok h a s \<Longrightarrow> Q () s" "\<And>e. E e s"
  shows "wp (ensure_admin_caller h a) Q E s"
  unfolding ensure_admin_caller_def ensure_account_caller_def
  using assms by (intro pc_wp) (auto simp: admin_ok_def)

lemma wp_load_active_key [pc_wp]:
  assumes "\<not> is_revoked (keys s a k) \<Longrightarrow> expiry (keys s a k) \<noteq> 0 \<Longrightarrow> ts < expiry (keys s a k) \<Longrightarrow>
      Q (keys s a k) s"
    and "\<And>e. E e s"
  shows "wp (load_active_key a k ts) Q E s"
  unfolding load_active_key_def key_read_def using assms by (intro pc_wp) auto

text \<open>Without admission an administration method changes nothing, whatever its accesses answer.\<close>

lemma keeps_unless_admin:
  assumes "\<not> admin_ok h a s" "m = pc_then (ensure_admin_caller h a) n"
  shows "pc_keeps (\<lambda>t. t = s) m"
  unfolding assms(2) by (rule keeps_wp, intro pc_wp) (use assms(1) in simp_all)

lemma admin_methods_gated:
  assumes "\<not> admin_ok h a s"
  shows "pc_keeps (\<lambda>t. t = s) (authorize_key h a k sig config w)"
    "pc_keeps (\<lambda>t. t = s) (revoke_key h a k)"
    "pc_keeps (\<lambda>t. t = s) (update_spending_limit h a k tok v)"
    "pc_keeps (\<lambda>t. t = s) (set_allowed_calls h a k scopes)"
    "pc_keeps (\<lambda>t. t = s) (remove_allowed_calls h a k tgt)"
proof -
  show "pc_keeps (\<lambda>t. t = s) (authorize_key h a k sig config w)"
    using assms authorize_key_def by (rule keeps_unless_admin)
  show "pc_keeps (\<lambda>t. t = s) (revoke_key h a k)"
    using assms revoke_key_def by (rule keeps_unless_admin)
  show "pc_keeps (\<lambda>t. t = s) (update_spending_limit h a k tok v)"
    using assms update_spending_limit_def by (rule keeps_unless_admin)
  show "pc_keeps (\<lambda>t. t = s) (set_allowed_calls h a k scopes)"
    unfolding set_allowed_calls_def
    by (rule pc_keeps_if pc_keeps_throw keeps_unless_admin [OF assms refl])+
  show "pc_keeps (\<lambda>t. t = s) (remove_allowed_calls h a k tgt)"
    using assms remove_allowed_calls_def by (rule keeps_unless_admin)
qed

text \<open>The part of the state that decides what session keys may do.\<close>

definition policy :: "AccountKeychain \<Rightarrow> (address \<Rightarrow> address \<Rightarrow> AuthorizedKey) \<times>
    (b256 \<Rightarrow> address \<Rightarrow> SpendingLimitState) \<times> (b256 \<Rightarrow> KeyScope)" where
  "policy s = (keys s, spending_limits s, key_scopes s)"

definition policy_fixed :: "AccountKeychain \<Rightarrow> AccountKeychain \<Rightarrow> bool" where
  "policy_fixed s t \<longleftrightarrow>
     policy t = policy s \<and> transaction_key t = transaction_key s \<and> tx_origin t = tx_origin s"

lemma policy_fixed_refl [simp]: "policy_fixed s s"
  by (simp add: policy_fixed_def)

lemma policy_fixed_admin: "policy_fixed s t \<Longrightarrow> admin_ok h a t \<longleftrightarrow> admin_ok h a s"
  by (simp add: policy_fixed_def admin_ok_def)

lemma keeps_pointwise: "(\<And>t. P t \<Longrightarrow> pc_keeps (\<lambda>u. u = t) m) \<Longrightarrow> pc_keeps P m"
  by (simp add: pc_keeps_def)

lemma burn_keeps_policy: "pc_keeps (policy_fixed s) (burn_key_authorization_witness h a w)"
  unfolding burn_key_authorization_witness_def burn_key_authorization_witness_value_def
    witness_write_def emit_event_def
  by (intro pc_keep admin_reads_keep) (simp_all add: policy_fixed_def policy_def)

lemma keychain_dispatch_gated:
  assumes "\<not> admin_ok h a s"
  shows "run_keeps (policy_fixed s) (keychain_dispatch h st a c)"
proof (rule keychain_dispatch_keeps)
  have gated: "pc_keeps (policy_fixed s) m" if "\<And>t. \<not> admin_ok h a t \<Longrightarrow> pc_keeps (\<lambda>u. u = t) m"
    for m :: "unit kc"
    using that by (rule keeps_pointwise) (simp add: policy_fixed_admin assms)
  show "pc_keeps (policy_fixed s) (authorize_key h a k sig config w)" for k sig config w
    by (rule gated) (rule admin_methods_gated)
  show "pc_keeps (policy_fixed s) (revoke_key h a k)" for k
    by (rule gated) (rule admin_methods_gated)
  show "pc_keeps (policy_fixed s) (update_spending_limit h a k tok v)" for k tok v
    by (rule gated) (rule admin_methods_gated)
  show "pc_keeps (policy_fixed s) (set_allowed_calls h a k scopes)" for k scopes
    by (rule gated) (rule admin_methods_gated)
  show "pc_keeps (policy_fixed s) (remove_allowed_calls h a k tgt)" for k tgt
    by (rule gated) (rule admin_methods_gated)
qed (rule burn_keeps_policy)

end
