(* ===== verification/Keychain_Lifecycle.thy ===== *)
theory Keychain_Lifecycle
  imports Keychain_Frame
begin

text \<open>
  The life cycle of key rows and of authorization witnesses, for every outcome of the storage
  accesses: a key goes from fresh to registered to revoked and never back, and a burned witness
  stays burned.
\<close>

section \<open>Life cycle of a key\<close>

text \<open>A row evolves from fresh to registered to revoked; a registered row changes only by turning
  its limits on or by its revocation, and a revoked row stays revoked.\<close>

definition revoked_key :: AuthorizedKey where
  "revoked_key = default_key\<lparr>is_revoked := True\<rparr>"

definition fresh_key :: "AuthorizedKey \<Rightarrow> bool" where
  "fresh_key k \<longleftrightarrow> expiry k = 0 \<and> \<not> is_revoked k"

definition key_evolves :: "AuthorizedKey \<Rightarrow> AuthorizedKey \<Rightarrow> bool" where
  "key_evolves k k' \<longleftrightarrow> k' = k \<or> fresh_key k \<or> k' = revoked_key
     \<or> \<not> is_revoked k \<and> k' = k\<lparr>enforce_limits := True\<rparr>"

lemma key_evolves_refl [simp]: "key_evolves k k"
  by (simp add: key_evolves_def)

lemma key_evolves_trans: "key_evolves k k' \<Longrightarrow> key_evolves k' k'' \<Longrightarrow> key_evolves k k''"
  by (auto simp: key_evolves_def fresh_key_def revoked_key_def default_key_def)

definition keys_evolve :: "AccountKeychain \<Rightarrow> AccountKeychain \<Rightarrow> bool" where
  "keys_evolve s t \<longleftrightarrow> (\<forall>a k. key_evolves (keys s a k) (keys t a k))"

lemma keys_evolve_refl [simp]: "keys_evolve s s"
  by (simp add: keys_evolve_def)

lemma keys_evolve_trans: "keys_evolve s t \<Longrightarrow> keys_evolve t u \<Longrightarrow> keys_evolve s u"
  unfolding keys_evolve_def using key_evolves_trans by blast

lemma keys_evolve_write:
  assumes "keys_evolve s t" "key_evolves (keys t a k) v"
  shows "keys_evolve s (t\<lparr>keys := (keys t)(a := (keys t a)(k := v))\<rparr>)"
  using assms unfolding keys_evolve_def by (auto intro: key_evolves_trans)

lemma keys_evolve_frame: "keys t' = keys t \<Longrightarrow> keys_evolve s t' \<longleftrightarrow> keys_evolve s t"
  by (simp add: keys_evolve_def)

text \<open>The handles on other rows leave the keys alone.\<close>

lemma handles_evolve [pc_keep]:
  fixes m :: "(address set_handler, 'a) pc" and n :: "(selector set_handler, 'b) pc"
  shows "pc_keeps (keys_evolve s) (limit_update lk t f)"
    "pc_keeps (keys_evolve s) (is_scoped_write kh b)"
    "pc_keeps (keys_evolve s) (on_targets kh m)"
    "pc_keeps (keys_evolve s) (on_selectors kh tgt n)"
    "pc_keeps (keys_evolve s) (on_recipients kh tgt sel m)"
    "pc_keeps (keys_evolve s) (witness_write a w)"
    "pc_keeps (keys_evolve s) (emit_event e)"
  unfolding limit_update_def is_scoped_write_def on_targets_def on_selectors_def on_recipients_def
    witness_write_def emit_event_def scope_put_def
  by (rule pc_keeps_write pc_keeps_zoom, simp add: keys_evolve_def)+

lemma limit_handles_evolve [pc_keep]:
  "pc_keeps (keys_evolve s) (remaining_write lk t v)" "pc_keeps (keys_evolve s) (limit_write lk t st)"
  unfolding limit_write_def remaining_write_def by (intro pc_keep)+

lemma clear_target_selectors_evolve [pc_keep]: "pc_keeps (keys_evolve s) (clear_target_selectors kh tgt)"
  unfolding clear_target_selectors_def by (intro pc_keep)

lemma scope_tree_evolve [pc_keep]:
  "pc_keeps (keys_evolve s) (remove_target_scope kh tgt)"
  "pc_keeps (keys_evolve s) (upsert_target_scope h kh scope)"
  "pc_keeps (keys_evolve s) (replace_allowed_calls h kh cs)"
  unfolding remove_target_scope_def clear_all_target_scopes_def upsert_target_scope_def
    upsert_rule_def replace_allowed_calls_def
  by (intro pc_keep pc_reads_keeps [OF validate_call_scope_reads] admin_reads_keep)+

lemma restrictions_evolve [pc_keep]:
  "pc_keeps (keys_evolve s) (apply_key_authorization_restrictions h a k lims cs)"
  unfolding apply_key_authorization_restrictions_def apply_limit_def Let_def
  by (intro pc_keep admin_reads_keep)


lemma wp_reads_bind:
  "pc_reads m \<Longrightarrow> (\<And>x. wp (k x) Q E s) \<Longrightarrow> (\<And>e. E e s) \<Longrightarrow> wp (pc_bind m k) Q E s"
  by (rule wp_bind, rule wp_reads)

lemma wp_reads_then:
  "pc_reads m \<Longrightarrow> wp n Q E s \<Longrightarrow> (\<And>e. E e s) \<Longrightarrow> wp (pc_then m n) Q E s"
  by (rule wp_then, rule wp_reads)

lemma wp_key_write_then:
  assumes "keys_evolve s t" "key_evolves (keys t a k) v" "pc_keeps (keys_evolve s) n"
  shows "wp (pc_then (key_write a k v) n) (\<lambda>_. keys_evolve s) (\<lambda>_. keys_evolve s) t"
  unfolding key_write_def
  by (intro wp_then wp_write wp_keeps assms(3)) (simp_all add: keys_evolve_write assms)

lemmas wp_reading =
  wp_reads_then [OF ensure_admin_caller_reads] wp_reads_bind [OF signature_type_code_reads]
  wp_reads_bind [OF allowed_call_configs_reads] wp_reads_then [OF load_active_key_reads]

lemma authorize_key_evolves: "pc_keeps (keys_evolve s) (authorize_key h a k sig config w)"
proof (rule keeps_wp)
  fix t
  assume t: "keys_evolve s t"
  have "key_evolves (keys t a k) v" if "\<not> expiry (keys t a k) > 0" "\<not> is_revoked (keys t a k)" for v
    using that by (simp add: key_evolves_def fresh_key_def word_gt_0)
  then show "wp (authorize_key h a k sig config w) (\<lambda>_. keys_evolve s) (\<lambda>_. keys_evolve s) t"
    unfolding authorize_key_def key_read_def
    by (intro wp_reading wp_bind wp_if wp_throw wp_read t wp_key_write_then
        wp_reads_then [OF pc_reads_case_option] pc_keep)
qed

lemma revoke_key_evolves: "pc_keeps (keys_evolve s) (revoke_key h a k)"
proof (rule keeps_wp)
  fix t
  assume t: "keys_evolve s t"
  have "key_evolves (keys t a k) revoked_key" by (simp add: key_evolves_def)
  then show "wp (revoke_key h a k) (\<lambda>_. keys_evolve s) (\<lambda>_. keys_evolve s) t"
    unfolding revoke_key_def key_read_def revoked_key_def [symmetric]
    by (intro wp_reading wp_bind wp_if wp_throw wp_read t wp_key_write_then pc_keep)
qed

lemma update_spending_limit_evolves: "pc_keeps (keys_evolve s) (update_spending_limit h a k tok v)"
proof (rule keeps_wp)
  fix t
  assume t: "keys_evolve s t"
  let ?P = "keys_evolve s"
  have rest: "pc_keeps ?P (pc_then
      (if is_t3 (spec h) then
         pc_bind (limit_read (spending_limit_key h a k) tok) (\<lambda>limit_state.
         pc_bind (t3_spending_limit_cap v) (\<lambda>cap. limit_write (spending_limit_key h a k) tok
           (limit_state\<lparr>remaining := v, max_limit := cap\<rparr>)))
       else remaining_write (spending_limit_key h a k) tok v)
      (emit_event (SpendingLimitUpdated a k tok v)))"
    by (intro pc_keep admin_reads_keep)
  have "wp (pc_then (if \<not> enforce_limits key then key_write a k (key\<lparr>enforce_limits := True\<rparr>)
      else pc_return ()) n) (\<lambda>_. ?P) (\<lambda>_. ?P) t"
    if "key = keys t a k" "\<not> is_revoked key" "pc_keeps ?P n" for key and n :: "unit kc"
    unfolding key_write_def using that t
    by (intro wp_then wp_if wp_write wp_return wp_keeps)
      (simp_all add: keys_evolve_write key_evolves_def)
  from this [OF refl _ rest] show "wp (update_spending_limit h a k tok v) (\<lambda>_. ?P) (\<lambda>_. ?P) t"
    unfolding update_spending_limit_def Let_def
    by (intro wp_reading wp_bind [of "load_active_key a k (now h)"] wp_load_active_key t)
qed

lemma scope_admin_evolves:
  "pc_keeps (keys_evolve s) (set_allowed_calls h a k scopes)"
  "pc_keeps (keys_evolve s) (remove_allowed_calls h a k tgt)"
  "pc_keeps (keys_evolve s) (burn_key_authorization_witness h a w)"
  unfolding set_allowed_calls_def remove_allowed_calls_def burn_key_authorization_witness_def
    burn_key_authorization_witness_value_def Let_def
  by (intro pc_keep admin_reads_keep)+

lemma keychain_dispatch_evolves: "run_keeps (keys_evolve s) (keychain_dispatch h st a c)"
  by (intro keychain_dispatch_keeps authorize_key_evolves revoke_key_evolves
      update_spending_limit_evolves scope_admin_evolves)

section \<open>Burned witnesses\<close>

definition burned :: "address \<Rightarrow> b256 \<Rightarrow> AccountKeychain \<Rightarrow> bool" where
  "burned a w s \<longleftrightarrow> key_authorization_witnesses s a w"

lemma handles_burned [pc_keep]:
  fixes m :: "(address set_handler, 'a) pc" and n :: "(selector set_handler, 'b) pc"
  shows "pc_keeps (burned a w) (key_write b k v)"
    "pc_keeps (burned a w) (limit_update lk t f)"
    "pc_keeps (burned a w) (is_scoped_write kh flag)"
    "pc_keeps (burned a w) (on_targets kh m)"
    "pc_keeps (burned a w) (on_selectors kh tgt n)"
    "pc_keeps (burned a w) (on_recipients kh tgt sel m)"
    "pc_keeps (burned a w) (witness_write b w')"
    "pc_keeps (burned a w) (emit_event e)"
  unfolding key_write_def limit_update_def is_scoped_write_def on_targets_def on_selectors_def
    on_recipients_def witness_write_def emit_event_def scope_put_def
  by (rule pc_keeps_write pc_keeps_zoom, auto simp: burned_def)+

lemma limit_handles_burned [pc_keep]:
  "pc_keeps (burned a w) (remaining_write lk t v)" "pc_keeps (burned a w) (limit_write lk t st)"
  unfolding limit_write_def remaining_write_def by (intro pc_keep)+

lemma clear_target_selectors_burned [pc_keep]: "pc_keeps (burned a w) (clear_target_selectors kh tgt)"
  unfolding clear_target_selectors_def by (intro pc_keep)

lemma scope_tree_burned [pc_keep]:
  "pc_keeps (burned a w) (remove_target_scope kh tgt)"
  "pc_keeps (burned a w) (upsert_target_scope h kh scope)"
  "pc_keeps (burned a w) (replace_allowed_calls h kh cs)"
  unfolding remove_target_scope_def clear_all_target_scopes_def upsert_target_scope_def
    upsert_rule_def replace_allowed_calls_def
  by (intro pc_keep pc_reads_keeps [OF validate_call_scope_reads] admin_reads_keep)+

lemma restrictions_burned [pc_keep]:
  "pc_keeps (burned a w) (apply_key_authorization_restrictions h b k lims cs)"
  unfolding apply_key_authorization_restrictions_def apply_limit_def Let_def
  by (intro pc_keep admin_reads_keep)

lemma keychain_dispatch_burned: "run_keeps (burned a w) (keychain_dispatch h st b c)"
proof (rule keychain_dispatch_keeps)
  show "pc_keeps (burned a w) (authorize_key h b k sig config w')" for k sig config w'
    unfolding authorize_key_def by (intro pc_keep admin_reads_keep)
  show "pc_keeps (burned a w) (burn_key_authorization_witness h b w')" for w'
    unfolding burn_key_authorization_witness_def burn_key_authorization_witness_value_def
    by (intro pc_keep admin_reads_keep)
  show "pc_keeps (burned a w) (revoke_key h b k)" for k
    unfolding revoke_key_def by (intro pc_keep admin_reads_keep)
  show "pc_keeps (burned a w) (update_spending_limit h b k tok v)" for k tok v
    unfolding update_spending_limit_def Let_def by (intro pc_keep admin_reads_keep)
  show "pc_keeps (burned a w) (set_allowed_calls h b k scopes)" for k scopes
    unfolding set_allowed_calls_def Let_def by (intro pc_keep admin_reads_keep)
  show "pc_keeps (burned a w) (remove_allowed_calls h b k tgt)" for k tgt
    unfolding remove_allowed_calls_def Let_def by (intro pc_keep admin_reads_keep)
qed

end
