(* ===== verification/Keychain_Scopes.thy ===== *)
theory Keychain_Scopes
  imports Keychain_Lifecycle
begin

text \<open>
  Call scopes: the stored tree of targets, selectors and recipients against the list of rules it
  stands for. \<open>scope_view\<close> reads a stored tree as rules, \<open>call_permitted\<close> is what rules
  promise, and \<open>scope_wf\<close> is the invariant of the tree: every set is well formed and nothing is
  left below an element that is not in its parent set.

  The lemmas show that the scope check of a transaction decides \<open>call_permitted\<close> on the view,
  and that updates act on the view as on a list of rules.
\<close>

section \<open>Specification\<close>

definition recipient_ok :: "address list \<Rightarrow> bytes \<Rightarrow> bool" where
  "recipient_ok rs input \<longleftrightarrow> rs = [] \<or> 36 \<le> length input
     \<and> (\<forall>b \<in> set (take 12 (recipient_word input)). b = 0)
     \<and> be_word (drop 12 (recipient_word input)) \<in> set rs"

definition rules_permit :: "SelectorRule list \<Rightarrow> bytes \<Rightarrow> bool" where
  "rules_permit rules input \<longleftrightarrow> rules = [] \<or> 4 \<le> length input
     \<and> (\<exists>r \<in> set rules. rule_selector r = input_selector input
          \<and> recipient_ok (rule_recipients r) input)"

definition call_permitted :: "bool \<times> CallScope list \<Rightarrow> address \<Rightarrow> bytes \<Rightarrow> bool" where
  "call_permitted v tgt input \<longleftrightarrow>
     \<not> fst v \<or> (\<exists>c \<in> set (snd v). target c = tgt \<and> rules_permit (selectorRules c) input)"

definition rules_view :: "TargetScope \<Rightarrow> SelectorRule list" where
  "rules_view ts = map (\<lambda>sel. \<lparr>rule_selector = sel,
     rule_recipients = set_elems (recipients (selector_scopes ts sel))\<rparr>) (set_elems (selectors ts))"

definition scopes_view :: "KeyScope \<Rightarrow> CallScope list" where
  "scopes_view ks = map (\<lambda>t. \<lparr>target = t, selectorRules = rules_view (target_scopes ks t)\<rparr>)
     (set_elems (targets ks))"

definition scope_view :: "KeyScope \<Rightarrow> bool \<times> CallScope list" where
  "scope_view ks = (is_scoped ks, scopes_view ks)"

definition target_wf :: "TargetScope \<Rightarrow> bool" where
  "target_wf ts \<longleftrightarrow> set_wf (selectors ts) \<and> (\<forall>sel. set_wf (recipients (selector_scopes ts sel)))
     \<and> (\<forall>sel. sel \<notin> set (set_elems (selectors ts)) \<longrightarrow> selector_scopes ts sel = default_selector_scope)"

definition scope_wf :: "KeyScope \<Rightarrow> bool" where
  "scope_wf ks \<longleftrightarrow> set_wf (targets ks) \<and> (\<forall>t. target_wf (target_scopes ks t))
     \<and> (\<forall>t. t \<notin> set (set_elems (targets ks)) \<longrightarrow> target_scopes ks t = default_target_scope)"

lemma default_target_wf [simp]: "target_wf default_target_scope" "rules_view default_target_scope = []"
  by (simp_all add: target_wf_def default_target_scope_def default_selector_scope_def rules_view_def)

lemma default_scope_wf [simp]:
  "scope_wf (default_key_scope\<lparr>is_scoped := b\<rparr>)" "scopes_view (default_key_scope\<lparr>is_scoped := b\<rparr>) = []"
  "scope_wf default_key_scope" "scopes_view default_key_scope = []"
  by (simp_all add: scope_wf_def scopes_view_def default_key_scope_def)

section \<open>Set operations as steps\<close>

lemma set_wf_empty_unique:
  assumes "set_wf s" "set_elems s = []"
  shows "s = empty_set_handler"
proof -
  have "unat (vec_len s) = 0" using assms(2) set_elems_length [of s] by simp
  then have "vec_len s = 0" by (simp add: unat_eq_0)
  moreover have "vec_cells s = (\<lambda>_. 0)" "positions s = (\<lambda>_. 0)"
    using assms \<open>unat (vec_len s) = 0\<close> by (auto simp: set_wf_def fun_eq_iff)
  ultimately show ?thesis by (cases s) (simp add: empty_set_handler_def)
qed

lemma runs_set_read [pc_runs]: "set_wf s \<Longrightarrow> Q (set_elems s) s \<Longrightarrow> runs set_read Q E s"
  by (rule runs_Inr, rule set_read_elems)

lemma runs_set_delete [pc_runs]:
  "set_wf s \<Longrightarrow> 0 < eb \<Longrightarrow> Q () empty_set_handler \<Longrightarrow> runs (set_delete eb) Q E s"
  by (rule runs_Inr, rule set_delete_run)

lemma runs_set_write [pc_runs]:
  assumes "set_wf s" "distinct vs" "length vs < 0x100000000"
    and "\<And>t. set_wf t \<Longrightarrow> set_elems t = vs \<Longrightarrow> Q () t"
  shows "runs (set_write vs) Q E s"
  using set_write_run [OF assms(1-3)] assms(4) by (metis runs_Inr)

lemma set_insert_full:
  assumes wf: "set_wf s" and full: "max_index eb \<le> length (set_elems s)"
    and new: "v \<notin> set (set_elems s)"
  obtains e t where "set_insert eb v [] s = (Inl e, [], t)"
proof -
  let ?n = "unat (vec_len s)"
  have load: "load_checked_len [] t = (Inr ?n, [], t)" if "vec_len t = vec_len s" for t :: "'a set_handler"
    using that set_wf_len [OF wf] by (simp add: load_checked_len_run)
  let ?s1 = "s\<lparr>positions := (positions s)(v := of_nat (Suc ?n))\<rparr>"
  have push: "vec_push eb v [] ?s1 = (Inl (Fatal ''Vec is at max capacity''), [], ?s1)"
    using full by (simp add: vec_push_def pc_bind_def load)
  have "\<exists>e t. set_insert eb v [] s = (Inl e, [], t)"
    using new wf push
    by (cases "Suc ?n < 0x100000000")
      (simp_all add: set_insert_def pc_bind_def set_contains_elems load checked_position_def
        access_defs pc_then_def)
  then show ?thesis using that by blast
qed

lemma runs_set_insert [pc_runs]:
  assumes wf: "set_wf s"
    and full: "max_index eb \<le> length (set_elems s) \<Longrightarrow> v \<notin> set (set_elems s) \<Longrightarrow> \<forall>e t. E e t"
    and ok: "\<And>t. set_wf t \<Longrightarrow>
      set_elems t = (if v \<in> set (set_elems s) then set_elems s else set_elems s @ [v]) \<Longrightarrow>
      Q (v \<notin> set (set_elems s)) t"
  shows "runs (set_insert eb v) Q E s"
proof (cases "v \<in> set (set_elems s)")
  case True
  then have "set_insert eb v [] s = (Inr False, [], s)"
    using wf by (simp add: set_insert_def set_contains_elems pc_bind_Inr)
  then show ?thesis using ok [of s] wf True by (auto intro: runs_Inr)
next
  case new: False
  show ?thesis
  proof (cases "length (set_elems s) < max_index eb")
    case True
    then have "unat (vec_len s) < max_index eb" by simp
    then have n: "Suc (unat (vec_len s)) < 0x100000000" by (rule max_index_bound)
    from True new have "set_insert eb v [] s = (Inr True, [], inserted v s)"
      by (simp add: set_insert_run [OF wf])
    then show ?thesis
      by (rule runs_Inr) (use ok [of "inserted v s"] new in
        \<open>simp add: inserted_wf [OF wf n new] inserted_elems [OF wf n]\<close>)
  next
    case False
    then obtain e t where "set_insert eb v [] s = (Inl e, [], t)"
      using set_insert_full [OF wf _ new] by (metis not_less)
    then show ?thesis using False full new by (auto intro: runs_Inl)
  qed
qed

lemma runs_set_remove [pc_runs]:
  assumes wf: "set_wf s"
    and ok: "\<And>t. set_wf t \<Longrightarrow> v \<in> set (set_elems s) \<Longrightarrow>
      set (set_elems t) = set (set_elems s) - {v} \<Longrightarrow> Q True t"
    and absent: "v \<notin> set (set_elems s) \<Longrightarrow> Q False s"
  shows "runs (set_remove v) Q E s"
proof (cases "v \<in> set (set_elems s)")
  case True
  then obtain i where i: "i < unat (vec_len s)" and v: "v = vec_cells s i" by (auto simp: in_set_elems)
  have run: "set_remove v [] s = (Inr True, [], removed i s)" unfolding v by (rule set_remove_run [OF wf i])
  moreover have "set_remove_state v s = removed i s"
    by (simp add: set_remove_state_def pc_state_def run)
  ultimately show ?thesis using ok set_remove_elems [OF wf, of v] True by (auto intro: runs_Inr)
next
  case False
  then show ?thesis using set_remove_absent [OF wf] absent by (auto intro: runs_Inr)
qed

lemma set_ops_plain [pc_plain]:
  "plain set_read" "plain (set_contains v)" "plain set_is_empty" "plain (set_insert eb v)"
  "plain (set_remove w)" "plain (set_delete eb)" "plain (set_write vs)"
  unfolding set_read_def set_contains_def set_is_empty_def set_insert_def set_remove_def set_delete_def
    set_write_def vec_delete_def vec_push_def clear_elements_def load_checked_len_def
    checked_position_def clear_position_def write_element_def slot_clear_def access_defs Let_def
  by (intro pc_plain)+

section \<open>The check of a transaction\<close>

definition scopes_wf :: "AccountKeychain \<Rightarrow> bool" where
  "scopes_wf s \<longleftrightarrow> (\<forall>kh. scope_wf (key_scopes s kh))"

lemma on_targets_run: "set_wf (targets (key_scopes s kh)) \<Longrightarrow>
    on_targets kh (set_contains v) [] s = (Inr (v \<in> set (set_elems (targets (key_scopes s kh)))), [], s)"
  by (simp add: on_targets_def pc_zoom_def set_contains_elems)

lemma on_selectors_run:
  assumes "set_wf (selectors (target_scopes (key_scopes s kh) tgt))"
  shows "on_selectors kh tgt set_is_empty [] s =
      (Inr (set_elems (selectors (target_scopes (key_scopes s kh) tgt)) = []), [], s)"
    "on_selectors kh tgt (set_contains sel) [] s =
      (Inr (sel \<in> set (set_elems (selectors (target_scopes (key_scopes s kh) tgt)))), [], s)"
  using assms by (simp_all add: on_selectors_def pc_zoom_def set_contains_elems set_is_empty_elems)

lemma on_recipients_run:
  assumes "set_wf (recipients (selector_scopes (target_scopes (key_scopes s kh) tgt) sel))"
  shows "on_recipients kh tgt sel set_is_empty [] s =
      (Inr (set_elems (recipients (selector_scopes (target_scopes (key_scopes s kh) tgt) sel)) = []), [], s)"
    "on_recipients kh tgt sel (set_contains v) [] s =
      (Inr (v \<in> set (set_elems (recipients (selector_scopes (target_scopes (key_scopes s kh) tgt) sel)))), [], s)"
  using assms by (simp_all add: on_recipients_def pc_zoom_def set_contains_elems set_is_empty_elems)

lemma rules_view_simps:
  "rules_view ts = [] \<longleftrightarrow> set_elems (selectors ts) = []"
  "(\<exists>r \<in> set (rules_view ts). rule_selector r = sel \<and> P (rule_recipients r)) \<longleftrightarrow>
     sel \<in> set (set_elems (selectors ts)) \<and> P (set_elems (recipients (selector_scopes ts sel)))"
  by (auto simp: rules_view_def)

lemma rules_permit_view:
  "rules_permit (rules_view ts) input \<longleftrightarrow> set_elems (selectors ts) = [] \<or> \<not> length input < 4
     \<and> input_selector input \<in> set (set_elems (selectors ts))
     \<and> recipient_ok (set_elems (recipients (selector_scopes ts (input_selector input)))) input"
  unfolding rules_permit_def not_less by (auto simp: rules_view_def)

lemma recipient_ok_cases:
  "recipient_ok rs input \<longleftrightarrow> rs = [] \<or> \<not> length input < 36
     \<and> \<not> (\<exists>b \<in> set (take 12 (recipient_word input)). b \<noteq> 0)
     \<and> be_word (drop 12 (recipient_word input)) \<in> set rs"
  by (auto simp: recipient_ok_def)

lemma call_permitted_view:
  "call_permitted (scope_view ks) tgt input \<longleftrightarrow>
     \<not> is_scoped ks \<or> tgt \<in> set (set_elems (targets ks)) \<and> rules_permit (rules_view (target_scopes ks tgt)) input"
  by (auto simp: call_permitted_def scope_view_def scopes_view_def)

lemma validate_call_scope_for_transaction_run:
  assumes wf: "scope_wf (key_scopes s (spending_limit_key h a k))" and k: "k \<noteq> 0" and t3: "is_t3 (spec h)"
  shows "validate_call_scope_for_transaction h a k (Call tgt) input [] s =
    (if call_permitted (scope_view (key_scopes s (spending_limit_key h a k))) tgt input then Inr ()
     else Inl (AccountKeychainError CallNotAllowed), [], s)"
proof -
  define kh where "kh = spending_limit_key h a k"
  let ?ks = "key_scopes s kh"
  let ?ts = "target_scopes ?ks tgt"
  have sets: "set_wf (targets ?ks)" "set_wf (selectors ?ts)"
      "set_wf (recipients (selector_scopes ?ts sel))" for sel
    using wf by (simp_all add: kh_def [symmetric] scope_wf_def target_wf_def)
  show ?thesis
    using k t3 unfolding validate_call_scope_for_transaction_def kh_def [symmetric] call_permitted_view
    by (simp add: Let_def is_scoped_read_def pc_bind_Inr on_targets_run on_selectors_run
        on_recipients_run sets rules_permit_view recipient_ok_cases)
qed

section \<open>Validation of rules\<close>

definition valid_rules :: "SelectorRule list \<Rightarrow> bool" where
  "valid_rules rules \<longleftrightarrow> distinct (map rule_selector rules)
     \<and> (\<forall>r \<in> set rules. rule_recipients r \<noteq> [] \<longrightarrow> is_constrained_tip20_selector (rule_selector r)
          \<and> distinct (rule_recipients r) \<and> 0 \<notin> set (rule_recipients r))"

definition valid_scope :: "CallScope \<Rightarrow> bool" where
  "valid_scope c \<longleftrightarrow> target c \<noteq> 0 \<and> valid_rules (selectorRules c)"

definition scope_check :: "bool \<Rightarrow> ('s, unit) pc" where
  "scope_check b = (if b then pc_return () else keychain_error InvalidCallScope)"

lemma scope_check_simps:
  "keychain_error InvalidCallScope = scope_check False" "pc_return () = scope_check True"
  "(if c then scope_check a else scope_check b) = scope_check (if c then a else b)"
  "pc_then (scope_check a) (scope_check b) = scope_check (a \<and> b)"
  by (simp_all add: scope_check_def)

lemma validate_recipients_eq:
  "validate_recipients seen rs = scope_check (distinct rs \<and> 0 \<notin> set rs \<and> set rs \<inter> seen = {})"
proof (induction rs arbitrary: seen)
  case (Cons r rs)
  show ?case
    unfolding validate_recipients.simps Cons.IH scope_check_simps
    by (rule arg_cong [of _ _ scope_check]) auto
qed (simp add: scope_check_simps)

lemma validate_selector_rules_eq:
  "validate_selector_rules seen rules =
     scope_check (valid_rules rules \<and> rule_selector ` set rules \<inter> seen = {})"
proof (induction rules arbitrary: seen)
  case (Cons r rules)
  show ?case
    unfolding validate_selector_rules.simps Cons.IH validate_recipients_eq scope_check_simps
    by (rule arg_cong [of _ _ scope_check]) (auto simp: valid_rules_def)
qed (simp add: scope_check_simps valid_rules_def)

lemma validate_call_scope_eq: "validate_call_scope c = scope_check (valid_scope c)"
  unfolding validate_call_scope_def validate_selector_rules_eq scope_check_simps
  by (rule arg_cong [of _ _ scope_check]) (auto simp: valid_scope_def valid_rules_def)

lemma validate_call_scopes_eq:
  "validate_call_scopes h seen cs = scope_check (distinct (map target cs)
     \<and> target ` set cs \<inter> seen = {} \<and> (is_t4 (spec h) \<longrightarrow> (\<forall>c \<in> set cs. valid_scope c)))"
proof (induction cs arbitrary: seen)
  case (Cons c cs)
  show ?case
    unfolding validate_call_scopes.simps Cons.IH validate_call_scope_eq scope_check_simps
    by (rule arg_cong [of _ _ scope_check]) auto
qed (simp add: scope_check_simps)

lemma runs_scope_check [pc_runs]:
  "(b \<Longrightarrow> Q () s) \<Longrightarrow> (\<not> b \<Longrightarrow> E (AccountKeychainError InvalidCallScope) s) \<Longrightarrow>
   runs (scope_check b) Q E s"
  by (simp add: scope_check_def runs_def)

section \<open>Updates of the tree\<close>

lemma scope_put_simps [simp]:
  "key_scopes (scope_put kh ks s) kh' = (if kh' = kh then ks else key_scopes s kh')"
  "scope_put kh ks' (scope_put kh ks s) = scope_put kh ks' s"
  by (simp_all add: scope_put_def)

lemma target_put_simps [simp]:
  "target_scopes (target_put t ts ks) t' = (if t' = t then ts else target_scopes ks t')"
  "target_put t ts' (target_put t ts ks) = target_put t ts' ks"
  "targets (target_put t ts ks) = targets ks" "is_scoped (target_put t ts ks) = is_scoped ks"
  by (simp_all add: target_put_def)

lemma recipients_put_simps [simp]:
  "selectors (recipients_put sel r ts) = selectors ts"
  "selector_scopes (recipients_put sel r ts) sel' =
     (if sel' = sel then \<lparr>recipients = r\<rparr> else selector_scopes ts sel')"
  by (simp_all add: recipients_put_def)

lemma pc_each_fails:
  fixes f :: "'x \<Rightarrow> ('s, unit) pc" and z :: 'x
  assumes ends: "\<And>y t. runs (f y) (\<lambda>_ _. True) (\<lambda>_ _. True) t" and mem: "z \<in> set xs"
    and fails: "\<And>t. runs (f z) (\<lambda>_ _. False) (\<lambda>_ _. True) t"
  shows "runs (pc_each f xs) (\<lambda>_ _. False) (\<lambda>_ _. True) s"
  using mem
proof (induction xs arbitrary: s)
  case (Cons y ys)
  show ?case
  proof (cases "y = z")
    case True
    then show ?thesis by (auto intro!: runs_then intro: runs_mono [OF fails])
  next
    case False
    with Cons have "runs (pc_each f ys) (\<lambda>_ _. False) (\<lambda>_ _. True) t" for t by simp
    then show ?thesis by (auto intro!: runs_then intro: runs_mono [OF ends])
  qed
qed simp

lemma set_write_too_long:
  assumes wf: "set_wf s" and long: "0x100000000 \<le> length vs"
  shows "runs (set_write vs) (\<lambda>_ _. False) (\<lambda>_ _. True) s"
proof -
  have ends: "runs (write_element iv) (\<lambda>_ _. True) (\<lambda>_ _. True) t" for iv and t :: "'a set_handler"
    unfolding write_element_def checked_position_def access_defs by (intro pc_runs TrueI)
  have "(0xFFFFFFFF, vs ! 0xFFFFFFFF) \<in> set (enumerate 0 vs)"
    using long by (simp add: in_set_enumerate_eq)
  then have fails: "runs (pc_each write_element (enumerate 0 vs)) (\<lambda>_ _. False) (\<lambda>_ _. True) t" for t
    by (rule pc_each_fails [OF ends]) (simp add: write_element_def checked_position_def runs_def)
  have "load_checked_len [] s = (Inr (unat (vec_len s)), [], s)"
    using set_wf_len [OF wf] by (rule load_checked_len_run)
  then show ?thesis
    unfolding set_write_def Let_def using clear_positions_wf [OF wf] fails
    by (auto intro!: runs_bind runs_then intro: runs_Inr runs_mono [OF fails])
qed

lemma runs_set_write_any:
  assumes "set_wf s" "distinct vs" "0x100000000 \<le> length vs \<Longrightarrow> \<forall>e t. E e t"
    and "\<And>t. set_wf t \<Longrightarrow> set_elems t = vs \<Longrightarrow> Q () t"
  shows "runs (set_write vs) Q E s"
proof (cases "length vs < 0x100000000")
  case True
  with assms show ?thesis by (intro runs_set_write)
next
  case False
  then have "0x100000000 \<le> length vs" by simp
  from runs_mono [OF set_write_too_long [OF assms(1) this]] assms(3) [OF this] show ?thesis by blast
qed

lemma runs_clear_target_selectors:
  assumes wf: "target_wf (target_scopes (key_scopes s kh) tgt)"
    and q: "Q () (scope_put kh (target_put tgt default_target_scope (key_scopes s kh)) s)"
  shows "runs (clear_target_selectors kh tgt) Q E s"
proof -
  define ks where "ks = key_scopes s kh"
  define ts where "ts = target_scopes ks tgt"
  define wipe where "wipe ds = ts\<lparr>selector_scopes :=
    (\<lambda>sel. if sel \<in> set ds then default_selector_scope else selector_scopes ts sel)\<rparr>" for ds
  define I where "I ds t \<longleftrightarrow> t = scope_put kh (target_put tgt (wipe ds) ks) s" for ds t
  have sets: "set_wf (selectors ts)" "set_wf (recipients (selector_scopes (wipe ds) sel))" for ds sel
    using wf by (auto simp: ts_def ks_def target_wf_def wipe_def default_selector_scope_def)
  have wiped: "recipients_put sel empty_set_handler (wipe ds) = wipe (ds @ [sel])" for sel ds
    by (auto simp: recipients_put_def wipe_def default_selector_scope_def fun_eq_iff)
  have each: "runs (pc_each (\<lambda>sel. on_recipients kh tgt sel (set_delete address_size)) sels)
      (\<lambda>_. I sels) E s" for sels
  proof (rule runs_each)
    show "I [] s" by (simp add: I_def wipe_def ts_def ks_def)
    show "runs (on_recipients kh tgt x (set_delete address_size)) (\<lambda>_. I (ds @ [x])) E t"
      if "I ds t" for ds x t
      using that unfolding on_recipients_def
      by (intro runs_zoom runs_set_delete) (simp_all add: I_def sets wiped)
  qed
  have last: "(wipe (set_elems (selectors ts)))\<lparr>selectors := empty_set_handler\<rparr> = default_target_scope"
    using wf by (auto simp: wipe_def target_wf_def ts_def ks_def default_target_scope_def fun_eq_iff)
  have "runs (on_selectors kh tgt (set_delete selector_size)) Q E t"
    if "I (set_elems (selectors ts)) t" for t
    using that q last unfolding on_selectors_def
    by (intro runs_zoom runs_set_delete) (simp_all add: I_def sets wipe_def ks_def)
  then have rest: "runs (pc_then (pc_each (\<lambda>sel. on_recipients kh tgt sel (set_delete address_size))
      (set_elems (selectors ts))) (on_selectors kh tgt (set_delete selector_size))) Q E s"
    by (intro runs_then runs_mono [OF each])
  have "on_selectors kh tgt set_read [] s = (Inr (set_elems (selectors ts)), [], s)"
    using sets(1) by (simp add: on_selectors_def pc_zoom_def set_read_elems ts_def ks_def)
  then show ?thesis
    unfolding clear_target_selectors_def by (intro runs_bind) (rule runs_Inr, simp, rule rest)
qed

text \<open>Clearing below one target keeps the tree well formed once the target is gone or is wanted
  without rules.\<close>

lemma scope_wf_put:
  assumes "scope_wf ks" "set_wf ts'" "target_wf new"
    and "\<And>t. t \<notin> set (set_elems ts') \<Longrightarrow> t = tgt \<and> new = default_target_scope \<or> t \<notin> set (set_elems (targets ks)) \<and> t \<noteq> tgt"
  shows "scope_wf (target_put tgt new (ks\<lparr>targets := ts'\<rparr>))"
  using assms by (auto simp: scope_wf_def)

lemma runs_remove_target_scope:
  assumes wf: "scope_wf (key_scopes s kh)"
    and q: "\<And>ks'. scope_wf ks' \<Longrightarrow> is_scoped ks' = is_scoped (key_scopes s kh) \<Longrightarrow>
      set (scopes_view ks') = {c \<in> set (scopes_view (key_scopes s kh)). target c \<noteq> tgt} \<Longrightarrow>
      Q () (scope_put kh ks' s)"
  shows "runs (remove_target_scope kh tgt) Q E s"
proof -
  let ?ks = "key_scopes s kh"
  have tw: "set_wf (targets ?ks)" and sw: "target_wf (target_scopes ?ks t)" for t
    using wf by (simp_all add: scope_wf_def)
  show ?thesis
    unfolding remove_target_scope_def on_targets_def
  proof (intro runs_bind runs_zoom runs_set_remove [OF tw] runs_if runs_return runs_clear_target_selectors)
    assume absent: "tgt \<notin> set (set_elems (targets ?ks))"
    have "{c \<in> set (scopes_view ?ks). target c \<noteq> tgt} = set (scopes_view ?ks)"
      using absent by (auto simp: scopes_view_def)
    then show "Q () (scope_put kh (?ks\<lparr>targets := targets ?ks\<rparr>) s)"
      using q [of ?ks] wf by simp
  next
    fix ts'
    assume ts': "set_wf ts'" "set (set_elems ts') = set (set_elems (targets ?ks)) - {tgt}"
    let ?ks' = "target_put tgt default_target_scope (?ks\<lparr>targets := ts'\<rparr>)"
    have "scope_wf ?ks'" using wf ts' by (intro scope_wf_put) auto
    moreover have "set (scopes_view ?ks') = (\<lambda>t. \<lparr>target = t, selectorRules = rules_view
        (target_scopes ?ks t)\<rparr>) ` (set (set_elems (targets ?ks)) - {tgt})"
      unfolding scopes_view_def set_map by (rule image_cong) (simp_all add: ts'(2))
    then have "set (scopes_view ?ks') = {c \<in> set (scopes_view ?ks). target c \<noteq> tgt}"
      by (auto simp: scopes_view_def)
    ultimately show "Q () (scope_put kh (target_put tgt default_target_scope
        (key_scopes (scope_put kh (?ks\<lparr>targets := ts'\<rparr>) s) kh)) (scope_put kh (?ks\<lparr>targets := ts'\<rparr>) s))"
      using q [of ?ks'] by simp
  qed (use sw in simp_all)
qed

lemma runs_clear_all_target_scopes:
  assumes wf: "scope_wf (key_scopes s kh)"
    and q: "Q () (scope_put kh (default_key_scope\<lparr>is_scoped := is_scoped (key_scopes s kh)\<rparr>) s)"
  shows "runs (clear_all_target_scopes kh) Q E s"
proof -
  define ks where "ks = key_scopes s kh"
  define wipe where "wipe ds = ks\<lparr>target_scopes :=
    (\<lambda>t. if t \<in> set ds then default_target_scope else target_scopes ks t)\<rparr>" for ds
  define I where "I ds t \<longleftrightarrow> t = scope_put kh (wipe ds) s" for ds t
  have tw: "set_wf (targets ks)" and sw: "target_wf (target_scopes (wipe ds) t)" for ds t
    using wf by (auto simp: ks_def scope_wf_def wipe_def)
  have wiped: "target_put t default_target_scope (wipe ds) = wipe (ds @ [t])" for t ds
    by (auto simp: target_put_def wipe_def fun_eq_iff)
  have each: "runs (pc_each (clear_target_selectors kh) tgts) (\<lambda>_. I tgts) E s" for tgts
  proof (rule runs_each)
    show "I [] s" by (simp add: I_def wipe_def ks_def)
    show "runs (clear_target_selectors kh x) (\<lambda>_. I (ds @ [x])) E t" if "I ds t" for ds x t
      using that by (intro runs_clear_target_selectors) (simp_all add: I_def sw wiped)
  qed
  have last: "(wipe (set_elems (targets ks)))\<lparr>targets := empty_set_handler\<rparr> =
      default_key_scope\<lparr>is_scoped := is_scoped ks\<rparr>"
    using wf by (auto simp: wipe_def scope_wf_def ks_def default_key_scope_def fun_eq_iff)
  have "runs (on_targets kh (set_delete address_size)) Q E t" if "I (set_elems (targets ks)) t" for t
    using that q last tw unfolding on_targets_def
    by (intro runs_zoom runs_set_delete) (simp_all add: I_def wipe_def ks_def)
  then have rest: "runs (pc_then (pc_each (clear_target_selectors kh) (set_elems (targets ks)))
      (on_targets kh (set_delete address_size))) Q E s"
    by (intro runs_then runs_mono [OF each])
  have "on_targets kh set_read [] s = (Inr (set_elems (targets ks)), [], s)"
    using tw by (simp add: on_targets_def pc_zoom_def set_read_elems ks_def)
  then show ?thesis
    unfolding clear_all_target_scopes_def by (intro runs_bind) (rule runs_Inr, simp, rule rest)
qed

section \<open>Insertion of rules\<close>

text \<open>How large the lists of an update may be: the capacities of the storage sets.\<close>

definition rules_fit :: "SelectorRule list \<Rightarrow> bool" where
  "rules_fit rules \<longleftrightarrow> length rules \<le> max_index selector_size
     \<and> (\<forall>r \<in> set rules. length (rule_recipients r) < 0x100000000)"

definition scopes_fit :: "nat \<Rightarrow> CallScope list \<Rightarrow> bool" where
  "scopes_fit n cs \<longleftrightarrow> n + length cs \<le> max_index address_size \<and> (\<forall>c \<in> set cs. rules_fit (selectorRules c))"

lemma scopes_fit_Cons:
  "scopes_fit n (c # cs) \<Longrightarrow> rules_fit (selectorRules c) \<and> n < max_index address_size \<and> scopes_fit (Suc n) cs"
  by (auto simp: scopes_fit_def)

lemma scopes_fit_mono: "scopes_fit n cs \<Longrightarrow> m \<le> n \<Longrightarrow> scopes_fit m cs"
  by (auto simp: scopes_fit_def)

lemma rules_view_length [simp]: "length (rules_view ts) = length (set_elems (selectors ts))"
  by (simp add: rules_view_def)

lemma rules_view_selectors: "map rule_selector (rules_view ts) = set_elems (selectors ts)"
  by (simp add: rules_view_def comp_def)

text \<open>One rule goes to the end of the view.\<close>

lemma rules_view_append:
  assumes wf: "target_wf ts" and new: "sel \<notin> set (set_elems (selectors ts))"
    and S: "set_wf S" "set_elems S = set_elems (selectors ts) @ [sel]"
    and R: "set_wf R" "set_elems R = rs"
  shows "target_wf (recipients_put sel R (ts\<lparr>selectors := S\<rparr>))"
    "rules_view (recipients_put sel R (ts\<lparr>selectors := S\<rparr>)) =
       rules_view ts @ [\<lparr>rule_selector = sel, rule_recipients = rs\<rparr>]"
proof -
  show "target_wf (recipients_put sel R (ts\<lparr>selectors := S\<rparr>))"
    using wf S R by (auto simp: target_wf_def)
  have "x \<noteq> sel" if "x \<in> set (set_elems (selectors ts))" for x using new that by auto
  then show "rules_view (recipients_put sel R (ts\<lparr>selectors := S\<rparr>)) =
       rules_view ts @ [\<lparr>rule_selector = sel, rule_recipients = rs\<rparr>]"
    by (simp add: rules_view_def S(2) R(2))
qed

lemma runs_upsert_rule:
  assumes wf: "target_wf ts" and ts: "ts = target_scopes (key_scopes s kh) tgt"
    and new: "rule_selector r \<notin> set (map rule_selector (rules_view ts))"
    and d: "distinct (rule_recipients r)"
    and fit: "max_index selector_size \<le> length (rules_view ts) \<or> 0x100000000 \<le> length (rule_recipients r) \<Longrightarrow>
      \<forall>e t. E e t"
    and q: "\<And>ts'. target_wf ts' \<Longrightarrow> rules_view ts' = rules_view ts @ [r] \<Longrightarrow>
      Q () (scope_put kh (target_put tgt ts' (key_scopes s kh)) s)"
  shows "runs (upsert_rule h kh tgt r) Q E s"
proof -
  let ?sel = "rule_selector r" and ?rs = "rule_recipients r"
  have r: "\<lparr>rule_selector = ?sel, rule_recipients = ?rs\<rparr> = r" by (cases r) simp
  have new': "?sel \<notin> set (set_elems (selectors ts))" using new unfolding rules_view_selectors .
  then have dflt: "recipients (selector_scopes ts ?sel) = empty_set_handler"
    using wf by (simp add: target_wf_def default_selector_scope_def)
  have sw: "set_wf (selectors ts)" using wf by (simp add: target_wf_def)
  have step: "Q () (scope_put kh (target_put tgt (recipients_put ?sel R (ts\<lparr>selectors := S\<rparr>)) (key_scopes s kh)) s)"
    if "set_wf S" "set_elems S = set_elems (selectors ts) @ [?sel]" "set_wf R" "set_elems R = ?rs" for S R
    using rules_view_append [OF wf new' that(1,2,3,4)] q by (simp add: r)
  have same: "recipients_put ?sel empty_set_handler (ts\<lparr>selectors := S\<rparr>) = ts\<lparr>selectors := S\<rparr>" for S
    using recipients_put_id [of ?sel "ts\<lparr>selectors := S\<rparr>"] by (simp add: dflt)
  show ?thesis
    unfolding upsert_rule_def on_selectors_def on_recipients_def
    using sw fit new' d step step [where R = empty_set_handler]
    by (intro runs_then runs_zoom runs_set_insert runs_if runs_return runs_set_delete runs_set_write_any)
      (auto simp: ts [symmetric] dflt same)
qed

definition upsert_scope :: "CallScope \<Rightarrow> CallScope list \<Rightarrow> CallScope list" where
  "upsert_scope c cs = (if target c \<in> target ` set cs
     then map (\<lambda>d. if target d = target c then c else d) cs else cs @ [c])"

lemma scopes_view_targets: "map target (scopes_view ks) = set_elems (targets ks)"
  by (simp add: scopes_view_def comp_def)

lemma scopes_view_length [simp]: "length (scopes_view ks) = length (set_elems (targets ks))"
  by (simp add: scopes_view_def)

lemma scopes_view_upsert:
  assumes T: "set_elems T = (if target c \<in> set (set_elems (targets ks)) then set_elems (targets ks)
      else set_elems (targets ks) @ [target c])"
    and rules: "rules_view ts = selectorRules c"
  shows "scopes_view (target_put (target c) ts (ks\<lparr>targets := T\<rparr>)) = upsert_scope c (scopes_view ks)"
proof -
  have c: "\<lparr>target = target c, selectorRules = selectorRules c\<rparr> = c" by (cases c) simp
  have "target ` set (scopes_view ks) = set (set_elems (targets ks))"
    by (metis scopes_view_targets set_map)
  then show ?thesis
    using T by (auto simp: upsert_scope_def) (auto simp: scopes_view_def rules c)
qed

lemma runs_upsert_rules:
  assumes wf: "target_wf (target_scopes (key_scopes s kh) tgt)"
    and empty: "rules_view (target_scopes (key_scopes s kh) tgt) = []"
    and d: "distinct (map rule_selector rules)" "\<forall>r \<in> set rules. distinct (rule_recipients r)"
    and fit: "\<not> rules_fit rules \<Longrightarrow> \<forall>e t. E e t"
    and q: "\<And>ts'. target_wf ts' \<Longrightarrow> rules_view ts' = rules \<Longrightarrow>
      Q () (scope_put kh (target_put tgt ts' (key_scopes s kh)) s)"
  shows "runs (pc_each (upsert_rule h kh tgt) rules) Q E s"
proof -
  let ?ks = "key_scopes s kh"
  define I where "I ds t \<longleftrightarrow> (\<exists>ts'. target_wf ts' \<and> rules_view ts' = ds
    \<and> t = scope_put kh (target_put tgt ts' ?ks) s)" for ds t
  have "runs (pc_each (upsert_rule h kh tgt) rules) (\<lambda>_. I rules) E s"
  proof (rule runs_each)
    show "I [] s" unfolding I_def using wf empty by (intro exI [of _ "target_scopes ?ks tgt"]) simp
    fix ds r t
    assume r: "r \<in> set rules" and I: "I ds t" and pos: "\<exists>rest. rules = ds @ r # rest"
    obtain ts where ts: "target_wf ts" "rules_view ts = ds" and t: "t = scope_put kh (target_put tgt ts ?ks) s"
      using I by (auto simp: I_def)
    have len: "length ds < length rules" using pos by auto
    show "runs (upsert_rule h kh tgt r) (\<lambda>_. I (ds @ [r])) E t"
    proof (rule runs_upsert_rule [OF ts(1)])
      show "ts = target_scopes (key_scopes t kh) tgt" by (simp add: t)
      show "rule_selector r \<notin> set (map rule_selector (rules_view ts))" using d(1) pos by (auto simp: ts(2))
      show "distinct (rule_recipients r)" using d(2) r by simp
      show "\<forall>e t. E e t" if "max_index selector_size \<le> length (rules_view ts) \<or> 0x100000000 \<le> length (rule_recipients r)"
        using that len r unfolding ts(2) by (intro fit) (force simp: rules_fit_def not_less)
    qed (auto simp: I_def t ts(2))
  qed
  then show ?thesis by (rule runs_mono) (auto simp: I_def q)
qed

lemma runs_upsert_target_scope:
  assumes wf: "scope_wf (key_scopes s kh)"
    and valid: "is_t4 (spec h) \<Longrightarrow> valid_scope c" "\<not> valid_scope c \<Longrightarrow> E (AccountKeychainError InvalidCallScope) s"
    and fit: "\<not> scopes_fit (length (scopes_view (key_scopes s kh))) [c] \<Longrightarrow> \<forall>e t. E e t"
    and q: "\<And>ks'. scope_wf ks' \<Longrightarrow> is_scoped ks' = is_scoped (key_scopes s kh) \<Longrightarrow>
      scopes_view ks' = upsert_scope c (scopes_view (key_scopes s kh)) \<Longrightarrow> Q () (scope_put kh ks' s)"
  shows "runs (upsert_target_scope h kh c) Q E s"
proof -
  let ?ks = "key_scopes s kh" and ?tgt = "target c"
  have tw: "set_wf (targets ?ks)" and sw: "target_wf (target_scopes ?ks t)" for t
    using wf by (simp_all add: scope_wf_def)
  have put: "Q () (scope_put kh (target_put ?tgt ts (?ks\<lparr>targets := T\<rparr>)) s)"
    if "set_wf T" "set_elems T = (if ?tgt \<in> set (set_elems (targets ?ks)) then set_elems (targets ?ks)
      else set_elems (targets ?ks) @ [?tgt])" "target_wf ts" "rules_view ts = selectorRules c" for T ts
    using that wf by (intro q scope_wf_put scopes_view_upsert) (auto split: if_splits)
  have rest: "runs (pc_then (clear_target_selectors kh ?tgt)
       (if selectorRules c = [] then pc_return ()
        else pc_each (upsert_rule h kh ?tgt) (selectorRules c))) Q E (scope_put kh (?ks\<lparr>targets := T\<rparr>) s)"
    if ok: "valid_scope c" and T: "set_wf T" "set_elems T = (if ?tgt \<in> set (set_elems (targets ?ks))
      then set_elems (targets ?ks) else set_elems (targets ?ks) @ [?tgt])" for T
    using ok fit
    by (intro runs_then runs_clear_target_selectors runs_if runs_return runs_upsert_rules)
      (auto simp: sw valid_scope_def valid_rules_def scopes_fit_def intro!: put [OF T])
  show ?thesis
    unfolding upsert_target_scope_def validate_call_scope_eq scope_check_simps on_targets_def
    using fit valid
    by (intro runs_then runs_scope_check runs_zoom runs_set_insert [OF tw] rest [unfolded scope_check_simps])
      (auto simp: scopes_fit_def split: if_splits)
qed

section \<open>Whole updates\<close>

lemma upsert_scope_length: "length (upsert_scope c cs) \<le> Suc (length cs)"
  by (simp add: upsert_scope_def)

lemma fold_upsert_length: "length (fold upsert_scope ds cs) \<le> length cs + length ds"
proof (induction ds arbitrary: cs)
  case (Cons d ds)
  from Cons [of "upsert_scope d cs"] upsert_scope_length [of d cs] show ?case by simp
qed simp

lemma fold_upsert_fresh:
  "distinct (map target ds) \<Longrightarrow> target ` set ds \<inter> target ` set cs = {} \<Longrightarrow> fold upsert_scope ds cs = cs @ ds"
  by (induction ds arbitrary: cs) (auto simp: upsert_scope_def)

lemma runs_upsert_all:
  assumes wf: "scope_wf (key_scopes s kh)"
    and valid: "is_t4 (spec h) \<Longrightarrow> \<forall>c \<in> set cs. valid_scope c"
      "\<not> (\<forall>c \<in> set cs. valid_scope c) \<Longrightarrow> \<forall>t. E (AccountKeychainError InvalidCallScope) t"
    and fit: "\<not> scopes_fit (length (scopes_view (key_scopes s kh))) cs \<Longrightarrow> \<forall>e t. E e t"
    and q: "\<And>ks'. scope_wf ks' \<Longrightarrow> is_scoped ks' = is_scoped (key_scopes s kh) \<Longrightarrow>
      scopes_view ks' = fold upsert_scope cs (scopes_view (key_scopes s kh)) \<Longrightarrow> Q () (scope_put kh ks' s)"
  shows "runs (pc_each (upsert_target_scope h kh) cs) Q E s"
proof -
  let ?ks = "key_scopes s kh"
  define I where "I ds t \<longleftrightarrow> (\<exists>ks'. scope_wf ks' \<and> is_scoped ks' = is_scoped ?ks
    \<and> scopes_view ks' = fold upsert_scope ds (scopes_view ?ks) \<and> t = scope_put kh ks' s)" for ds t
  have "runs (pc_each (upsert_target_scope h kh) cs) (\<lambda>_. I cs) E s"
  proof (rule runs_each)
    show "I [] s" unfolding I_def using wf by (intro exI [of _ ?ks]) simp
    fix ds c t
    assume c: "c \<in> set cs" and I: "I ds t" and pos: "\<exists>rest. cs = ds @ c # rest"
    obtain ks where ks: "scope_wf ks" "is_scoped ks = is_scoped ?ks"
        "scopes_view ks = fold upsert_scope ds (scopes_view ?ks)" and t: "t = scope_put kh ks s"
      using I by (auto simp: I_def)
    have "length (scopes_view ks) + 1 \<le> length (scopes_view ?ks) + length cs"
      using fold_upsert_length [of ds "scopes_view ?ks"] pos ks(3) by auto
    then have "scopes_fit (length (scopes_view ?ks)) cs \<Longrightarrow> scopes_fit (length (scopes_view ks)) [c]"
      using c by (auto simp: scopes_fit_def)
    then show "runs (upsert_target_scope h kh c) (\<lambda>_. I (ds @ [c])) E t"
      using ks valid c fit by (intro runs_upsert_target_scope) (auto simp: I_def t)
  qed
  then show ?thesis by (rule runs_mono) (auto simp: I_def q)
qed

definition key_active :: "u64 \<Rightarrow> AuthorizedKey \<Rightarrow> bool" where
  "key_active ts k \<longleftrightarrow> \<not> is_revoked k \<and> expiry k \<noteq> 0 \<and> ts < expiry k"

definition inactive_error :: "u64 \<Rightarrow> AuthorizedKey \<Rightarrow> AccountKeychainErr" where
  "inactive_error ts k =
     (if is_revoked k then KeyAlreadyRevoked else if expiry k = 0 then KeyNotFound else KeyExpired)"

lemma load_active_key_run [pc_run]:
  "load_active_key a k ts [] s = (if key_active ts (keys s a k) then Inr (keys s a k)
     else Inl (AccountKeychainError (inactive_error ts (keys s a k))), [], s)"
  by (auto simp: load_active_key_def key_read_def key_active_def inactive_error_def)

lemma runs_is_scoped_write [pc_runs]:
  "Q () (scope_put kh ((key_scopes s kh)\<lparr>is_scoped := b\<rparr>) s) \<Longrightarrow> runs (is_scoped_write kh b) Q E s"
  by (simp add: is_scoped_write_def runs_write)

lemma scope_wf_mode [simp]:
  "scope_wf (ks\<lparr>is_scoped := b\<rparr>) = scope_wf ks" "scopes_view (ks\<lparr>is_scoped := b\<rparr>) = scopes_view ks"
  by (simp_all add: scope_wf_def scopes_view_def)

lemma t4_t3: "is_t4 f \<Longrightarrow> is_t3 f"
  by (cases f) (simp_all add: fork_defs)

text \<open>A root that lists valid rules for an active key gets exactly their update of the view.\<close>

lemma set_allowed_calls_effect:
  assumes t4: "is_t4 (spec h)" and wf: "scope_wf (key_scopes s (spending_limit_key h a k))"
    and adm: "admin_ok h a s" and act: "key_active (now h) (keys s a k)"
    and cs: "cs \<noteq> []" "distinct (map target cs)" "\<forall>c \<in> set cs. valid_scope c"
    and fit: "scopes_fit (length (scopes_view (key_scopes s (spending_limit_key h a k)))) cs"
  obtains ks' where "set_allowed_calls h a k cs [] s = (Inr (), [], scope_put (spending_limit_key h a k) ks' s)"
    "scope_wf ks'"
    "scope_view ks' = (True, fold upsert_scope cs (scopes_view (key_scopes s (spending_limit_key h a k))))"
proof -
  let ?kh = "spending_limit_key h a k"
  let ?Q = "\<lambda>_ t. \<exists>ks'. t = scope_put ?kh ks' s \<and> scope_wf ks'
    \<and> scope_view ks' = (True, fold upsert_scope cs (scopes_view (key_scopes s ?kh)))"
  have "runs (pc_then (pc_each (upsert_target_scope h ?kh) cs) (is_scoped_write ?kh True)) ?Q (\<lambda>_ _. False) s"
    using cs fit
    by (intro runs_then runs_upsert_all [OF wf]) (auto intro!: runs_is_scoped_write simp: scope_view_def)
  then obtain t where "pc_then (pc_each (upsert_target_scope h ?kh) cs) (is_scoped_write ?kh True) [] s = (Inr (), [], t)"
      "?Q () t"
    using runs_total by fastforce
  moreover from this(1) have "set_allowed_calls h a k cs [] s = (Inr (), [], t)"
    using t4 adm act cs
    by (simp add: set_allowed_calls_def t4_t3 Let_def validate_call_scopes_eq scope_check_def
        pc_then_Inr ensure_admin_caller_run load_active_key_run)
  ultimately show ?thesis using that by auto
qed

section \<open>Reading the rules back\<close>

lemma read_rule_run:
  "set_wf (recipients (selector_scopes (target_scopes (key_scopes s kh) tgt) sel)) \<Longrightarrow>
   read_rule kh tgt sel [] s = (Inr \<lparr>rule_selector = sel, rule_recipients =
     set_elems (recipients (selector_scopes (target_scopes (key_scopes s kh) tgt) sel))\<rparr>, [], s)"
  by (simp add: read_rule_def on_recipients_def pc_bind_def pc_zoom_def set_read_elems)

lemma read_scope_run:
  assumes "target_wf (target_scopes (key_scopes s kh) tgt)"
  shows "read_scope kh tgt [] s =
    (Inr \<lparr>target = tgt, selectorRules = rules_view (target_scopes (key_scopes s kh) tgt)\<rparr>, [], s)"
proof -
  let ?ts = "target_scopes (key_scopes s kh) tgt"
  have "pc_collect (read_rule kh tgt) (set_elems (selectors ?ts)) [] s = (Inr (rules_view ?ts), [], s)"
    unfolding rules_view_def using assms by (intro pc_collect_run read_rule_run) (simp add: target_wf_def)
  moreover have "on_selectors kh tgt set_read [] s = (Inr (set_elems (selectors ?ts)), [], s)"
    using assms by (simp add: on_selectors_def pc_zoom_def set_read_elems target_wf_def)
  ultimately show ?thesis by (simp add: read_scope_def pc_bind_def rules_view_def)
qed

lemma get_allowed_calls_run:
  assumes wf: "scope_wf (key_scopes s (spending_limit_key h a k))" and k: "k \<noteq> 0"
  shows "get_allowed_calls h a k [] s =
    (Inr (if \<not> key_active (now h) (keys s a k) then (True, [])
      else if is_scoped (key_scopes s (spending_limit_key h a k))
        then scope_view (key_scopes s (spending_limit_key h a k)) else (False, [])), [], s)"
proof -
  define kh where "kh = spending_limit_key h a k"
  let ?ks = "key_scopes s kh"
  have "pc_collect (read_scope kh) (set_elems (targets ?ks)) [] s = (Inr (scopes_view ?ks), [], s)"
    unfolding scopes_view_def using wf
    by (intro pc_collect_run read_scope_run) (simp add: scope_wf_def kh_def)
  moreover have "on_targets kh set_read [] s = (Inr (set_elems (targets ?ks)), [], s)"
    using wf by (simp add: on_targets_def pc_zoom_def set_read_elems scope_wf_def kh_def)
  ultimately show ?thesis
    using k unfolding get_allowed_calls_def kh_def [symmetric]
    by (auto simp: Let_def key_read_def is_scoped_read_def pc_bind_Inr scope_view_def key_active_def not_le)
qed

end
