(* ===== verification/Keychain_Authorize.thy ===== *)
theory Keychain_Authorize
  imports Keychain_Scopes
begin

text \<open>
  Authorization of keys: what a successful \<open>authorizeKey\<close> leaves behind (the key row, the limit
  rows and the call scopes), and the invariant of the scope trees over call frames.
\<close>

section \<open>Replacing the rules of a key\<close>

lemma runs_replace_allowed_calls:
  assumes wf: "scope_wf (key_scopes s kh)"
    and none: "cs = None \<Longrightarrow> Q () (scope_put kh default_key_scope s)"
    and invalid: "\<And>l. cs = Some l \<Longrightarrow> \<not> (distinct (map target l) \<and> (\<forall>c \<in> set l. valid_scope c)) \<Longrightarrow>
      \<forall>t. E (AccountKeychainError InvalidCallScope) t"
    and fit: "\<And>l. cs = Some l \<Longrightarrow> \<not> scopes_fit 0 l \<Longrightarrow> \<forall>e t. E e t"
    and some: "\<And>l ks'. cs = Some l \<Longrightarrow> scope_wf ks' \<Longrightarrow> scope_view ks' = (True, l) \<Longrightarrow> distinct (map target l) \<Longrightarrow>
      (is_t4 (spec h) \<Longrightarrow> \<forall>c \<in> set l. valid_scope c) \<Longrightarrow> Q () (scope_put kh ks' s)"
  shows "runs (replace_allowed_calls h kh cs) Q E s"
proof -
  let ?blank = "\<lambda>b. default_key_scope\<lparr>is_scoped := b\<rparr>"
  have blank: "?blank b\<lparr>is_scoped := b'\<rparr> = ?blank b'" "?blank False = default_key_scope" for b b'
    by (simp_all add: default_key_scope_def)
  have upsert: "runs (pc_each (upsert_target_scope h kh) l) Q E (scope_put kh (?blank True) s)"
    if l: "cs = Some l" "distinct (map target l)" "is_t4 (spec h) \<longrightarrow> (\<forall>c \<in> set l. valid_scope c)" for l
    using l invalid [OF l(1)] fit [OF l(1)]
    by (intro runs_upsert_all)
      (auto simp: fold_upsert_fresh scope_view_def intro!: some [OF l(1)])
  have "runs (case cs of None \<Rightarrow> is_scoped_write kh False
        | Some scopes \<Rightarrow> pc_then (is_scoped_write kh True)
              (if scopes = [] then pc_return ()
               else pc_then (validate_call_scopes h {} scopes)
                      (pc_each (upsert_target_scope h kh) scopes))) Q E (scope_put kh (?blank b) s)" for b
    unfolding validate_call_scopes_eq
    using none some [of "[]" "?blank True"] invalid upsert
    by (intro runs_case_option runs_is_scoped_write runs_then runs_if runs_return runs_scope_check)
      (auto simp: blank scope_view_def)
  then show ?thesis
    unfolding replace_allowed_calls_def
    by (intro runs_then runs_clear_all_target_scopes [OF wf])
qed

section \<open>Limits of a fresh key\<close>

definition limit_row :: "host \<Rightarrow> TokenLimit \<Rightarrow> SpendingLimitState" where
  "limit_row h l = \<lparr>remaining = amount l, max_limit = ucast (amount l), period = limit_period l,
     period_end = (if limit_period l = 0 then 0 else sat_add (now h) (limit_period l))\<rparr>"

definition put_limits :: "host \<Rightarrow> b256 \<Rightarrow> TokenLimit list \<Rightarrow> AccountKeychain \<Rightarrow> AccountKeychain" where
  "put_limits h lk ls s = s\<lparr>spending_limits := (spending_limits s)(lk :=
     fold (\<lambda>l f. f(token l := limit_row h l)) ls (spending_limits s lk))\<rparr>"

lemma limit_write_run [pc_run]: "limit_write lk t v [] s = (Inr (), [],
    s\<lparr>spending_limits := (spending_limits s)(lk := (spending_limits s lk)(t := v))\<rparr>)"
  by (simp add: limit_write_def remaining_write_def limit_update_def)

lemma runs_limit_write [pc_runs]:
  "Q () (s\<lparr>spending_limits := (spending_limits s)(lk := (spending_limits s lk)(t := v))\<rparr>) \<Longrightarrow>
   runs (limit_write lk t v) Q E s"
  by (simp add: runs_def limit_write_run)

lemma u128_max: "(ucast (- 1 :: u128) :: u256) = 0xFFFFFFFFFFFFFFFFFFFFFFFFFFFFFFFF"
  by code_simp

lemma runs_apply_limits:
  assumes t3: "is_t3 (spec h)"
    and small: "\<And>l. l \<in> set ls \<Longrightarrow> 0xFFFFFFFFFFFFFFFFFFFFFFFFFFFFFFFF < amount l \<Longrightarrow>
      \<forall>t. E (AccountKeychainError InvalidSpendingLimit) t"
    and q: "\<forall>l \<in> set ls. amount l \<le> 0xFFFFFFFFFFFFFFFFFFFFFFFFFFFFFFFF \<Longrightarrow> Q () (put_limits h lk ls s)"
  shows "runs (pc_each (apply_limit h lk) ls) Q E s"
proof -
  let ?I = "\<lambda>ds t. t = put_limits h lk ds s \<and> (\<forall>l \<in> set ds. amount l \<le> 0xFFFFFFFFFFFFFFFFFFFFFFFFFFFFFFFF)"
  have "runs (pc_each (apply_limit h lk) ls) (\<lambda>_. ?I ls) E s"
  proof (rule runs_each)
    fix ds l t
    assume l: "l \<in> set ls" and t: "?I ds t"
    show "runs (apply_limit h lk l) (\<lambda>_. ?I (ds @ [l])) E t"
      unfolding apply_limit_def t3_spending_limit_cap_def Let_def u128_max
      using t3 l small
      by (intro runs_if runs_bind runs_throw runs_return runs_limit_write)
        (auto simp: t put_limits_def limit_row_def not_less)
  qed (simp add: put_limits_def)
  then show ?thesis by (rule runs_mono) (use q in simp_all)
qed

section \<open>Authorization\<close>

definition fresh_row :: "SignatureType \<Rightarrow> KeyRestrictions \<Rightarrow> AuthorizedKey" where
  "fresh_row sig config = \<lparr>signature_type = (case sig of P256 \<Rightarrow> 1 | WebAuthn \<Rightarrow> 2 | _ \<Rightarrow> 0),
     expiry = restr_expiry config, enforce_limits = enforceLimits config, is_revoked = False\<rparr>"

text \<open>When \<open>authorizeKey\<close> accepts its arguments from T4 on.\<close>

definition acceptable :: "host \<Rightarrow> address \<Rightarrow> address \<Rightarrow> SignatureType \<Rightarrow> KeyRestrictions \<Rightarrow> b256 option \<Rightarrow>
    AccountKeychain \<Rightarrow> bool" where
  "acceptable h a k sig config w s \<longleftrightarrow> admin_ok h a s \<and> k \<noteq> 0 \<and> now h < restr_expiry config
     \<and> fresh_key (keys s a k) \<and> sig \<noteq> UnknownSignatureType
     \<and> (enforceLimits config \<longrightarrow> distinct (map token (limits config))
          \<and> (\<forall>l \<in> set (limits config). amount l \<le> 0xFFFFFFFFFFFFFFFFFFFFFFFFFFFFFFFF))
     \<and> (\<not> allowAnyCalls config \<longrightarrow> distinct (map target (allowedCalls config))
          \<and> (\<forall>c \<in> set (allowedCalls config). valid_scope c))
     \<and> (\<forall>v. w = Some v \<longrightarrow> \<not> key_authorization_witnesses s a v)"

lemma has_duplicate_token_iff:
  "has_duplicate_token seen ls \<longleftrightarrow> \<not> (distinct (map token ls) \<and> token ` set ls \<inter> seen = {})"
  by (induction ls arbitrary: seen) auto

lemma t4_t0: "is_t4 f \<Longrightarrow> is_t0 f"
  by (cases f) (simp_all add: fork_defs)

definition authorized_rules :: "KeyRestrictions \<Rightarrow> bool \<times> CallScope list" where
  "authorized_rules config = (if allowAnyCalls config then (False, []) else (True, allowedCalls config))"

definition authorized_limits :: "KeyRestrictions \<Rightarrow> TokenLimit list" where
  "authorized_limits config = (if enforceLimits config then limits config else [])"

text \<open>What an accepted authorization leaves.\<close>

definition authorized :: "host \<Rightarrow> address \<Rightarrow> address \<Rightarrow> SignatureType \<Rightarrow> KeyRestrictions \<Rightarrow>
    AccountKeychain \<Rightarrow> AccountKeychain \<Rightarrow> bool" where
  "authorized h a k sig config s t \<longleftrightarrow>
     keys t = (keys s)(a := (keys s a)(k := fresh_row sig config))
     \<and> spending_limits t = spending_limits (put_limits h (spending_limit_key h a k) (authorized_limits config) s)
     \<and> (\<exists>ks'. key_scopes t = (key_scopes s)(spending_limit_key h a k := ks') \<and> scope_wf ks'
          \<and> scope_view ks' = authorized_rules config)
     \<and> key_authorization_witnesses t = key_authorization_witnesses s
     \<and> transaction_key t = transaction_key s \<and> tx_origin t = tx_origin s"

lemma runs_ensure_admin_caller [pc_runs]:
  "(admin_ok h a s \<Longrightarrow> Q () s) \<Longrightarrow>
   (\<not> admin_ok h a s \<Longrightarrow> E (AccountKeychainError UnauthorizedCaller) s) \<Longrightarrow>
   runs (ensure_admin_caller h a) Q E s"
  by (simp add: runs_def ensure_admin_caller_run)

lemma runs_handles [pc_runs]:
  "Q (keys s a k) s \<Longrightarrow> runs (key_read a k) Q E s"
  "Q' () (s\<lparr>keys := (keys s)(a := (keys s a)(k := v))\<rparr>) \<Longrightarrow> runs (key_write a k v) Q' E s"
  "Q' () (s\<lparr>events := events s @ [ev]\<rparr>) \<Longrightarrow> runs (emit_event ev) Q' E s"
  by (simp_all add: runs_def handle_defs)

lemma runs_ensure_not_burned [pc_runs]:
  "(\<not> key_authorization_witnesses s a w \<Longrightarrow> Q () s) \<Longrightarrow>
   (key_authorization_witnesses s a w \<Longrightarrow> E (AccountKeychainError KeyAuthorizationWitnessAlreadyBurned) s) \<Longrightarrow>
   runs (ensure_key_authorization_witness_not_burned a w) Q E s"
  by (simp add: runs_def ensure_key_authorization_witness_not_burned_def witness_read_def)

lemma runs_signature_type_code:
  "(sig \<noteq> UnknownSignatureType \<Longrightarrow> Q (case sig of P256 \<Rightarrow> 1 | WebAuthn \<Rightarrow> 2 | _ \<Rightarrow> 0) s) \<Longrightarrow>
   (sig = UnknownSignatureType \<Longrightarrow> E (AccountKeychainError InvalidSignatureType) s) \<Longrightarrow>
   runs (signature_type_code sig) Q E s"
  by (cases sig) (simp_all add: runs_def signature_type_code_def)

lemma runs_allowed_call_configs:
  assumes "is_t3 (spec h)"
    and "\<not> enforceLimits config \<or> distinct (map token (limits config)) \<Longrightarrow>
      Q (if allowAnyCalls config then None else Some (allowedCalls config)) s"
    and "enforceLimits config \<Longrightarrow> \<not> distinct (map token (limits config)) \<Longrightarrow>
      E (AccountKeychainError InvalidSpendingLimit) s"
  shows "runs (allowed_call_configs h config) Q E s"
  using assms by (auto simp: runs_def allowed_call_configs_def has_duplicate_token_iff)

lemma runs_restrictions:
  assumes t3: "is_t3 (spec h)" and wf: "scope_wf (key_scopes s (spending_limit_key h a k))"
    and small: "\<And>l. l \<in> set ls \<Longrightarrow> 0xFFFFFFFFFFFFFFFFFFFFFFFFFFFFFFFF < amount l \<Longrightarrow>
      \<forall>t. E (AccountKeychainError InvalidSpendingLimit) t"
    and invalid: "\<And>l. cs = Some l \<Longrightarrow> \<not> (distinct (map target l) \<and> (\<forall>c \<in> set l. valid_scope c)) \<Longrightarrow>
      \<forall>t. E (AccountKeychainError InvalidCallScope) t"
    and fit: "\<And>l. cs = Some l \<Longrightarrow> \<not> scopes_fit 0 l \<Longrightarrow> \<forall>e t. E e t"
    and q: "\<And>ks'. scope_wf ks' \<Longrightarrow> scope_view ks' = (case cs of None \<Rightarrow> (False, []) | Some l \<Rightarrow> (True, l)) \<Longrightarrow>
      \<forall>l \<in> set ls. amount l \<le> 0xFFFFFFFFFFFFFFFFFFFFFFFFFFFFFFFF \<Longrightarrow>
      (\<And>l. cs = Some l \<Longrightarrow> is_t4 (spec h) \<Longrightarrow> distinct (map target l) \<and> (\<forall>c \<in> set l. valid_scope c)) \<Longrightarrow>
      Q () (scope_put (spending_limit_key h a k) ks' (put_limits h (spending_limit_key h a k) ls s))"
  shows "runs (apply_key_authorization_restrictions h a k ls cs) Q E s"
  unfolding apply_key_authorization_restrictions_def Let_def
  using wf small invalid fit t3
  by (intro runs_then runs_apply_limits runs_if runs_return runs_replace_allowed_calls q)
    (auto simp: put_limits_def scope_view_def default_key_scope_def [THEN arg_cong [of _ _ is_scoped]])

lemma runs_authorize_key:
  assumes t4: "is_t4 (spec h)" and wf: "scope_wf (key_scopes s (spending_limit_key h a k))"
    and fit: "allowAnyCalls config \<or> scopes_fit 0 (allowedCalls config)"
  shows "runs (authorize_key h a k sig config w)
    (\<lambda>_ t. acceptable h a k sig config w s \<and> authorized h a k sig config s t)
    (\<lambda>_ _. \<not> acceptable h a k sig config w s) s"
proof -
  note t30 = t4_t3 [OF t4] t4_t0 [OF t4]
  show ?thesis
    unfolding authorize_key_def using t4 t30 wf fit
    by (intro runs_then runs_bind runs_ensure_admin_caller runs_if runs_throw runs_handles
        runs_signature_type_code runs_allowed_call_configs runs_case_option runs_return
        runs_ensure_not_burned runs_restrictions)
      (auto simp: acceptable_def fresh_key_def word_gt_0 not_less not_le authorized_def
        authorized_limits_def fresh_row_def authorized_rules_def put_limits_def scope_put_def
        split: if_splits)
qed

section \<open>Invariants of successful calls\<close>

text \<open>\<open>ok_keeps P m\<close>: when \<open>m\<close> succeeds, whatever the accesses answered, it leads from states
  with \<open>P\<close> to states with \<open>P\<close>. Frames of the EVM need no more, since they undo failed calls.\<close>

definition ok_keeps :: "('s \<Rightarrow> bool) \<Rightarrow> ('s, 'a) pc \<Rightarrow> bool" where
  "ok_keeps P m \<longleftrightarrow> (\<forall>s. P s \<longrightarrow> wp m (\<lambda>_. P) (\<lambda>_ _. True) s)"

lemma ok_keepsI: "(\<And>s. P s \<Longrightarrow> wp m (\<lambda>_. P) (\<lambda>_ _. True) s) \<Longrightarrow> ok_keeps P m"
  by (simp add: ok_keeps_def)

lemma ok_keepsD: "ok_keeps P m \<Longrightarrow> P s \<Longrightarrow> m fs s = (Inr x, fs', s') \<Longrightarrow> P s'"
  unfolding ok_keeps_def by (blast dest: wpD)

lemma ok_keeps_keeps: "pc_keeps P m \<Longrightarrow> ok_keeps P m"
  by (rule ok_keepsI, rule wp_mono, rule wp_keeps) simp_all

lemma ok_keeps_bind: "ok_keeps P m \<Longrightarrow> (\<And>x. ok_keeps P (k x)) \<Longrightarrow> ok_keeps P (pc_bind m k)"
  unfolding ok_keeps_def by (blast intro: wp_bind wp_mono)

lemma ok_keeps_then: "ok_keeps P m \<Longrightarrow> ok_keeps P n \<Longrightarrow> ok_keeps P (pc_then m n)"
  unfolding pc_then_def by (rule ok_keeps_bind)

lemma ok_keeps_if: "ok_keeps P m \<Longrightarrow> ok_keeps P n \<Longrightarrow> ok_keeps P (if b then m else n)"
  by simp

lemma ok_keeps_runs:
  "plain m \<Longrightarrow> (\<And>s. P s \<Longrightarrow> runs m (\<lambda>_. P) (\<lambda>_ _. True) s) \<Longrightarrow> ok_keeps P m"
  by (intro ok_keepsI wp_runs)

lemma run_keeps_frame:
  "ok_keeps P m \<Longrightarrow> run_keeps P (evm_frame (mutate_void r st m))"
  by (auto simp: run_keeps_def run_state_def evm_frame_def mutate_void_def split: prod.splits
      dest: ok_keepsD)

lemma run_keeps_frame_view: "pc_reads m \<Longrightarrow> run_keeps P (evm_frame (view enc m))"
  by (intro run_keeps_evm_frame run_keeps_view pc_reads_keeps)

section \<open>The scope trees stay well formed\<close>

lemma scope_ops_plain [pc_plain]:
  "plain (validate_call_scope c)" "plain (upsert_target_scope h kh c)"
  "plain (remove_target_scope kh tgt)" "plain (replace_allowed_calls h kh cs)"
  unfolding upsert_target_scope_def remove_target_scope_def replace_allowed_calls_def
    clear_all_target_scopes_def clear_target_selectors_def upsert_rule_def validate_call_scope_eq
    validate_call_scopes_eq scope_check_def on_targets_def on_selectors_def on_recipients_def
    is_scoped_write_def
  by (intro pc_plain)+

lemma scopes_wf_put: "scopes_wf s \<Longrightarrow> scope_wf ks \<Longrightarrow> scopes_wf (scope_put kh ks s)"
  by (simp add: scopes_wf_def)

lemma ok_keeps_scope_check: "(b \<Longrightarrow> ok_keeps P n) \<Longrightarrow> ok_keeps P (pc_then (scope_check b) n)"
  by (cases b) (simp_all add: scope_check_def ok_keeps_def wp_throw)

lemma scope_ops_ok:
  "ok_keeps scopes_wf (remove_target_scope kh tgt)"
  "ok_keeps scopes_wf (replace_allowed_calls h kh calls)"
  "ok_keeps scopes_wf (is_scoped_write kh b)"
proof -
  show "ok_keeps scopes_wf (replace_allowed_calls h kh calls)"
    by (rule ok_keeps_runs, rule scope_ops_plain, rule runs_replace_allowed_calls)
      (auto simp: scopes_wf_def)
  show "ok_keeps scopes_wf (remove_target_scope kh tgt)"
    by (rule ok_keeps_runs, rule scope_ops_plain, rule runs_remove_target_scope)
      (auto simp: scopes_wf_def)
  show "ok_keeps scopes_wf (is_scoped_write kh b)"
    unfolding is_scoped_write_def
    by (intro ok_keeps_keeps pc_keeps_write) (auto simp: scopes_wf_def)
qed

lemma upserts_ok:
  assumes "is_t4 (spec h) \<longrightarrow> (\<forall>c \<in> set cs. valid_scope c)"
  shows "ok_keeps scopes_wf (pc_each (upsert_target_scope h kh) cs)"
proof (rule ok_keeps_runs)
  show "plain (pc_each (upsert_target_scope h kh) cs)" by (intro pc_plain)
  fix s
  assume "scopes_wf s"
  with assms show "runs (pc_each (upsert_target_scope h kh) cs) (\<lambda>_. scopes_wf) (\<lambda>_ _. True) s"
    by (intro runs_upsert_all) (auto simp: scopes_wf_def)
qed

lemma row_writes_ok:
  "ok_keeps scopes_wf (key_write a k v)" "ok_keeps scopes_wf (limit_write lk t st)"
  "ok_keeps scopes_wf (remaining_write lk t r)" "ok_keeps scopes_wf (emit_event e)"
  "ok_keeps scopes_wf (burn_key_authorization_witness_value a w)"
  unfolding key_write_def limit_write_def remaining_write_def limit_update_def emit_event_def
    burn_key_authorization_witness_value_def witness_write_def
  by (intro ok_keeps_keeps pc_keep pc_reads_keeps [OF ensure_not_burned_reads],
      simp_all add: scopes_wf_def)+

lemmas ok_reads = admin_reads_keep [THEN ok_keeps_keeps]

lemma ok_keeps_case_option:
  "ok_keeps P m \<Longrightarrow> (\<And>x. ok_keeps P (f x)) \<Longrightarrow> ok_keeps P (case_option m f opt)"
  by (cases opt) simp_all

lemma ok_keeps_each: "(\<And>x. ok_keeps P (f x)) \<Longrightarrow> ok_keeps P (pc_each f xs)"
  by (induction xs) (simp_all add: ok_keeps_then ok_keeps_keeps pc_keeps_return)

lemmas ok_rules = ok_keeps_then ok_keeps_bind ok_keeps_if ok_keeps_case_option ok_keeps_each ok_reads
  row_writes_ok ok_keeps_keeps [OF pc_keeps_return] ok_keeps_keeps [OF pc_keeps_throw]

lemma authorize_key_scopes: "ok_keeps scopes_wf (authorize_key h a k sig config w)"
  unfolding authorize_key_def apply_key_authorization_restrictions_def apply_limit_def Let_def
  by (intro ok_rules scope_ops_ok)

lemma set_allowed_calls_scopes: "ok_keeps scopes_wf (set_allowed_calls h a k cs)"
proof -
  have body: "ok_keeps scopes_wf (pc_then (validate_call_scopes h {} cs)
      (pc_then (pc_each (upsert_target_scope h kh) cs) (is_scoped_write kh True)))" for kh
    unfolding validate_call_scopes_eq
    by (rule ok_keeps_scope_check, rule ok_keeps_then, rule upserts_ok, blast, rule scope_ops_ok)
  note throw = ok_keeps_keeps [OF pc_keeps_throw]
  show ?thesis
    unfolding set_allowed_calls_def Let_def
    by (rule ok_keeps_if, rule throw, rule ok_keeps_then, rule ok_reads, rule ok_keeps_then,
        rule ok_reads, rule ok_keeps_if, rule throw, rule body)
qed

lemma admin_scopes:
  "ok_keeps scopes_wf (revoke_key h a k)" "ok_keeps scopes_wf (update_spending_limit h a k tok v)"
  "ok_keeps scopes_wf (remove_allowed_calls h a k tgt)"
  "ok_keeps scopes_wf (burn_key_authorization_witness h a w)"
  unfolding revoke_key_def update_spending_limit_def remove_allowed_calls_def
    burn_key_authorization_witness_def Let_def
  by (intro ok_rules scope_ops_ok)+

lemma keychain_dispatch_frame:
  assumes "\<And>k sig config w. ok_keeps P (authorize_key h a k sig config w)"
    and "\<And>w. ok_keeps P (burn_key_authorization_witness h a w)"
    and "\<And>k. ok_keeps P (revoke_key h a k)"
    and "\<And>k t v. ok_keeps P (update_spending_limit h a k t v)"
    and "\<And>k scopes. ok_keeps P (set_allowed_calls h a k scopes)"
    and "\<And>k tgt. ok_keeps P (remove_allowed_calls h a k tgt)"
  shows "run_keeps P (evm_frame (keychain_dispatch h st a c))"
proof (cases c)
  case (authorizeKey_0 k sig ex enforce lims)
  then show ?thesis
    by (cases "is_t3 (spec h)")
      (simp_all add: run_keeps_frame assms(1), simp add: run_keeps_def run_state_def evm_frame_def)
qed (simp_all add: run_keeps_frame run_keeps_frame_view assms getters_read get_allowed_calls_reads)

lemma keychain_frame_scopes_wf: "run_keeps scopes_wf (evm_frame (keychain_dispatch h st a c))"
  by (intro keychain_dispatch_frame authorize_key_scopes set_allowed_calls_scopes admin_scopes)

end
