(* ===== verification/Keychain_Spending.thy ===== *)
theory Keychain_Spending
  imports Keychain_Authorize
begin

text \<open>
  Spending limits: what a charge does to a limit row, that the pre-flight view agrees with it, how much a
  series of charges can take in a given time, and that updates and refunds respect the caps. No row ever
  holds more than its cap (\<open>rows_ok\<close>), which the calls of the precompile and the charges keep from T3 on.
\<close>

section \<open>Rows and windows\<close>

text \<open>One charge against a row: roll the period over, then take the amount if it fits.\<close>

definition charge :: "u64 \<Rightarrow> u256 \<Rightarrow> SpendingLimitState \<Rightarrow> SpendingLimitState option" where
  "charge ts amt row = (let st = roll_over row ts in
     if amt > remaining st then None else Some (st\<lparr>remaining := remaining st - amt\<rparr>))"

definition row_ok :: "SpendingLimitState \<Rightarrow> bool" where
  "row_ok row \<longleftrightarrow> unat (remaining row) \<le> unat (max_limit row)"

lemma unat_ucast_u128 [simp]: "unat (ucast (x :: u128) :: u256) = unat x"
  by (simp add: unsigned_ucast_eq take_bit_nat_eq_self unsigned_less [THEN less_trans])

lemma roll_over_simps [simp]:
  "max_limit (roll_over row ts) = max_limit row" "period (roll_over row ts) = period row"
  by (simp_all add: roll_over_def)

lemma roll_over_row_ok: "row_ok row \<Longrightarrow> row_ok (roll_over row ts)"
  by (simp add: roll_over_def row_ok_def)

lemma charge_SomeD:
  assumes "charge ts amt row = Some row'"
  shows "unat (remaining row') + unat amt = unat (remaining (roll_over row ts))"
    "period_end row' = period_end (roll_over row ts)" "max_limit row' = max_limit row" "period row' = period row"
proof -
  let ?st = "roll_over row ts"
  have le: "amt \<le> remaining ?st" and row': "row' = ?st\<lparr>remaining := remaining ?st - amt\<rparr>"
    using assms by (auto simp: charge_def Let_def not_less split: if_splits)
  from le show "unat (remaining row') + unat amt = unat (remaining ?st)"
    by (simp add: row' unat_sub word_le_nat_alt)
qed (use assms in \<open>auto simp: charge_def Let_def split: if_splits\<close>)

lemma charge_row_ok: "charge ts amt row = Some row' \<Longrightarrow> row_ok row \<Longrightarrow> row_ok row'"
  using charge_SomeD [of ts amt row row'] roll_over_row_ok [of row ts] by (auto simp: row_ok_def)

text \<open>The next end of period lies after the current time, and a whole number of periods after the
  old end unless it saturates.\<close>

lemma next_period_end_value:
  assumes p: "period st \<noteq> 0" and t: "period_end st \<le> ts"
  defines "n \<equiv> (unat ts - unat (period_end st)) div unat (period st) + 1"
  shows "unat (compute_next_period_end st ts) =
    min (unat (period_end st) + unat (period st) * n) (2 ^ 64 - 1)"
proof -
  define m where "m = (unat ts - unat (period_end st)) div unat (period st)"
  have val: "unat (compute_next_period_end st ts) = min (unat (period_end st) +
      min (unat (period st) * min (m + 1) (2 ^ 64 - 1)) (2 ^ 64 - 1)) (2 ^ 64 - 1)"
    using t by (simp add: compute_next_period_end_def Let_def sat_unat unat_div m_def)
  have q: "1 \<le> unat (period st)" using p by (simp add: Suc_le_eq unat_gt_0)
  then have "min (unat (period_end st) + min (unat (period st) * min (m + 1) (2 ^ 64 - 1)) (2 ^ 64 - 1)) (2 ^ 64 - 1)
      = min (unat (period_end st) + unat (period st) * (m + 1)) ((2 :: nat) ^ 64 - 1)"
  proof (cases "m + 1 \<le> 2 ^ 64 - 1")
    case False
    then have "(2 :: nat) ^ 64 - 1 \<le> unat (period st) * (2 ^ 64 - 1)" "2 ^ 64 - 1 \<le> unat (period st) * (m + 1)"
      using q mult_le_mono [OF q, of "2 ^ 64 - 1" "m + 1"] by simp_all
    then show ?thesis using False by (simp add: min_def)
  qed (simp add: min_def)
  with val show ?thesis by (simp add: n_def m_def)
qed

lemma next_period_end_after:
  assumes p: "period st \<noteq> 0" and t: "period_end st \<le> ts" and max: "ts < - 1"
  shows "ts < compute_next_period_end st ts"
proof -
  define q where "q = unat (period st)"
  define d where "d = unat ts - unat (period_end st)"
  have q: "0 < q" using p by (simp add: q_def unat_gt_0)
  then have "d < q * (d div q + 1)"
    using dividend_less_times_div [OF q, of d] by simp
  moreover have "unat ts = unat (period_end st) + d" using t by (simp add: d_def word_le_nat_alt)
  moreover have "unat ts < 2 ^ 64 - 1" using max by (simp add: word_less_nat_alt unat_max_word)
  ultimately have "unat ts < min (unat (period_end st) + q * (d div q + 1)) (2 ^ 64 - 1)"
    by (simp only: min_less_iff_conj add_less_cancel_left)
  then show ?thesis
    unfolding word_less_nat_alt next_period_end_value [OF p t] q_def d_def .
qed

section \<open>Spending and its pre-flight\<close>

abbreviation limit_of :: "host \<Rightarrow> address \<Rightarrow> address \<Rightarrow> address \<Rightarrow> AccountKeychain \<Rightarrow> SpendingLimitState" where
  "limit_of h a k tok s \<equiv> spending_limits s (spending_limit_key h a k) tok"

definition put_limit :: "b256 \<Rightarrow> address \<Rightarrow> SpendingLimitState \<Rightarrow> AccountKeychain \<Rightarrow> AccountKeychain" where
  "put_limit lk tok row s =
     s\<lparr>spending_limits := (spending_limits s)(lk := (spending_limits s lk)(tok := row))\<rparr>"

definition add_event :: "AccountKeychainEvent \<Rightarrow> AccountKeychain \<Rightarrow> AccountKeychain" where
  "add_event e s = s\<lparr>events := events s @ [e]\<rparr>"

lemma roll_over_no_period: "period row = 0 \<Longrightarrow> roll_over row ts = row"
  by (simp add: roll_over_def)

lemma verify_and_update_spending_run:
  assumes t3: "is_t3 (spec h)" and k: "k \<noteq> 0"
  shows "verify_and_update_spending h a k tok amt [] s =
    (if \<not> key_active (now h) (keys s a k)
       then (Inl (AccountKeychainError (inactive_error (now h) (keys s a k))), [], s)
     else if \<not> enforce_limits (keys s a k) then (Inr (), [], s)
     else case charge (now h) amt (limit_of h a k tok s) of
       None \<Rightarrow> (Inl (AccountKeychainError SpendingLimitExceeded), [], s)
     | Some row \<Rightarrow> (Inr (), [], add_event (AccessKeySpend a k tok amt (remaining row))
         (put_limit (spending_limit_key h a k) tok row s)))"
proof -
  have row: "st\<lparr>remaining := remaining st\<rparr> = st" for st :: SpendingLimitState by simp
  have plain: "(spending_limits s lk)(tok := (spending_limits s lk tok)\<lparr>remaining := r\<rparr>)
      = (spending_limits s lk)(tok := (roll_over (spending_limits s lk tok) ts)\<lparr>remaining := r\<rparr>)"
    if "period (spending_limits s lk tok) = 0" for lk r ts
    using that by (simp add: roll_over_no_period)
  show ?thesis
    using t3 k
    by (simp add: verify_and_update_spending_def Let_def pc_bind_Inr pc_bind_Inl load_active_key_run
        limit_read_def limit_write_run pc_then_Inr remaining_write_def limit_update_def emit_event_def
        charge_def put_limit_def add_event_def roll_over_no_period split: if_splits)
qed

lemma effective_limit_state_run:
  assumes t3: "is_t3 (spec h)" and k: "k \<noteq> 0"
  shows "effective_limit_state h a k tok ts [] s =
    (Inr (if key_active ts (keys s a k)
       then (remaining (roll_over (limit_of h a k tok s) ts),
             if period (limit_of h a k tok s) = 0 then 0 else period_end (roll_over (limit_of h a k tok s) ts))
       else (0, 0)), [], s)"
  using t3 k
  by (auto simp: effective_limit_state_def key_read_def Let_def key_active_def roll_over_def
      compute_next_period_end_def not_le)
lemma put_limit_simps [simp]:
  "keys (put_limit lk tok row s) = keys s" "key_scopes (put_limit lk tok row s) = key_scopes s"
  "spending_limits (put_limit lk tok row s) lk' tok' =
     (if lk' = lk \<and> tok' = tok then row else spending_limits s lk' tok')"
  "key_authorization_witnesses (put_limit lk tok row s) = key_authorization_witnesses s"
  "transaction_key (put_limit lk tok row s) = transaction_key s" "tx_origin (put_limit lk tok row s) = tx_origin s"
  by (simp_all add: put_limit_def)

lemma add_event_simps [simp]:
  "keys (add_event e s) = keys s" "key_scopes (add_event e s) = key_scopes s"
  "spending_limits (add_event e s) = spending_limits s"
  "key_authorization_witnesses (add_event e s) = key_authorization_witnesses s"
  "transaction_key (add_event e s) = transaction_key s" "tx_origin (add_event e s) = tx_origin s"
  by (simp_all add: add_event_def)

lemma verify_and_update_spending_plain [pc_plain]: "plain (verify_and_update_spending h a k tok amt)"
  unfolding verify_and_update_spending_def load_active_key_def key_read_def limit_read_def Let_def
    remaining_write_def limit_write_def limit_update_def emit_event_def
  by (intro pc_plain)

text \<open>A successful charge of an enforced key, whatever its accesses answer.\<close>

lemma spending_SomeD:
  assumes "is_t3 (spec h)" "k \<noteq> 0" "enforce_limits (keys s a k)"
    and "verify_and_update_spending h a k tok amt fs s = (Inr (), fs', t)"
  obtains row where "key_active (now h) (keys s a k)" "charge (now h) amt (limit_of h a k tok s) = Some row"
    "t = add_event (AccessKeySpend a k tok amt (remaining row)) (put_limit (spending_limit_key h a k) tok row s)"
  using plainD [OF verify_and_update_spending_plain assms(4)] assms(1-3)
  by (auto simp: verify_and_update_spending_run split: if_splits option.splits)

section \<open>Series of spendings\<close>

text \<open>A series charges tokens of one key at given block times. The number of roll-overs a token's row
  can have seen by time \<open>T\<close> bounds what the series has taken from it.\<close>

definition spend_series :: "host \<Rightarrow> address \<Rightarrow> address \<Rightarrow> (u256 \<times> address \<times> u256) list \<Rightarrow> unit kc" where
  "spend_series h a k xs =
     pc_each (\<lambda>(ts, tok, amt). verify_and_update_spending (h\<lparr>timestamp := ts\<rparr>) a k tok amt) xs"

definition spent_on :: "address \<Rightarrow> (u256 \<times> address \<times> u256) list \<Rightarrow> nat" where
  "spent_on tok xs = sum_list (map (\<lambda>(_, _, amt). unat amt) (filter (\<lambda>(_, tok', _). tok' = tok) xs))"

definition periods_by :: "SpendingLimitState \<Rightarrow> u64 \<Rightarrow> nat" where
  "periods_by row T = (if period row = 0 \<or> T < period_end row then 0
     else (unat T - unat (period_end row)) div unat (period row) + 1)"

lemma now_timestamp [simp]: "now (h\<lparr>timestamp := ts\<rparr>) = saturating_to_u64 ts"
  by (simp add: now_def)

lemma spending_limit_key_timestamp [simp]: "spending_limit_key (h\<lparr>timestamp := ts\<rparr>) a k = spending_limit_key h a k"
  by (simp add: spending_limit_key_def)

text \<open>What is still to come out of a row by time \<open>T\<close>: each charge pays for itself out of it.\<close>

definition budget :: "u64 \<Rightarrow> SpendingLimitState \<Rightarrow> nat" where
  "budget T row = unat (remaining row) + unat (max_limit row) * periods_by row T"

lemma periods_by_roll_over:
  assumes "period row \<noteq> 0" "period_end row \<le> ts" "ts \<le> T" "T < - 1"
  shows "periods_by (roll_over row ts) T + 1 \<le> periods_by row T"
proof -
  define p e d where "p = unat (period row)" and "e = unat (period_end row)" and "d = unat ts - unat (period_end row)"
  have p: "0 < p" using assms(1) by (simp add: p_def unat_gt_0)
  have T: "e \<le> unat T" "unat ts = e + d" "unat ts \<le> unat T"
    using assms(2,3) by (simp_all add: e_def d_def word_le_nat_alt)
  let ?e' = "period_end (roll_over row ts)"
  have e': "unat ?e' = min (e + p * (d div p + 1)) (2 ^ 64 - 1)"
    using next_period_end_value [OF assms(1,2)] assms(1,2) by (simp add: roll_over_def p_def e_def d_def)
  have row: "periods_by row T = (unat T - e) div p + 1"
    using assms(1-3) by (simp add: periods_by_def p_def e_def not_less)
  show ?thesis
  proof (cases "T < ?e'")
    case True
    then show ?thesis by (simp add: periods_by_def [of "roll_over row ts"] row)
  next
    case False
    then have "unat ?e' \<le> unat T" by (simp add: word_le_nat_alt not_less)
    moreover have "unat T < 2 ^ 64 - 1" using assms(4) by (simp add: word_less_nat_alt unat_max_word)
    ultimately have le: "e + p * (d div p + 1) \<le> unat T" and eq: "unat ?e' = e + p * (d div p + 1)"
      using e' by simp_all
    have "(unat T - unat ?e') div p + (d div p + 1) = (unat T - unat ?e' + p * (d div p + 1)) div p"
      using div_mult_self2 [of p "unat T - unat ?e'" "d div p + 1"] p by linarith
    also have "unat T - unat ?e' + p * (d div p + 1) = unat T - e" using le eq by simp
    finally show ?thesis
      using False assms(1) by (simp add: periods_by_def [of "roll_over row ts"] row p_def [symmetric])
  qed
qed

lemma charge_budget:
  assumes "charge ts amt row = Some row'" "ts \<le> T" "T < - 1"
  shows "unat amt + budget T row' \<le> budget T row"
proof -
  note facts = charge_SomeD [OF assms(1)]
  have same: "periods_by row' T = periods_by (roll_over row ts) T" using facts by (simp add: periods_by_def)
  show ?thesis
  proof (cases "period row \<noteq> 0 \<and> period_end row \<le> ts")
    case True
    then have "periods_by (roll_over row ts) T + 1 \<le> periods_by row T"
      by (intro periods_by_roll_over assms) simp_all
    then have "unat (max_limit row) + unat (max_limit row) * periods_by row' T \<le> unat (max_limit row) * periods_by row T"
      using mult_le_mono2 [of "periods_by row' T + 1" "periods_by row T" "unat (max_limit row)"] same by simp
    moreover have "remaining (roll_over row ts) = ucast (max_limit row)" using True by (simp add: roll_over_def)
    ultimately show ?thesis using facts by (simp add: budget_def)
  next
    case False
    then have "roll_over row ts = row" by (auto simp: roll_over_def)
    then show ?thesis using facts same by (simp add: budget_def)
  qed
qed

lemma spend_series_Cons:
  assumes t3: "is_t3 (spec h)" and k: "k \<noteq> 0" and en: "enforce_limits (keys s a k)"
    and run: "spend_series h a k ((ts, tk, amt) # xs) fs s = (Inr (), fs', t)"
  obtains row fs1 s1 where "charge (saturating_to_u64 ts) amt (limit_of h a k tk s) = Some row"
    "spend_series h a k xs fs1 s1 = (Inr (), fs', t)" "keys s1 = keys s"
    "\<And>tok. limit_of h a k tok s1 = (if tok = tk then row else limit_of h a k tok s)"
proof -
  obtain fs1 s1 where one: "verify_and_update_spending (h\<lparr>timestamp := ts\<rparr>) a k tk amt fs s = (Inr (), fs1, s1)"
    and rest: "spend_series h a k xs fs1 s1 = (Inr (), fs', t)"
    using run by (auto simp: spend_series_def pc_then_def elim!: pc_bind_elim)
  show thesis
    by (rule spending_SomeD [OF _ k en one]) (use t3 rest that in simp_all)
qed

lemma spent_on_Cons: "spent_on tok ((ts, tk, amt) # xs) = (if tk = tok then unat amt else 0) + spent_on tok xs"
  by (simp add: spent_on_def)

lemma spend_series_budget:
  assumes t3: "is_t3 (spec h)" and k: "k \<noteq> 0" and en: "enforce_limits (keys s a k)"
    and run: "spend_series h a k xs fs s = (Inr (), fs', t)"
    and ts: "\<forall>x \<in> set xs. saturating_to_u64 (fst x) \<le> T" and T: "T < - 1"
  shows "spent_on tok xs + budget T (limit_of h a k tok t) \<le> budget T (limit_of h a k tok s)"
  using en run ts
proof (induction xs arbitrary: fs s)
  case Nil
  then show ?case by (simp add: spend_series_def spent_on_def)
next
  case (Cons x xs)
  obtain ts tk amt where x: "x = (ts, tk, amt)" by (cases x)
  obtain row fs1 s1 where step: "charge (saturating_to_u64 ts) amt (limit_of h a k tk s) = Some row"
    "spend_series h a k xs fs1 s1 = (Inr (), fs', t)" "keys s1 = keys s"
    "\<And>tok. limit_of h a k tok s1 = (if tok = tk then row else limit_of h a k tok s)"
    by (rule spend_series_Cons [OF t3 k Cons.prems(1) Cons.prems(2) [unfolded x]]) (rule that)
  have "spent_on tok xs + budget T (limit_of h a k tok t) \<le> budget T (limit_of h a k tok s1)"
    by (rule Cons.IH [OF _ step(2)]) (use Cons.prems step(3) in simp_all)
  moreover have "unat amt + budget T row \<le> budget T (limit_of h a k tk s)"
    using charge_budget [OF step(1), of T] Cons.prems(3) T by (simp add: x)
  ultimately show ?case by (auto simp: x spent_on_Cons step(4) split: if_splits)
qed

text \<open>A row that is not periodic pays out exactly what it loses.\<close>

lemma spend_series_exact:
  assumes t3: "is_t3 (spec h)" and k: "k \<noteq> 0" and en: "enforce_limits (keys s a k)"
    and run: "spend_series h a k xs fs s = (Inr (), fs', t)" and p: "period (limit_of h a k tok s) = 0"
  shows "spent_on tok xs + unat (remaining (limit_of h a k tok t)) = unat (remaining (limit_of h a k tok s))"
  using en run p
proof (induction xs arbitrary: fs s)
  case Nil
  then show ?case by (simp add: spend_series_def spent_on_def)
next
  case (Cons x xs)
  obtain ts tk amt where x: "x = (ts, tk, amt)" by (cases x)
  obtain row fs1 s1 where step: "charge (saturating_to_u64 ts) amt (limit_of h a k tk s) = Some row"
    "spend_series h a k xs fs1 s1 = (Inr (), fs', t)" "keys s1 = keys s"
    "\<And>tok. limit_of h a k tok s1 = (if tok = tk then row else limit_of h a k tok s)"
    by (rule spend_series_Cons [OF t3 k Cons.prems(1) Cons.prems(2) [unfolded x]]) (rule that)
  note facts = charge_SomeD [OF step(1)]
  have "spent_on tok xs + unat (remaining (limit_of h a k tok t)) = unat (remaining (limit_of h a k tok s1))"
    by (rule Cons.IH [OF _ step(2)]) (use Cons.prems step(3) facts in \<open>auto simp: step(4)\<close>)
  moreover have "unat (remaining row) + unat amt = unat (remaining (limit_of h a k tk s))" if "tk = tok"
    using facts Cons.prems(3) that by (simp add: roll_over_no_period)
  ultimately show ?case by (auto simp: x spent_on_Cons step(4) split: if_splits)
qed

section \<open>Setting and refunding limits\<close>

lemma update_spending_limit_run:
  assumes t3: "is_t3 (spec h)" and adm: "admin_ok h a s" and act: "key_active (now h) (keys s a k)"
    and v: "v \<le> 0xFFFFFFFFFFFFFFFFFFFFFFFFFFFFFFFF"
  shows "update_spending_limit h a k tok v [] s = (Inr (), [], add_event (SpendingLimitUpdated a k tok v)
    (put_limit (spending_limit_key h a k) tok ((limit_of h a k tok s)\<lparr>remaining := v, max_limit := ucast v\<rparr>)
      (s\<lparr>keys := (keys s)(a := (keys s a)(k := (keys s a k)\<lparr>enforce_limits := True\<rparr>))\<rparr>)))"
proof -
  have same: "s\<lparr>keys := (keys s)(a := (keys s a)(k := (keys s a k)\<lparr>enforce_limits := True\<rparr>))\<rparr> = s"
    if "enforce_limits (keys s a k)"
  proof -
    have "(keys s a k)\<lparr>enforce_limits := True\<rparr> = keys s a k" using that by simp
    then show ?thesis by simp
  qed
  have cap: "t3_spending_limit_cap v = pc_return (ucast v)"
    using v by (auto simp: t3_spending_limit_cap_def u128_max dest: leD)
  show ?thesis
    using t3 adm act same
    by (simp add: update_spending_limit_def Let_def ensure_admin_caller_run load_active_key_run cap
        pc_bind_Inr pc_then_Inr limit_read_def limit_write_run key_write_def emit_event_def
        put_limit_def add_event_def)
qed

lemma refund_spending_limit_run:
  assumes t3: "is_t3 (spec h)" and tk: "transaction_key s \<noteq> 0" and o: "tx_origin s = a"
  shows "refund_spending_limit h a tok amt [] s =
    (if key_active (now h) (keys s a (transaction_key s)) \<and> enforce_limits (keys s a (transaction_key s)) then
       let row = limit_of h a (transaction_key s) tok s; refunded = sat_add (remaining row) amt in
       (Inr (), [], put_limit (spending_limit_key h a (transaction_key s)) tok
         (row\<lparr>remaining := if max_limit row = 0 then refunded else min refunded (ucast (max_limit row))\<rparr>) s)
     else (Inr (), [], s))"
  using assms
  by (simp add: refund_spending_limit_def pc_catch_def pc_bind_def load_active_key_run Let_def
      limit_read_def limit_write_run put_limit_def)

section \<open>Rows stay within their cap\<close>

definition rows_ok :: "AccountKeychain \<Rightarrow> bool" where
  "rows_ok s \<longleftrightarrow> (\<forall>lk tok. row_ok (spending_limits s lk tok))"

lemma rows_ok_handles [pc_keep]:
  fixes m :: "(address set_handler, 'a) pc" and n :: "(selector set_handler, 'b) pc"
  shows "pc_keeps rows_ok (key_write b k v)"
    "pc_keeps rows_ok (is_scoped_write kh flag)"
    "pc_keeps rows_ok (on_targets kh m)"
    "pc_keeps rows_ok (on_selectors kh tgt n)"
    "pc_keeps rows_ok (on_recipients kh tgt sel m)"
    "pc_keeps rows_ok (witness_write b w')"
    "pc_keeps rows_ok (emit_event e)"
  unfolding key_write_def is_scoped_write_def on_targets_def on_selectors_def
    on_recipients_def witness_write_def emit_event_def scope_put_def
  by (rule pc_keeps_write pc_keeps_zoom, auto simp: rows_ok_def)+

lemma wp_cap:
  assumes "\<And>cap. unat cap = unat v \<Longrightarrow> wp (m cap) Q (\<lambda>_ _. True) s"
  shows "wp (pc_bind (t3_spending_limit_cap v) m) Q (\<lambda>_ _. True) s"
proof (cases "v > 0xFFFFFFFFFFFFFFFFFFFFFFFFFFFFFFFF")
  case False
  then have "unat v < 2 ^ 128" by (simp add: not_less word_le_nat_alt)
  then have "unat (ucast v :: u128) = unat v" by (simp add: unsigned_ucast_eq take_bit_nat_eq_self)
  with False assms show ?thesis by (simp add: t3_spending_limit_cap_def u128_max)
qed (simp add: t3_spending_limit_cap_def u128_max wp_throw)

lemma limit_write_rows_ok:
  assumes "rows_ok s" "row_ok v"
  shows "wp (limit_write lk t v) (\<lambda>_. rows_ok) (\<lambda>_ _. True) s"
  unfolding limit_write_def remaining_write_def limit_update_def
  using assms by (intro wp_then wp_write) (auto simp: rows_ok_def)

lemma apply_limit_rows_ok:
  assumes "is_t3 (spec h)"
  shows "ok_keeps rows_ok (apply_limit h lk l)"
proof (rule ok_keepsI)
  fix s
  assume "rows_ok s"
  then show "wp (apply_limit h lk l) (\<lambda>_. rows_ok) (\<lambda>_ _. True) s"
    unfolding apply_limit_def Let_def if_P [OF assms]
    by (intro wp_cap limit_write_rows_ok) (simp_all add: row_ok_def)
qed

lemma scope_tree_rows_ok [pc_keep]:
  "pc_keeps rows_ok (clear_target_selectors kh tgt)" "pc_keeps rows_ok (remove_target_scope kh tgt)"
  "pc_keeps rows_ok (clear_all_target_scopes kh)" "pc_keeps rows_ok (upsert_target_scope h kh scope)"
  unfolding clear_target_selectors_def remove_target_scope_def clear_all_target_scopes_def
    upsert_target_scope_def upsert_rule_def
  by (intro pc_keep pc_reads_keeps [OF validate_call_scope_reads] admin_reads_keep)+

lemma replace_allowed_calls_rows_ok [pc_keep]: "pc_keeps rows_ok (replace_allowed_calls h kh cs)"
  unfolding replace_allowed_calls_def by (intro pc_keep admin_reads_keep)

lemmas ok_keep_rules = ok_keeps_then ok_keeps_bind ok_keeps_if ok_keeps_case_option ok_keeps_each ok_reads
  ok_keeps_keeps [OF pc_keeps_return] ok_keeps_keeps [OF pc_keeps_throw]
  rows_ok_handles [THEN ok_keeps_keeps] scope_tree_rows_ok [THEN ok_keeps_keeps]
  replace_allowed_calls_rows_ok [THEN ok_keeps_keeps]

lemma authorize_key_rows_ok: "is_t3 (spec h) \<Longrightarrow> ok_keeps rows_ok (authorize_key h a k sig config w)"
  unfolding authorize_key_def apply_key_authorization_restrictions_def Let_def
  by (intro ok_keep_rules apply_limit_rows_ok)

lemma set_limit_rows_ok:
  assumes "rows_ok s"
  shows "wp (pc_bind (limit_read lk tok) (\<lambda>st. pc_bind (t3_spending_limit_cap v) (\<lambda>cap.
      limit_write lk tok (st\<lparr>remaining := v, max_limit := cap\<rparr>)))) (\<lambda>_. rows_ok) (\<lambda>_ _. True) s"
  by (rule wp_reads_bind [OF limit_read_reads], rule wp_cap, rule limit_write_rows_ok [OF assms])
    (simp_all add: row_ok_def)

lemma update_spending_limit_rows_ok:
  assumes "is_t3 (spec h)"
  shows "ok_keeps rows_ok (update_spending_limit h a k tok v)"
proof -
  have row: "ok_keeps rows_ok (pc_bind (limit_read lk tok) (\<lambda>st. pc_bind (t3_spending_limit_cap v) (\<lambda>cap.
      limit_write lk tok (st\<lparr>remaining := v, max_limit := cap\<rparr>))))" for lk
    by (rule ok_keepsI) (rule set_limit_rows_ok)
  show ?thesis
    unfolding update_spending_limit_def Let_def if_P [OF assms]
    by (rule ok_keeps_then ok_reads ok_keeps_bind [OF ok_reads(3)] ok_keeps_if rows_ok_handles [THEN ok_keeps_keeps]
        ok_keeps_keeps [OF pc_keeps_return] row)+
qed

lemma admin_rows_ok:
  "ok_keeps rows_ok (revoke_key h a k)" "ok_keeps rows_ok (set_allowed_calls h a k scopes)"
  "ok_keeps rows_ok (remove_allowed_calls h a k tgt)"
  "ok_keeps rows_ok (burn_key_authorization_witness h a w)"
  unfolding revoke_key_def set_allowed_calls_def remove_allowed_calls_def Let_def
    burn_key_authorization_witness_def burn_key_authorization_witness_value_def
  by (intro ok_keep_rules)+

lemma keychain_frame_rows_ok:
  "is_t3 (spec h) \<Longrightarrow> run_keeps rows_ok (evm_frame (keychain_dispatch h st a c))"
  by (intro keychain_dispatch_frame authorize_key_rows_ok admin_rows_ok update_spending_limit_rows_ok)

lemma spending_rows_ok: 
  assumes "is_t3 (spec h)"
  shows "ok_keeps rows_ok (verify_and_update_spending h a k tok amt)"
proof (rule ok_keeps_runs [OF verify_and_update_spending_plain])
  fix s
  assume ok: "rows_ok s"
  show "runs (verify_and_update_spending h a k tok amt) (\<lambda>_. rows_ok) (\<lambda>_ _. True) s"
  proof (cases "k = 0")
    case True
    then show ?thesis using ok by (simp add: verify_and_update_spending_def runs_def)
  next
    case False
    then show ?thesis
      using assms ok charge_row_ok
      by (auto simp: runs_def verify_and_update_spending_run rows_ok_def split: option.splits)
  qed
qed

section \<open>Properties\<close>

lemma key_active_now: "key_active ts key \<Longrightarrow> ts < - 1"
  by (auto simp: key_active_def intro: less_le_trans)

lemma charged_row_settled:
  assumes "charge ts amt row = Some row'" "ts < - 1"
  shows "roll_over row' ts = row'"
proof (cases "period row \<noteq> 0 \<and> period_end row \<le> ts")
  case True
  then have "ts < period_end row'"
    using next_period_end_after [of row ts] charge_SomeD [OF assms(1)] assms(2) by (simp add: roll_over_def)
  then show ?thesis by (auto simp: roll_over_def)
next
  case False
  then show ?thesis using charge_SomeD [OF assms(1)] by (auto simp: roll_over_def)
qed

lemma effective_remaining_limit_run:
  assumes "is_t3 (spec h)" "k \<noteq> 0"
  shows "effective_remaining_limit h a k tok ts [] s =
    (Inr (if key_active ts (keys s a k) then remaining (roll_over (limit_of h a k tok s) ts) else 0), [], s)"
  using assms by (simp add: effective_remaining_limit_def pc_bind_def effective_limit_state_run)

definition sample_host :: host where
  "sample_host = \<lparr>spec = T5, timestamp = 1000, keccak256 = be_word\<rparr>"

text \<open>Account 1 with session key 2 that may spend 100 of token 9 every 50 seconds, 60 left until 1010.\<close>

definition sample_keychain :: AccountKeychain where
  "sample_keychain = empty_keychain\<lparr>
     keys := (\<lambda>_ _. default_key)(1 := (\<lambda>_. default_key)(2 :=
       \<lparr>signature_type = 0, expiry = 5000, enforce_limits = True, is_revoked = False\<rparr>)),
     spending_limits := (\<lambda>_. (\<lambda>_. default_limit)(9 :=
       \<lparr>remaining = 60, max_limit = 100, period = 50, period_end = 1010\<rparr>))\<rparr>"

lemma sample_simps [simp]:
  "spec sample_host = T5" "now sample_host = 1000"
  "keys sample_keychain 1 2 = \<lparr>signature_type = 0, expiry = 5000, enforce_limits = True, is_revoked = False\<rparr>"
  "spending_limits sample_keychain lk 9 = \<lparr>remaining = 60, max_limit = 100, period = 50, period_end = 1010\<rparr>"
  "key_active 1000 \<lparr>signature_type = 0, expiry = 5000, enforce_limits = True, is_revoked = False\<rparr>"
  "transaction_key sample_keychain = 0" "tx_origin sample_keychain = 0"
  by (simp_all add: sample_host_def sample_keychain_def empty_keychain_def key_active_def now_def
      saturating_to_u64_def)

text \<open>C14: the check of a spending limit agrees with its pre-flight. A charge of a session key succeeds
  exactly when the key is active and, if its limits are enforced, the amount fits what
  \<open>effective_remaining_limit\<close> reports; an enforced charge lowers what is reported at the same
  time by exactly the amount.\<close>

theorem spending_agrees_with_preflight:
  assumes "is_t3 (spec h)" "k \<noteq> 0"
  shows "\<exists>r. effective_remaining_limit h a k tok (now h) [] s = (Inr r, [], s)
    \<and> ((\<exists>t. verify_and_update_spending h a k tok amt [] s = (Inr (), [], t)) \<longleftrightarrow>
         key_active (now h) (keys s a k) \<and> (enforce_limits (keys s a k) \<longrightarrow> amt \<le> r))
    \<and> (\<forall>t. verify_and_update_spending h a k tok amt [] s = (Inr (), [], t) \<and> enforce_limits (keys s a k) \<longrightarrow>
         effective_remaining_limit h a k tok (now h) [] t = (Inr (r - amt), [], t))"
proof (cases "key_active (now h) (keys s a k)")
  case True
  let ?row = "limit_of h a k tok s" and ?r = "remaining (roll_over (limit_of h a k tok s) (now h))"
  note eff = effective_remaining_limit_run [OF assms]
  have fits: "charge (now h) amt ?row =
      (if amt \<le> ?r then Some ((roll_over ?row (now h))\<lparr>remaining := ?r - amt\<rparr>) else None)"
    by (auto simp: charge_def Let_def not_less)
  have run: "verify_and_update_spending h a k tok amt [] s =
      (if \<not> enforce_limits (keys s a k) then (Inr (), [], s)
       else case charge (now h) amt ?row of None \<Rightarrow> (Inl (AccountKeychainError SpendingLimitExceeded), [], s)
       | Some row \<Rightarrow> (Inr (), [], add_event (AccessKeySpend a k tok amt (remaining row))
           (put_limit (spending_limit_key h a k) tok row s)))"
    by (simp add: verify_and_update_spending_run [OF assms] True)
  have after: "effective_remaining_limit h a k tok (now h) [] t = (Inr (?r - amt), [], t)"
    if "charge (now h) amt ?row = Some row" "t = add_event e (put_limit (spending_limit_key h a k) tok row s)"
    for t row e
    using that charged_row_settled [OF that(1) key_active_now [OF True]]
    by (auto simp: eff True fits split: if_splits)
  show ?thesis
  proof (intro exI conjI)
    show "effective_remaining_limit h a k tok (now h) [] s = (Inr ?r, [], s)" by (simp add: eff True)
    show "(\<exists>t. verify_and_update_spending h a k tok amt [] s = (Inr (), [], t)) \<longleftrightarrow>
        key_active (now h) (keys s a k) \<and> (enforce_limits (keys s a k) \<longrightarrow> amt \<le> ?r)"
      by (simp add: run True fits)
    show "\<forall>t. verify_and_update_spending h a k tok amt [] s = (Inr (), [], t) \<and> enforce_limits (keys s a k) \<longrightarrow>
        effective_remaining_limit h a k tok (now h) [] t = (Inr (?r - amt), [], t)"
      by (auto simp: run intro: after split: option.splits)
  qed
qed (simp add: effective_remaining_limit_run [OF assms] verify_and_update_spending_run [OF assms])

theorem spending_agrees_with_preflight_witness:
  "effective_remaining_limit sample_host 1 2 9 1000 [] sample_keychain = (Inr 60, [], sample_keychain)
   \<and> (\<exists>t. verify_and_update_spending sample_host 1 2 9 25 [] sample_keychain = (Inr (), [], t)
        \<and> effective_remaining_limit sample_host 1 2 9 1000 [] t = (Inr 35, [], t))
   \<and> \<not> (\<exists>t. verify_and_update_spending sample_host 1 2 9 61 [] sample_keychain = (Inr (), [], t))"
proof -
  have r: "effective_remaining_limit sample_host 1 2 9 1000 [] sample_keychain = (Inr 60, [], sample_keychain)"
    using effective_remaining_limit_run [of sample_host 2 1 9 1000 sample_keychain]
    by (simp add: fork_defs roll_over_def)
  show ?thesis
    using r spending_agrees_with_preflight [of sample_host 2 1 9 sample_keychain 25]
      spending_agrees_with_preflight [of sample_host 2 1 9 sample_keychain 61]
    by (auto simp: fork_defs)
qed

text \<open>C9: the spending limit is a rate limit. Whatever a series of successful charges of an enforced key
  does, in whatever order of tokens and block times up to \<open>T\<close>, the total taken from one token is at
  most what was left in its row plus one cap per period that has begun by \<open>T\<close>.\<close>

theorem spending_rate_limited:
  assumes "is_t3 (spec h)" "k \<noteq> 0" "enforce_limits (keys s a k)"
    and "spend_series h a k xs fs s = (Inr (), fs', t)"
    and "\<forall>x \<in> set xs. saturating_to_u64 (fst x) \<le> T" "T < - 1"
  shows "spent_on tok xs \<le> unat (remaining (limit_of h a k tok s))
    + unat (max_limit (limit_of h a k tok s)) * periods_by (limit_of h a k tok s) T"
  using spend_series_budget [OF assms, of tok] by (simp add: budget_def)

theorem spending_rate_limited_witness:
  "\<exists>t. spend_series sample_host 1 2 [(1000, 9, 50), (1070, 9, 90)] [] sample_keychain = (Inr (), [], t)
   \<and> spent_on 9 [(1000, 9, 50), (1070, 9, 90)] \<le> 60 + 100 * 2"
proof -
  let ?xs = "[(1000, 9, 50), (1070, 9, 90)] :: (u256 \<times> address \<times> u256) list"
  obtain t where t: "spend_series sample_host 1 2 ?xs [] sample_keychain = (Inr (), [], t)"
    by (simp add: spend_series_def pc_then_def pc_bind_def verify_and_update_spending_run fork_defs
        charge_def roll_over_def saturating_to_u64_def key_active_def Let_def compute_next_period_end_def
        sat_sub_def sat_add_def sat_mul_def)
  have "periods_by (limit_of sample_host 1 2 9 sample_keychain) 1070 = 2" by (simp add: periods_by_def)
  with t spending_rate_limited [of sample_host 2 sample_keychain 1 ?xs "[]" "[]" t 1070 9] show ?thesis
    by (auto simp: fork_defs saturating_to_u64_def)
qed

text \<open>C21: a one-time limit is a budget. For a token whose row has no period, what a series of charges
  takes and what remains afterwards add up to what remained before.\<close>

theorem one_time_limit_conserved:
  assumes "is_t3 (spec h)" "k \<noteq> 0" "enforce_limits (keys s a k)"
    and "spend_series h a k xs fs s = (Inr (), fs', t)" "period (limit_of h a k tok s) = 0"
  shows "spent_on tok xs + unat (remaining (limit_of h a k tok t)) = unat (remaining (limit_of h a k tok s))"
  using assms by (rule spend_series_exact)

definition one_time_keychain :: AccountKeychain where
  "one_time_keychain = put_limit (spending_limit_key sample_host 1 2) 9
     \<lparr>remaining = 60, max_limit = 100, period = 0, period_end = 0\<rparr> sample_keychain"

theorem one_time_limit_conserved_witness:
  "\<exists>t. spend_series sample_host 1 2 [(1000, 9, 25), (1070, 9, 35)] [] one_time_keychain = (Inr (), [], t)
   \<and> remaining (limit_of sample_host 1 2 9 t) = 0"
proof -
  let ?xs = "[(1000, 9, 25), (1070, 9, 35)] :: (u256 \<times> address \<times> u256) list"
  obtain t where t: "spend_series sample_host 1 2 ?xs [] one_time_keychain = (Inr (), [], t)"
    by (simp add: spend_series_def pc_then_def pc_bind_def verify_and_update_spending_run fork_defs
        charge_def roll_over_def saturating_to_u64_def key_active_def Let_def one_time_keychain_def)
  moreover have "spent_on 9 ?xs + unat (remaining (limit_of sample_host 1 2 9 t)) = 60"
    using one_time_limit_conserved [OF _ _ _ t, of 9] by (simp add: fork_defs one_time_keychain_def)
  ultimately show ?thesis by (simp add: spent_on_def word_unat_eq_iff)
qed

text \<open>C22: raising or lowering a limit takes effect at once. When the account owner sets a new limit of
  an active key, the key's limits are enforced from then on and the reported remaining amount is the new
  limit, whether or not a period has ended meanwhile.\<close>

theorem limit_update_takes_effect:
  assumes "is_t3 (spec h)" "k \<noteq> 0" "admin_ok h a s" "key_active (now h) (keys s a k)"
    and v: "v \<le> 0xFFFFFFFFFFFFFFFFFFFFFFFFFFFFFFFF"
  shows "\<exists>t. update_spending_limit h a k tok v [] s = (Inr (), [], t) \<and> enforce_limits (keys t a k)
    \<and> get_remaining_limit h a k tok [] t = (Inr v, [], t)"
proof -
  have t2: "is_t2 (spec h)" using assms(1) by (cases "spec h") (simp_all add: fork_defs)
  have "unat v < 2 ^ 128" using v by (simp add: word_le_nat_alt)
  then have "ucast (ucast v :: u128) = v"
    by (intro word_eq_unatI) (simp only: unat_ucast_u128, simp add: unsigned_ucast_eq take_bit_nat_eq_self)
  moreover have "key_active (now h) (key\<lparr>enforce_limits := True\<rparr>)" if "key_active (now h) key" for key
    using that by (simp add: key_active_def)
  ultimately show ?thesis
    using assms t2
    by (simp add: update_spending_limit_run get_remaining_limit_def get_remaining_limit_with_period_def
        pc_bind_def effective_limit_state_run roll_over_def)
qed

theorem limit_update_takes_effect_witness:
  "\<exists>t. update_spending_limit sample_host 1 2 9 500 [] (sample_keychain\<lparr>tx_origin := 1\<rparr>) = (Inr (), [], t)
    \<and> get_remaining_limit sample_host 1 2 9 [] t = (Inr 500, [], t)"
  using limit_update_takes_effect [of sample_host 2 1 "sample_keychain\<lparr>tx_origin := 1\<rparr>" 500 9]
  by (auto simp: fork_defs admin_ok_def)

text \<open>C23: a refund undoes a charge. When the session key of the running transaction has been charged an
  amount within a row that holds no more than its cap, refunding the amount restores the row to what it
  was at the start of the charge.\<close>

theorem refund_undoes_charge:
  assumes t3: "is_t3 (spec h)" and k: "transaction_key s \<noteq> 0" and a: "tx_origin s = a"
    and en: "enforce_limits (keys s a (transaction_key s))"
    and cap: "unat (remaining (limit_of h a (transaction_key s) tok s)) \<le> unat (max_limit (limit_of h a (transaction_key s) tok s))"
    and pos: "max_limit (limit_of h a (transaction_key s) tok s) \<noteq> 0"
    and run: "verify_and_update_spending h a (transaction_key s) tok amt fs s = (Inr (), fs', t)"
  shows "\<exists>u. refund_spending_limit h a tok amt [] t = (Inr (), [], u)
    \<and> limit_of h a (transaction_key s) tok u = roll_over (limit_of h a (transaction_key s) tok s) (now h)"
proof -
  let ?k = "transaction_key s" and ?row = "limit_of h a (transaction_key s) tok s"
  obtain row where row: "key_active (now h) (keys s a ?k)" "charge (now h) amt ?row = Some row"
    "t = add_event (AccessKeySpend a ?k tok amt (remaining row)) (put_limit (spending_limit_key h a ?k) tok row s)"
    using t3 k en run by (rule spending_SomeD)
  note facts = charge_SomeD [OF row(2)]
  have le: "unat (remaining (roll_over ?row (now h))) \<le> unat (max_limit ?row)"
    using cap by (simp add: roll_over_def)
  have big: "unat (max_limit ?row) \<le> 2 ^ 256 - 1"
    using unat_le_max [of "ucast (max_limit ?row) :: u256"] by simp
  have "sat_add (remaining row) amt = remaining (roll_over ?row (now h))"
    using facts(1) le big by (intro word_eq_unatI) (simp add: unat_sat_add)
  moreover have "min (remaining (roll_over ?row (now h))) (ucast (max_limit ?row)) = remaining (roll_over ?row (now h))"
    using le by (simp add: min_def word_le_nat_alt)
  moreover have "row\<lparr>remaining := remaining (roll_over ?row (now h))\<rparr> = roll_over ?row (now h)"
    using row(2) by (auto simp: charge_def Let_def split: if_splits)
  ultimately show ?thesis
    using t3 k a en row pos facts by (simp add: refund_spending_limit_run Let_def)
qed

theorem refund_undoes_charge_witness:
  "\<exists>t u. verify_and_update_spending sample_host 1 2 9 25 [] (sample_keychain\<lparr>transaction_key := 2, tx_origin := 1\<rparr>) = (Inr (), [], t)
    \<and> refund_spending_limit sample_host 1 9 25 [] t = (Inr (), [], u)
    \<and> remaining (limit_of sample_host 1 2 9 t) = 35 \<and> remaining (limit_of sample_host 1 2 9 u) = 60"
proof -
  let ?s = "sample_keychain\<lparr>transaction_key := 2, tx_origin := 1\<rparr>"
  obtain t where t: "verify_and_update_spending sample_host 1 2 9 25 [] ?s = (Inr (), [], t)"
      "remaining (limit_of sample_host 1 2 9 t) = 35"
    by (simp add: verify_and_update_spending_run fork_defs charge_def roll_over_def)
  then show ?thesis
    using refund_undoes_charge [of sample_host ?s 1 9 25 "[]" "[]" t] by (auto simp: fork_defs roll_over_def)
qed

end
