(* ===== verification/Keychain_Steps.thy ===== *)
theory Keychain_Steps
  imports Keychain_Spending
begin

text \<open>
  The keychain over time. A step relation collects everything that writes the keychain storage between
  genesis and a block: frames of the precompile with any sender, input, gas and storage failures, the
  transaction handler's writes of the transient slots, its charges of session keys, and the end of a
  transaction. The invariants and the security properties of session keys are stated over it.
\<close>

section \<open>Steps\<close>

text \<open>What happens to the keychain storage between genesis and some block: call frames of the precompile
  by any sender with any input, the handler's writes of the transient slots, charges of session keys, and
  the end of a transaction, which clears the transient slots. Blocks differ in their time; the hash function
  is that of the chain.\<close>

definition launch_host :: "(bytes \<Rightarrow> b256) \<Rightarrow> u256 \<Rightarrow> host" where
  "launch_host K ts = \<lparr>spec = SCI_LAUNCH_HARDFORK, timestamp = ts, keccak256 = K\<rparr>"

definition keychain_frame :: "host \<Rightarrow> u64 \<Rightarrow> (bytes \<Rightarrow> abi_error + IAccountKeychainCalls) \<Rightarrow> bool \<Rightarrow> bool \<Rightarrow>
    bytes \<Rightarrow> address \<Rightarrow> (AccountKeychain, kc_return precompile_output) run" where
  "keychain_frame h gas decode is_direct is_static calldata sender =
     evm_frame (sci_precompile is_direct (keychain_call h gas decode is_static calldata sender))"

inductive kc_step :: "(bytes \<Rightarrow> b256) \<Rightarrow> AccountKeychain \<Rightarrow> AccountKeychain \<Rightarrow> bool" for K where
  frame: "keychain_frame (launch_host K ts) gas decode is_direct is_static calldata sender fs s = (r, fs', t) \<Longrightarrow>
    kc_step K s t"
| seed: "pc_then (set_tx_origin origin) (set_transaction_key key) fs s = (Inr (), fs', t) \<Longrightarrow> kc_step K s t"
| spend: "verify_and_update_spending (launch_host K ts) a k tok amt fs s = (Inr (), fs', t) \<Longrightarrow> kc_step K s t"
| tx_end: "kc_step K s (s\<lparr>transaction_key := 0, tx_origin := 0\<rparr>)"

inductive_cases kc_step_elim: "kc_step K s t"

abbreviation kc_steps :: "(bytes \<Rightarrow> b256) \<Rightarrow> AccountKeychain \<Rightarrow> AccountKeychain \<Rightarrow> bool" where
  "kc_steps K \<equiv> (kc_step K)\<^sup>*\<^sup>*"

lemma launch_forks [simp]:
  "is_t0 T5" "is_t1 T5" "is_t2 T5" "is_t3 T5" "is_t4 T5" "is_t5 T5"
  "spec (launch_host K ts) = T5" "keccak256 (launch_host K ts) = K" "now (launch_host K ts) = saturating_to_u64 ts"
  by (simp_all add: launch_host_def SCI_LAUNCH_HARDFORK_def fork_defs now_def)

lemma run_keeps_call:
  assumes "\<And>c. run_keeps P (evm_frame (keychain_dispatch h is_static sender c))"
  shows "run_keeps P (keychain_frame h gas decode is_direct is_static calldata sender)"
proof -
  have "keychain_frame h gas decode is_direct is_static calldata sender fs s
      = evm_frame (keychain_dispatch h is_static sender c) fs s \<or>
      run_state (keychain_frame h gas decode is_direct is_static calldata sender) fs s = s"
    if "decode calldata = Inr c" for c fs s
    using that
    by (auto simp: keychain_frame_def evm_frame_def sci_precompile_def keychain_call_def metered_def
        dispatch_call_def run_state_def Let_def split: prod.splits option.splits)
  moreover have "run_state (keychain_frame h gas decode is_direct is_static calldata sender) fs s = s"
    if "decode calldata = Inl e" for e fs s
    using that
    by (auto simp: keychain_frame_def evm_frame_def sci_precompile_def keychain_call_def metered_def
        dispatch_call_def run_state_def Let_def split: prod.splits option.splits abi_error.splits)
  ultimately show ?thesis
    using assms unfolding run_keeps_def run_state_def by (cases "decode calldata") (auto, metis)
qed

text \<open>An invariant of the steps: kept by frames of every call, by the transient writes and by charges.\<close>

lemma kc_step_keeps:
  assumes step: "kc_step K s t" and P: "P s"
    and frames: "\<And>ts st a c. run_keeps P (evm_frame (keychain_dispatch (launch_host K ts) st a c))"
    and transient: "\<And>u k origin. P u \<Longrightarrow> P (u\<lparr>transaction_key := k, tx_origin := origin\<rparr>)"
    and spend: "\<And>ts a k tok amt. ok_keeps P (verify_and_update_spending (launch_host K ts) a k tok amt)"
  shows "P t"
  using step
proof cases
  case (frame ts gas decode is_direct is_static calldata sender fs r fs')
  have "run_keeps P (keychain_frame (launch_host K ts) gas decode is_direct is_static calldata sender)"
    by (rule run_keeps_call) (rule frames)
  from run_keepsD [OF this P, of fs] frame show ?thesis by (simp add: run_state_def)
next
  case (seed origin key fs fs')
  have "plain (pc_then (set_tx_origin origin) (set_transaction_key key))"
    unfolding set_tx_origin_def set_transaction_key_def by (intro pc_plain)
  from plainD [OF this seed] have "t = s\<lparr>transaction_key := key, tx_origin := origin\<rparr>"
    by (auto simp: set_tx_origin_def set_transaction_key_def)
  then show ?thesis using transient P by simp
next
  case (spend ts a k tok amt fs fs')
  then show ?thesis using ok_keepsD [OF assms(5) P] by blast
next
  case tx_end
  then show ?thesis using transient P by simp
qed

lemma kc_steps_keep:
  assumes "kc_steps K s t" "P s"
    and "\<And>ts st a c. run_keeps P (evm_frame (keychain_dispatch (launch_host K ts) st a c))"
    and "\<And>u k origin. P u \<Longrightarrow> P (u\<lparr>transaction_key := k, tx_origin := origin\<rparr>)"
    and "\<And>ts a k tok amt. ok_keeps P (verify_and_update_spending (launch_host K ts) a k tok amt)"
  shows "P t"
  using assms(1,2) by induction (auto intro: kc_step_keeps assms(3-5))

text \<open>What the administration calls keep whatever the accesses answer, frames keep as well.\<close>

lemma frame_keeps: "run_keeps P (keychain_dispatch h st a c) \<Longrightarrow> run_keeps P (evm_frame (keychain_dispatch h st a c))"
  by (rule run_keeps_evm_frame)

lemma spend_keeps:
  "ok_keeps (keys_evolve u) (verify_and_update_spending h a k tok amt)"
  "ok_keeps (burned b w) (verify_and_update_spending h a k tok amt)"
  "ok_keeps scopes_wf (verify_and_update_spending h a k tok amt)"
  unfolding verify_and_update_spending_def Let_def
  by (intro ok_keeps_if ok_keeps_bind ok_keeps_then ok_reads ok_keeps_keeps [OF pc_keeps_return]
      ok_keeps_keeps [OF pc_keeps_throw] ok_keeps_keeps [OF pc_keeps_read] ok_keeps_keeps [OF handles_evolve(7)]
      ok_keeps_keeps [OF limit_handles_evolve(1)] ok_keeps_keeps [OF limit_handles_evolve(2)]
      ok_keeps_keeps [OF handles_burned(8)] ok_keeps_keeps [OF limit_handles_burned(1)]
      ok_keeps_keeps [OF limit_handles_burned(2)] row_writes_ok)+

section \<open>Invariants of the reachable keychain\<close>

lemma empty_keychain_ok: "scopes_wf empty_keychain" "rows_ok empty_keychain"
  by (simp_all add: scopes_wf_def rows_ok_def empty_keychain_def row_ok_def default_limit_def)

text \<open>Resetting the transient slots changes none of the persistent predicates.\<close>

lemma transient_simps [simp]:
  "scopes_wf (s\<lparr>transaction_key := k, tx_origin := origin\<rparr>) = scopes_wf s"
  "rows_ok (s\<lparr>transaction_key := k, tx_origin := origin\<rparr>) = rows_ok s"
  "keys_evolve u (s\<lparr>transaction_key := k, tx_origin := origin\<rparr>) = keys_evolve u s"
  "burned a w (s\<lparr>transaction_key := k, tx_origin := origin\<rparr>) = burned a w s"
  by (simp_all add: scopes_wf_def rows_ok_def keys_evolve_def burned_def)

lemma steps_scopes_wf: "kc_steps K s t \<Longrightarrow> scopes_wf s \<Longrightarrow> scopes_wf t"
  by (erule kc_steps_keep) (simp_all add: keychain_frame_scopes_wf spend_keeps)

lemma steps_rows_ok: "kc_steps K s t \<Longrightarrow> rows_ok s \<Longrightarrow> rows_ok t"
  by (erule kc_steps_keep) (simp_all add: keychain_frame_rows_ok spending_rows_ok)

lemma steps_evolve: "kc_steps K s t \<Longrightarrow> keys_evolve s t"
  by (erule kc_steps_keep) (simp_all add: frame_keeps keychain_dispatch_evolves spend_keeps)

lemma steps_burned: "kc_steps K s t \<Longrightarrow> burned a w s \<Longrightarrow> burned a w t"
  by (erule kc_steps_keep) (simp_all add: frame_keeps keychain_dispatch_burned spend_keeps)

lemma steps_key_evolves: "kc_steps K s t \<Longrightarrow> key_evolves (keys s a k) (keys t a k)"
  using steps_evolve by (simp add: keys_evolve_def)

lemma burned_blocks_authorize:
  assumes "burned a w s" "is_t0 (spec h)"
  shows "\<nexists>x fs' t. authorize_key h a k sig config (Some w) fs s = (Inr x, fs', t)"
proof -
  have "wp (ensure_key_authorization_witness_not_burned a w) (\<lambda>_ _. False) (\<lambda>_ _. True) s"
    unfolding ensure_key_authorization_witness_not_burned_def witness_read_def
    by (intro wp_bind wp_read wp_if wp_throw) (use assms in \<open>simp_all add: burned_def\<close>)
  then have "wp (pc_then (ensure_key_authorization_witness_not_burned a w) n) (\<lambda>_ _. False) (\<lambda>_ _. True) s"
    for n :: "unit kc"
    by (intro wp_then, elim wp_mono) simp_all
  then have "wp (authorize_key h a k sig config (Some w)) (\<lambda>_ _. False) (\<lambda>_ _. True) s"
    unfolding authorize_key_def key_read_def option.case
    by (intro wp_reading wp_bind wp_if wp_throw wp_read) simp_all
  then show ?thesis by (blast dest: wpD)
qed

text \<open>C12: every keychain reached from genesis has well formed call scopes and no limit row above
  its cap, whatever calls, charges and storage failures led there.\<close>

theorem reachable_keychain_invariant:
  assumes "kc_steps K empty_keychain s"
  shows "scopes_wf s \<and> rows_ok s"
  using assms steps_scopes_wf steps_rows_ok empty_keychain_ok by blast

text \<open>C11: a revoked key is never active again. Whatever happens after a key's revocation, its row stays
  the revoked one: it is not active at any time, the account owner cannot authorize it again, and it
  cannot be charged.\<close>

theorem revoked_key_stays_dead:
  assumes "kc_steps K s t" "is_revoked (keys s a k)"
  shows "is_revoked (keys t a k) \<and> \<not> key_active now' (keys t a k)
    \<and> (\<forall>ts sig config w fs. \<nexists>x fs' u. authorize_key (launch_host K ts) a k sig config w fs t = (Inr x, fs', u))"
proof -
  have rev: "is_revoked (keys t a k)"
    using steps_key_evolves [OF assms(1), of a k] assms(2)
    by (auto simp: key_evolves_def fresh_key_def revoked_key_def)
  have "wp (authorize_key (launch_host K ts) a k sig config w) (\<lambda>_ _. False) (\<lambda>_ _. True) t" for ts sig config w
    unfolding authorize_key_def key_read_def
    by (intro wp_reading wp_bind wp_if wp_throw wp_read) (simp_all add: rev)
  then show ?thesis using rev by (auto simp: key_active_def dest!: wpD)
qed

definition revoked_keychain :: AccountKeychain where
  "revoked_keychain = empty_keychain\<lparr>keys := (\<lambda>_ _. default_key)(1 := (\<lambda>_. default_key)(2 := revoked_key))\<rparr>"

theorem revoked_key_stays_dead_witness:
  "\<exists>t. kc_steps be_word revoked_keychain t \<and> tx_origin t = 1 \<and> is_revoked (keys t 1 2) \<and> \<not> key_active 0 (keys t 1 2)"
proof -
  let ?t = "revoked_keychain\<lparr>transaction_key := 0, tx_origin := 1\<rparr>"
  have "kc_steps be_word revoked_keychain ?t"
    by (intro r_into_rtranclp kc_step.seed [where origin = 1 and key = 0 and fs = "[]" and fs' = "[]"])
      (simp add: set_tx_origin_def set_transaction_key_def)
  moreover have "is_revoked (keys revoked_keychain 1 2)" by (simp add: revoked_keychain_def revoked_key_def)
  ultimately show ?thesis using revoked_key_stays_dead [of be_word revoked_keychain ?t 1 2 0] by auto
qed

text \<open>C19: the terms of an authorized key are fixed. After any number of steps a registered, unrevoked key
  is either revoked or has the same signature type and expiry, and its limits are still enforced if they
  were.\<close>

theorem key_terms_fixed:
  assumes "kc_steps K s t" "expiry (keys s a k) \<noteq> 0" "\<not> is_revoked (keys s a k)"
  shows "is_revoked (keys t a k) \<or> (expiry (keys t a k) = expiry (keys s a k)
    \<and> signature_type (keys t a k) = signature_type (keys s a k)
    \<and> (enforce_limits (keys s a k) \<longrightarrow> enforce_limits (keys t a k)))"
  using steps_key_evolves [OF assms(1), of a k] assms(2,3)
  by (auto simp: key_evolves_def fresh_key_def revoked_key_def)

theorem key_terms_fixed_witness:
  "\<exists>t. kc_steps be_word sample_keychain t \<and> tx_origin t = 1
    \<and> (is_revoked (keys t 1 2) \<or> (expiry (keys t 1 2) = 5000 \<and> enforce_limits (keys t 1 2)))"
proof -
  let ?t = "sample_keychain\<lparr>transaction_key := 0, tx_origin := 1\<rparr>"
  have "kc_steps be_word sample_keychain ?t"
    by (intro r_into_rtranclp kc_step.seed [where origin = 1 and key = 0 and fs = "[]" and fs' = "[]"])
      (simp add: set_tx_origin_def set_transaction_key_def)
  then show ?thesis using key_terms_fixed [of be_word sample_keychain ?t 1 2] by auto
qed

text \<open>C20: a burned authorization witness can never be used. Once an account has burned a witness, no later
  authorization of the account that carries it succeeds.\<close>

theorem burned_witness_unusable:
  assumes "kc_steps K s t" "key_authorization_witnesses s a w"
  shows "\<nexists>x fs' u. authorize_key (launch_host K ts) a k sig config (Some w) fs t = (Inr x, fs', u)"
  using burned_blocks_authorize [of a w t "launch_host K ts"] steps_burned [OF assms(1), of a w] assms(2)
  by (simp add: burned_def fork_defs)

theorem burned_witness_unusable_witness:
  "\<nexists>x fs' u. authorize_key (launch_host be_word 0) 1 2 P256 (legacy_restrictions 10 False []) (Some 7) []
     (empty_keychain\<lparr>key_authorization_witnesses := (\<lambda>_ w. w = 7)\<rparr>) = (Inr x, fs', u)"
  by (rule burned_witness_unusable [OF rtranclp.rtrancl_refl]) simp

section \<open>Who may change the rules\<close>

definition kc_frame_step :: "host \<Rightarrow> AccountKeychain \<Rightarrow> AccountKeychain \<Rightarrow> bool" where
  "kc_frame_step h s t \<longleftrightarrow> (\<exists>gas decode is_direct is_static calldata sender fs r fs'.
     keychain_frame h gas decode is_direct is_static calldata sender fs s = (r, fs', t))"

lemma frame_confined: "run_keeps (confined h a s) (keychain_frame h gas decode is_direct st calldata a)"
  by (rule run_keeps_call) (rule frame_keeps [OF keychain_dispatch_confined])

lemma frame_gated:
  "\<not> admin_ok h a s \<Longrightarrow> run_keeps (policy_fixed s) (keychain_frame h gas decode is_direct st calldata a)"
  by (rule run_keeps_call) (rule frame_keeps [OF keychain_dispatch_gated])

lemma policy_neqI: "keys t a k \<noteq> keys s a k \<Longrightarrow> policy t \<noteq> policy s"
  by (auto simp: policy_def)

lemma run_keeps_result: "run_keeps P f \<Longrightarrow> P s \<Longrightarrow> f fs s = (r, fs', t) \<Longrightarrow> P t"
  using run_keepsD [of P f s fs] by (simp add: run_state_def)

lemma frames_policy_fixed:
  assumes "(kc_frame_step h)\<^sup>*\<^sup>* s t" "transaction_key s \<noteq> 0"
  shows "policy_fixed s t"
  using assms(1)
proof induction
  case (step t u)
  then have "\<not> admin_ok h a t" for a using assms(2) by (simp add: policy_fixed_def admin_ok_def)
  then have "policy_fixed t u"
    using step(2) frame_gated by (auto simp: kc_frame_step_def elim!: run_keeps_result [rotated 2])
  then show ?case using step.IH by (simp add: policy_fixed_def)
qed simp

text \<open>C7: a session key cannot loosen its own leash. While a transaction runs under a session key, no
  sequence of calls into the keychain, by any contract with any input, changes a key, a limit or a call
  scope, or the identity the transaction runs under.\<close>

theorem session_key_cannot_change_policy:
  assumes "(kc_frame_step h)\<^sup>*\<^sup>* s t" "transaction_key s \<noteq> 0"
  shows "keys t = keys s \<and> spending_limits t = spending_limits s \<and> key_scopes t = key_scopes s
    \<and> transaction_key t = transaction_key s \<and> tx_origin t = tx_origin s"
  using frames_policy_fixed [OF assms] by (simp add: policy_fixed_def policy_def)

theorem session_key_cannot_change_policy_witness:
  "\<exists>t. (kc_frame_step sample_host)\<^sup>*\<^sup>* (sample_keychain\<lparr>transaction_key := 2, tx_origin := 1\<rparr>) t \<and> keys t 1 2 = keys sample_keychain 1 2"
proof -
  let ?s = "sample_keychain\<lparr>transaction_key := 2, tx_origin := 1\<rparr>"
  obtain t where "kc_frame_step sample_host ?s t"
    unfolding kc_frame_step_def by (metis prod.collapse)
  then have "(kc_frame_step sample_host)\<^sup>*\<^sup>* ?s t" by blast
  then show ?thesis using session_key_cannot_change_policy [of sample_host ?s t] by auto
qed

text \<open>C8: only the owner administers an account. A call frame that changes any key, limit or scope was sent
  by the origin of a transaction that runs under no session key, and it touches nothing outside the
  sender's own rows.\<close>

theorem only_owner_changes_policy:
  assumes "is_t2 (spec h)"
    and "keychain_frame h gas decode is_direct is_static calldata sender fs s = (r, fs', t)"
    and "policy t \<noteq> policy s"
  shows "transaction_key s = 0 \<and> tx_origin s = sender \<and> sender \<noteq> 0
    \<and> (\<forall>b. b \<noteq> sender \<longrightarrow> keys t b = keys s b)
    \<and> (\<forall>lk. lk \<notin> range (spending_limit_key h sender) \<longrightarrow>
         spending_limits t lk = spending_limits s lk \<and> key_scopes t lk = key_scopes s lk)"
proof -
  have "admin_ok h sender s"
    using run_keeps_result [OF frame_gated _ assms(2), of s] assms(3) by (auto simp: policy_fixed_def)
  moreover have "confined h sender s t"
    using run_keeps_result [OF frame_confined _ assms(2), of s] by simp
  ultimately show ?thesis using assms(1) by (auto simp: admin_ok_def confined_def)
qed

section \<open>Which calls get through\<close>

lemma charge_input_cost_enough:
  assumes "input_cost (length calldata) \<le> unat gas"
  shows "fst (charge_input_cost (tracker_new gas gas 0) calldata) = None"
proof -
  have "input_cost (length calldata) < 2 ^ 64" by (simp add: input_cost_def min_less_iff_disj)
  then have "unat (of_nat (input_cost (length calldata)) :: u64) = input_cost (length calldata)"
    by (simp add: unsigned_of_nat take_bit_nat_eq_self)
  with assms have "\<not> gas < of_nat (input_cost (length calldata))" by (simp add: word_less_nat_alt)
  then show ?thesis
    by (simp add: charge_input_cost_def deduct_gas_def record_regular_cost_def tracker_new_def Let_def)
qed

lemma frame_dispatches:
  assumes "input_cost (length calldata) \<le> unat gas" "4 \<le> length calldata" "decode calldata = Inr c"
    and "\<not> (\<exists>sch \<in> set keychain_schedule. rejects sch (input_selector calldata) (spec h))"
  shows "keychain_frame h gas decode True st calldata sender = evm_frame (keychain_dispatch h st sender c)"
  using assms
  by (simp add: keychain_frame_def sci_precompile_def keychain_call_def metered_def charge_input_cost_enough
      dispatch_call_def Let_def not_less)

lemma launch_rejects:
  "(\<exists>sch \<in> set keychain_schedule. rejects sch sel T5) \<longleftrightarrow> sel = 0x63b4290d"
  by (simp add: keychain_schedule_def rejects_def T3_DROPPED_def less_eq_TempoHardfork_def)

text \<open>C24: the method table at launch. A direct call with enough gas for its input runs the method it decodes
  to, with two exceptions: the pre-T3 getter \<open>getRemainingLimit\<close> is unknown, and the pre-T3
  \<open>authorizeKey\<close> reverts with the selector to use instead.\<close>

theorem launch_method_table:
  assumes "input_cost (length calldata) \<le> unat gas" "4 \<le> length calldata" "decode calldata = Inr c"
    and "input_selector calldata = call_selector c"
  shows "keychain_frame (launch_host K ts) gas decode True st calldata sender fs s =
    (case c of
       getRemainingLimit _ _ _ \<Rightarrow> (Revert (RevertError (UnknownFunctionSelector 0x63b4290d)), fs, s)
     | authorizeKey_0 _ _ _ _ _ \<Rightarrow>
         (Revert (RevertError (AccountKeychainError (LegacyAuthorizeKeySelectorChanged AUTHORIZE_KEY_SELECTOR))), fs, s)
     | _ \<Rightarrow> evm_frame (keychain_dispatch (launch_host K ts) st sender c) fs s)"
proof (cases "\<exists>a k tok. c = getRemainingLimit a k tok")
  case True
  then have "input_selector calldata = 0x63b4290d" unfolding assms(4) by auto
  moreover have rej: "\<exists>sch \<in> set keychain_schedule. rejects sch 0x63b4290d T5" by (simp only: launch_rejects)
  ultimately show ?thesis
    using True assms(1-3)
    by (auto simp only: split: IAccountKeychainCalls.split)
      (simp_all add: rej keychain_frame_def sci_precompile_def keychain_call_def metered_def charge_input_cost_enough
        dispatch_call_def Let_def not_less evm_frame_def)
next
  case False
  then have "call_selector c \<noteq> 0x63b4290d"
    by (cases c) (simp_all add: AUTHORIZE_KEY_SELECTOR_def AUTHORIZE_KEY_WITNESS_SELECTOR_def)
  then have "\<not> (\<exists>sch \<in> set keychain_schedule. rejects sch (input_selector calldata) (spec (launch_host K ts)))"
    unfolding launch_forks launch_rejects assms(4) .
  from frame_dispatches [of calldata gas decode c, OF assms(1-3) this] False show ?thesis
    by (cases c) (simp_all add: evm_frame_def)
qed

text \<open>A call of \<open>revokeKey\<close>, its decoding given.\<close>

definition revoke_input :: bytes where "revoke_input = [0x5a, 0xe7, 0xab, 0x32]"

lemma revoke_input_facts:
  "length revoke_input = 4" "input_selector revoke_input = 0x5ae7ab32"
  by code_simp+

lemma revoke_sample_run:
  "keychain_frame (launch_host be_word 1000) 1000 (\<lambda>_. Inr (revokeKey 2)) True False revoke_input 1 []
      (sample_keychain\<lparr>tx_origin := 1\<rparr>) = (Success RetUnit, [], add_event (KeyRevoked 1 2)
      (sample_keychain\<lparr>tx_origin := 1, keys := (keys sample_keychain)(1 := (keys sample_keychain 1)(2 := revoked_key))\<rparr>))"
proof -
  have "revoke_key (launch_host be_word 1000) 1 2 [] (sample_keychain\<lparr>tx_origin := 1\<rparr>) = (Inr (), [], add_event (KeyRevoked 1 2)
      (sample_keychain\<lparr>tx_origin := 1, keys := (keys sample_keychain)(1 := (keys sample_keychain 1)(2 := revoked_key))\<rparr>))"
    by (simp add: revoke_key_def pc_then_Inr ensure_admin_caller_run admin_ok_def key_read_def key_write_def
        emit_event_def add_event_def revoked_key_def)
  moreover have "\<not> (\<exists>sch \<in> set keychain_schedule. rejects sch (input_selector revoke_input) (spec (launch_host be_word 1000)))"
    unfolding launch_forks launch_rejects revoke_input_facts by simp
  ultimately show ?thesis
    by (subst frame_dispatches [of _ _ _ "revokeKey 2"])
      (simp_all add: input_cost_def INPUT_PER_WORD_COST_def revoke_input_facts evm_frame_def mutate_void_def
        into_precompile_result_def)
qed

theorem launch_method_table_witness:
  "evm_frame (keychain_dispatch (launch_host be_word 1000) False 1 (revokeKey 2)) [] (sample_keychain\<lparr>tx_origin := 1\<rparr>)
   = keychain_frame (launch_host be_word 1000) 1000 (\<lambda>_. Inr (revokeKey 2)) True False revoke_input 1 []
      (sample_keychain\<lparr>tx_origin := 1\<rparr>)"
  by (subst launch_method_table [of _ _ _ "revokeKey 2"])
    (simp_all add: input_cost_def INPUT_PER_WORD_COST_def revoke_input_facts)

theorem only_owner_changes_policy_witness:
  "\<exists>t. keychain_frame (launch_host be_word 1000) 1000 (\<lambda>_. Inr (revokeKey 2)) True False revoke_input 1 []
      (sample_keychain\<lparr>tx_origin := 1\<rparr>) = (Success RetUnit, [], t)
    \<and> is_revoked (keys t 1 2) \<and> (\<forall>b. b \<noteq> 1 \<longrightarrow> keys t b = keys sample_keychain b)"
proof -
  let ?t = "add_event (KeyRevoked 1 2)
      (sample_keychain\<lparr>tx_origin := 1, keys := (keys sample_keychain)(1 := (keys sample_keychain 1)(2 := revoked_key))\<rparr>)"
  have "is_revoked (keys ?t 1 2)" by (simp add: revoked_key_def)
  moreover have "\<not> is_revoked (keys (sample_keychain\<lparr>tx_origin := 1\<rparr>) 1 2)" by simp
  ultimately have "policy ?t \<noteq> policy (sample_keychain\<lparr>tx_origin := 1\<rparr>)"
    by (intro policy_neqI [of _ 1 2]) metis
  with \<open>is_revoked (keys ?t 1 2)\<close> show ?thesis
    using only_owner_changes_policy [OF _ revoke_sample_run] revoke_sample_run by auto
qed

section \<open>Authorization and call scopes\<close>

text \<open>C15: what \<open>authorizeKey\<close> accepts and leaves. On a well formed keychain, with rules that fit the
  capacity of storage sets, it succeeds exactly for the owner, a fresh key, a future expiry, a known
  signature type, distinct tokens with limits of at most 128 bits, valid call rules and an unburned witness;
  it then leaves the key's row, its limit rows and its call rules as requested and nothing else changed.\<close>

theorem authorize_key_decides:
  assumes "is_t4 (spec h)" "scopes_wf s" "allowAnyCalls config \<or> scopes_fit 0 (allowedCalls config)"
  shows "\<exists>r t. authorize_key h a k sig config w [] s = (r, [], t)
    \<and> (r = Inr () \<longleftrightarrow> acceptable h a k sig config w s)
    \<and> (r = Inr () \<longrightarrow> authorized h a k sig config s t)"
  using runs_authorize_key [OF assms(1) _ assms(3), of s a k sig w] assms(2)
  by (auto simp: scopes_wf_def elim!: runs_elim)

definition sample_restrictions :: KeyRestrictions where
  "sample_restrictions = \<lparr>restr_expiry = 5000, enforceLimits = True,
     limits = [\<lparr>token = 9, amount = 100, limit_period = 50\<rparr>], allowAnyCalls = False,
     allowedCalls = [\<lparr>target = 9, selectorRules = [\<lparr>rule_selector = TIP20_TRANSFER_SELECTOR, rule_recipients = [5]\<rparr>]\<rparr>]\<rparr>"

lemma sample_restrictions_fit: "scopes_fit 0 (allowedCalls sample_restrictions)"
  by (simp add: sample_restrictions_def scopes_fit_def rules_fit_def max_index_def)

theorem authorize_key_decides_witness:
  "\<exists>t. authorize_key sample_host 1 2 P256 sample_restrictions None [] (empty_keychain\<lparr>tx_origin := 1\<rparr>) = (Inr (), [], t)
    \<and> keys t 1 2 = \<lparr>signature_type = 1, expiry = 5000, enforce_limits = True, is_revoked = False\<rparr>"
proof -
  let ?s = "empty_keychain\<lparr>tx_origin := 1\<rparr>"
  have acc: "acceptable sample_host 1 2 P256 sample_restrictions None ?s"
    by (simp add: acceptable_def admin_ok_def fresh_key_def empty_keychain_def default_key_def
        sample_restrictions_def valid_scope_def valid_rules_def is_constrained_tip20_selector_def
        TIP20_TRANSFER_SELECTOR_def)
  show ?thesis
    using authorize_key_decides [of sample_host ?s sample_restrictions 1 2 P256 None] acc sample_restrictions_fit
    by (auto simp: empty_keychain_ok [unfolded scopes_wf_def] scopes_wf_def authorized_def fresh_row_def
        sample_restrictions_def)
qed

text \<open>C10: what is enforced is what is reported. In a reachable keychain, the scope check of a session key's
  call accepts it exactly when the rules that \<open>getAllowedCalls\<close> reports for the active key permit it, and
  it never accepts the creation of a contract.\<close>

theorem reported_rules_are_enforced:
  assumes "kc_steps K empty_keychain s" "k \<noteq> 0" "key_active (saturating_to_u64 ts) (keys s a k)"
  shows "\<exists>v. get_allowed_calls (launch_host K ts) a k [] s = (Inr v, [], s)
    \<and> (\<forall>tgt input. validate_call_scope_for_transaction (launch_host K ts) a k (Call tgt) input [] s =
         (if call_permitted v tgt input then Inr () else Inl (AccountKeychainError CallNotAllowed), [], s))
    \<and> (\<forall>input. validate_call_scope_for_transaction (launch_host K ts) a k Create input [] s =
         (Inl (AccountKeychainError CallNotAllowed), [], s))"
proof -
  let ?h = "launch_host K ts"
  have wf: "scope_wf (key_scopes s (spending_limit_key ?h a k))"
    using steps_scopes_wf [OF assms(1) empty_keychain_ok(1)] by (simp add: scopes_wf_def)
  have "call_permitted (if is_scoped ks then scope_view ks else (False, [])) tgt input
      = call_permitted (scope_view ks) tgt input" for ks tgt input
    by (simp add: call_permitted_def scope_view_def)
  then show ?thesis
    using assms(2,3) wf
    by (simp add: get_allowed_calls_run validate_call_scope_for_transaction_run)
      (simp add: validate_call_scope_for_transaction_def)
qed

text \<open>A keychain reached from genesis by an authorization of key 2 by account 1.\<close>

definition authorize_input :: bytes where "authorize_input = [0x98, 0x0a, 0x60, 0x25]"

lemma authorize_input_facts:
  "length authorize_input = 4" "input_selector authorize_input = 0x980a6025"
  by code_simp+

lemma sample_acceptable:
  "acceptable (launch_host be_word 1000) 1 2 P256 sample_restrictions None (empty_keychain\<lparr>transaction_key := 0, tx_origin := 1\<rparr>)"
  by (simp add: acceptable_def admin_ok_def fresh_key_def empty_keychain_def default_key_def
      sample_restrictions_def valid_scope_def valid_rules_def is_constrained_tip20_selector_def
      TIP20_TRANSFER_SELECTOR_def saturating_to_u64_def)

lemma sample_reachable:
  obtains s where "kc_steps be_word empty_keychain s" "key_active 1000 (keys s 1 2)"
    "scope_view (key_scopes s (spending_limit_key (launch_host be_word 1000) 1 2)) = (True, allowedCalls sample_restrictions)"
    "transaction_key s = 0" "tx_origin s = 1" "scopes_wf s" "keys s 1 2 = fresh_row P256 sample_restrictions"
    "limit_of (launch_host be_word 1000) 1 2 9 s = \<lparr>remaining = 100, max_limit = 100, period = 50, period_end = 1050\<rparr>"
proof -
  let ?h = "launch_host be_word 1000" and ?s = "empty_keychain\<lparr>transaction_key := 0, tx_origin := 1\<rparr>"
  let ?decode = "\<lambda>_ :: bytes. Inr (authorizeKey_1 2 P256 sample_restrictions)"
  have seed: "kc_step be_word empty_keychain ?s"
    by (rule kc_step.seed [where origin = 1 and key = 0 and fs = "[]" and fs' = "[]"])
      (simp add: set_tx_origin_def set_transaction_key_def)
  have "runs (authorize_key ?h 1 2 P256 sample_restrictions None)
      (\<lambda>_ t. acceptable ?h 1 2 P256 sample_restrictions None ?s \<and> authorized ?h 1 2 P256 sample_restrictions ?s t)
      (\<lambda>_ _. \<not> acceptable ?h 1 2 P256 sample_restrictions None ?s) ?s"
    using sample_restrictions_fit empty_keychain_ok(1)
    by (intro runs_authorize_key) (simp_all add: scopes_wf_def)
  then obtain t where t: "authorize_key ?h 1 2 P256 sample_restrictions None [] ?s = (Inr (), [], t)"
      "authorized ?h 1 2 P256 sample_restrictions ?s t"
    using sample_acceptable by (auto elim!: runs_elim)
  have "\<not> (\<exists>sch \<in> set keychain_schedule. rejects sch (input_selector authorize_input) (spec ?h))"
    unfolding launch_forks launch_rejects authorize_input_facts by simp
  then have "keychain_frame ?h 1000 ?decode True False authorize_input 1 [] ?s = (Success RetUnit, [], t)"
    using t(1) by (subst frame_dispatches [of _ _ _ "authorizeKey_1 2 P256 sample_restrictions"])
      (simp_all add: input_cost_def INPUT_PER_WORD_COST_def authorize_input_facts evm_frame_def mutate_void_def
        into_precompile_result_def)
  with seed have "kc_steps be_word empty_keychain t" by (meson kc_step.frame r_into_rtranclp rtranclp.rtrancl_into_rtrancl)
  moreover from this have "scopes_wf t" by (rule steps_scopes_wf) (rule empty_keychain_ok)
  moreover have "key_active 1000 (fresh_row P256 sample_restrictions)"
    by (simp add: key_active_def fresh_row_def sample_restrictions_def)
  ultimately show thesis
    using t(2) that [of t]
    by (auto simp: authorized_def authorized_rules_def authorized_limits_def sample_restrictions_def put_limits_def
        limit_row_def saturating_to_u64_def sat_add_def)
qed

theorem reported_rules_are_enforced_witness:
  "\<exists>s. kc_steps be_word empty_keychain s
    \<and> get_allowed_calls (launch_host be_word 1000) 1 2 [] s = (Inr (True, allowedCalls sample_restrictions), [], s)
    \<and> validate_call_scope_for_transaction (launch_host be_word 1000) 1 2 (Call 8) [] [] s
        = (Inl (AccountKeychainError CallNotAllowed), [], s)"
proof -
  obtain s where s: "kc_steps be_word empty_keychain s" "key_active 1000 (keys s 1 2)" "scopes_wf s"
    "scope_view (key_scopes s (spending_limit_key (launch_host be_word 1000) 1 2)) = (True, allowedCalls sample_restrictions)"
    by (rule sample_reachable)
  have "is_scoped (key_scopes s (spending_limit_key (launch_host be_word 1000) 1 2))"
    using s(4) by (simp add: scope_view_def)
  then have "get_allowed_calls (launch_host be_word 1000) 1 2 [] s = (Inr (True, allowedCalls sample_restrictions), [], s)"
    using s by (subst get_allowed_calls_run) (simp_all add: scopes_wf_def saturating_to_u64_def)
  moreover have "\<not> call_permitted (True, allowedCalls sample_restrictions) 8 []"
    by (simp add: call_permitted_def sample_restrictions_def)
  ultimately show ?thesis
    using reported_rules_are_enforced [OF s(1), of 2 1000 1] s(1,2) by (auto simp: saturating_to_u64_def)
qed

text \<open>What updating a list of rules does to the calls it permits.\<close>

lemma upsert_scope_permits:
  assumes "distinct (map target cs)"
  shows "(\<exists>d \<in> set (upsert_scope c cs). target d = tgt \<and> P d) \<longleftrightarrow>
    (if tgt = target c then P c else \<exists>d \<in> set cs. target d = tgt \<and> P d)"
  by (auto simp: upsert_scope_def image_iff) (rule bexI [of _ c], auto)

lemma upsert_scope_targets: "distinct (map target cs) \<Longrightarrow> distinct (map target (upsert_scope c cs))"
proof -
  have same: "map target (map (\<lambda>d. if target d = target c then c else d) cs) = map target cs" by simp
  then show "distinct (map target cs) \<Longrightarrow> ?thesis"
    by (auto simp: upsert_scope_def simp del: map_map)
qed

lemma fold_upsert_permits:
  assumes "distinct (map target cs)" "distinct (map target ds)"
  shows "(\<exists>d \<in> set (fold upsert_scope ds cs). target d = tgt \<and> P d) \<longleftrightarrow>
    (if tgt \<in> target ` set ds then \<exists>d \<in> set ds. target d = tgt \<and> P d else \<exists>d \<in> set cs. target d = tgt \<and> P d)"
  using assms
proof (induction ds arbitrary: cs)
  case (Cons c ds)
  then show ?case
    using Cons.IH [of "upsert_scope c cs"] by (auto simp: upsert_scope_targets upsert_scope_permits image_iff)
qed simp

text \<open>C17: rules set for a target are the rules enforced for it. After a successful \<open>setAllowedCalls\<close>, a
  session key's call to a listed target passes exactly when the new rules for that target permit it; every
  other target keeps exactly the rules it had, so a key that was unrestricted may call only what was listed.\<close>

theorem set_rules_are_enforced:
  assumes "is_t4 (spec h)" "scopes_wf s" "k \<noteq> 0" "admin_ok h a s" "key_active (now h) (keys s a k)"
    and "cs \<noteq> []" "distinct (map target cs)" "\<forall>c \<in> set cs. valid_scope c"
    and "scopes_fit (length (scopes_view (key_scopes s (spending_limit_key h a k)))) cs"
  shows "\<exists>t. set_allowed_calls h a k cs [] s = (Inr (), [], t)
    \<and> (\<forall>tgt input. validate_call_scope_for_transaction h a k (Call tgt) input [] t =
         (if \<exists>c \<in> set (if tgt \<in> target ` set cs then cs else scopes_view (key_scopes s (spending_limit_key h a k))).
               target c = tgt \<and> rules_permit (selectorRules c) input
          then Inr () else Inl (AccountKeychainError CallNotAllowed), [], t))"
proof -
  let ?kh = "spending_limit_key h a k"
  have wf: "scope_wf (key_scopes s ?kh)" using assms(2) by (simp add: scopes_wf_def)
  obtain ks' where t: "set_allowed_calls h a k cs [] s = (Inr (), [], scope_put ?kh ks' s)" "scope_wf ks'"
      "scope_view ks' = (True, fold upsert_scope cs (scopes_view (key_scopes s ?kh)))"
    using assms(1) wf assms(4-9) by (rule set_allowed_calls_effect)
  have "distinct (map target (scopes_view (key_scopes s ?kh)))"
    using wf by (simp add: scopes_view_targets scope_wf_def set_wf_distinct)
  then have perm: "call_permitted (scope_view ks') tgt input \<longleftrightarrow>
      (\<exists>c \<in> set (if tgt \<in> target ` set cs then cs else scopes_view (key_scopes s ?kh)).
         target c = tgt \<and> rules_permit (selectorRules c) input)" for tgt input
    unfolding call_permitted_def t(3) using fold_upsert_permits [OF _ assms(7)] by simp
  have "validate_call_scope_for_transaction h a k (Call tgt) input [] (scope_put ?kh ks' s) =
      (if call_permitted (scope_view ks') tgt input then Inr () else Inl (AccountKeychainError CallNotAllowed),
       [], scope_put ?kh ks' s)" for tgt input
    using validate_call_scope_for_transaction_run [of "scope_put ?kh ks' s" h a k] assms(1,3) t(2) by (simp add: t4_t3)
  then show ?thesis unfolding perm using t(1) by blast
qed

theorem set_rules_are_enforced_witness:
  "\<exists>t. set_allowed_calls sample_host 1 2 [\<lparr>target = 9, selectorRules = []\<rparr>] [] (sample_keychain\<lparr>tx_origin := 1\<rparr>) = (Inr (), [], t)
    \<and> validate_call_scope_for_transaction sample_host 1 2 (Call 9) [] [] t = (Inr (), [], t)
    \<and> validate_call_scope_for_transaction sample_host 1 2 (Call 8) [] [] t
        = (Inl (AccountKeychainError CallNotAllowed), [], t)"
proof -
  let ?s = "sample_keychain\<lparr>tx_origin := 1\<rparr>" and ?cs = "[\<lparr>target = 9, selectorRules = []\<rparr>]"
  have scopes: "key_scopes sample_keychain = (\<lambda>_. default_key_scope)"
    by (simp add: sample_keychain_def empty_keychain_def)
  have "scopes_wf ?s" by (simp add: scopes_wf_def scopes)
  then show ?thesis
    using set_rules_are_enforced [of sample_host ?s 2 1 ?cs]
    by (auto simp: scopes admin_ok_def valid_scope_def valid_rules_def scopes_fit_def rules_fit_def max_index_def rules_permit_def)
qed

text \<open>C18: removing a target denies it. After \<open>removeAllowedCalls\<close> on a scoped key every call to the target
  is refused, even when no target is left, and no other target gains or loses a permitted call. Of the state only the scope
  of this key changes: of its rules exactly those of the target are gone, and it stays scoped.\<close>

theorem removed_target_is_denied:
  assumes "is_t3 (spec h)" "scopes_wf s" "k \<noteq> 0" "admin_ok h a s" "key_active (now h) (keys s a k)"
    and scoped: "is_scoped (key_scopes s (spending_limit_key h a k))"
  shows "\<exists>ks' t. remove_allowed_calls h a k tgt [] s = (Inr (), [], t)
    \<and> t = s\<lparr>key_scopes := (key_scopes s)(spending_limit_key h a k := ks')\<rparr> \<and> is_scoped ks'
    \<and> set (scopes_view ks') = {c \<in> set (scopes_view (key_scopes s (spending_limit_key h a k))). target c \<noteq> tgt}
    \<and> (\<forall>tgt' input. validate_call_scope_for_transaction h a k (Call tgt') input [] t =
         (if tgt' \<noteq> tgt \<and> call_permitted (scope_view (key_scopes s (spending_limit_key h a k))) tgt' input
          then Inr () else Inl (AccountKeychainError CallNotAllowed), [], t))"
proof -
  let ?kh = "spending_limit_key h a k"
  have wf: "scope_wf (key_scopes s ?kh)" using assms(2) by (simp add: scopes_wf_def)
  have "runs (remove_target_scope ?kh tgt) (\<lambda>_ t. \<exists>ks'. t = scope_put ?kh ks' s \<and> scope_wf ks' \<and> is_scoped ks'
      \<and> set (scopes_view ks') = {c \<in> set (scopes_view (key_scopes s ?kh)). target c \<noteq> tgt}) (\<lambda>_ _. False) s"
    using wf scoped by (intro runs_remove_target_scope) auto
  then obtain ks' where t: "remove_target_scope ?kh tgt [] s = (Inr (), [], scope_put ?kh ks' s)" "scope_wf ks'"
      "is_scoped ks'" "set (scopes_view ks') = {c \<in> set (scopes_view (key_scopes s ?kh)). target c \<noteq> tgt}"
    by (auto elim!: runs_elim)
  have "remove_allowed_calls h a k tgt [] s = (Inr (), [], scope_put ?kh ks' s)"
    using assms t(1)
    by (simp add: remove_allowed_calls_def Let_def pc_then_Inr pc_bind_Inr ensure_admin_caller_run load_active_key_run
        is_scoped_read_def)
  moreover have "validate_call_scope_for_transaction h a k (Call tgt') input [] (scope_put ?kh ks' s) =
      (if call_permitted (scope_view ks') tgt' input then Inr () else Inl (AccountKeychainError CallNotAllowed),
       [], scope_put ?kh ks' s)" for tgt' input
    using validate_call_scope_for_transaction_run [of "scope_put ?kh ks' s" h a k] assms(1,3) t(2) by simp
  moreover have "call_permitted (scope_view ks') tgt' input \<longleftrightarrow>
      tgt' \<noteq> tgt \<and> call_permitted (scope_view (key_scopes s ?kh)) tgt' input" for tgt' input
    using t(3,4) scoped by (auto simp: call_permitted_def scope_view_def)
  ultimately show ?thesis
    using t(3,4) by (intro exI [of _ ks'] exI [of _ "scope_put ?kh ks' s"]) (simp add: scope_put_def)
qed

theorem removed_target_is_denied_witness:
  "\<exists>s t. kc_steps be_word empty_keychain s
    \<and> remove_allowed_calls (launch_host be_word 1000) 1 2 9 [] s = (Inr (), [], t)
    \<and> validate_call_scope_for_transaction (launch_host be_word 1000) 1 2 (Call 9) [] [] t
        = (Inl (AccountKeychainError CallNotAllowed), [], t)"
proof -
  obtain s where s: "kc_steps be_word empty_keychain s" "key_active 1000 (keys s 1 2)" "scopes_wf s"
    "transaction_key s = 0" "tx_origin s = 1"
    "scope_view (key_scopes s (spending_limit_key (launch_host be_word 1000) 1 2)) = (True, allowedCalls sample_restrictions)"
    by (rule sample_reachable)
  have "is_scoped (key_scopes s (spending_limit_key (launch_host be_word 1000) 1 2))"
    using s(6) by (simp add: scope_view_def)
  then show ?thesis
    using removed_target_is_denied [of "launch_host be_word 1000" s 2 1 9] s
    by (auto simp: admin_ok_def saturating_to_u64_def)
qed

theorem reachable_keychain_invariant_witness:
  "\<exists>s. kc_steps be_word empty_keychain s \<and> key_active 1000 (keys s 1 2) \<and> scopes_wf s \<and> rows_ok s"
proof -
  obtain s where s: "kc_steps be_word empty_keychain s" "key_active 1000 (keys s 1 2)"
    by (rule sample_reachable)
  show ?thesis using reachable_keychain_invariant [OF s(1)] s by blast
qed

end
