(* ===== verification/Agent_State.thy ===== *)
theory Agent_State
  imports Dispatch
begin

text \<open>
  The agent state precompile (\<open>sci/crates/precompiles/src/sci_agent_state\<close>): the circuit breaker
  flag per session key, writable only by the circuit breaker contract.
\<close>

datatype SciAgentStateEvent = TripStateUpdate address bool

record SciAgentState =
  tripped :: "address \<Rightarrow> bool"
  agent_events :: "SciAgentStateEvent list"

definition SCI_AGENT_STATE_ADDRESS :: address where
  "SCI_AGENT_STATE_ADDRESS = 0xAAAAAAAA00000000000000000000000000000001"

definition AGENT_CIRCUIT_BREAKER_ADDRESS :: address where
  "AGENT_CIRCUIT_BREAKER_ADDRESS = 0xBBBBBBBB00000000000000000000000000000003"

definition set_tripped :: "address \<Rightarrow> bool \<Rightarrow> (SciAgentState, unit) pc" where
  "set_tripped k b = pc_then
     (pc_write (\<lambda>s. s\<lparr>tripped := (tripped s)(k := b)\<rparr>))
     (pc_write (\<lambda>s. s\<lparr>agent_events := agent_events s @ [TripStateUpdate k b]\<rparr>))"

definition trip_key :: "address \<Rightarrow> address \<Rightarrow> (SciAgentState, unit) pc" where
  "trip_key msg_sender sessionKey =
     (if msg_sender \<noteq> AGENT_CIRCUIT_BREAKER_ADDRESS
      then pc_throw (SciAgentStateError AgentUnauthorizedCaller)
      else set_tripped sessionKey True)"

definition untrip_key :: "address \<Rightarrow> address \<Rightarrow> (SciAgentState, unit) pc" where
  "untrip_key msg_sender sessionKey =
     (if msg_sender \<noteq> AGENT_CIRCUIT_BREAKER_ADDRESS
      then pc_throw (SciAgentStateError AgentUnauthorizedCaller)
      else set_tripped sessionKey False)"

definition is_tripped :: "address \<Rightarrow> (SciAgentState, bool) pc" where
  "is_tripped sessionKey = pc_read (\<lambda>s. tripped s sessionKey)"

datatype ISciAgentStateCalls = tripKey address | untripKey address | isTripped address

datatype agent_return = AgentUnit | AgentBool bool

primrec agent_dispatch :: "bool \<Rightarrow> address \<Rightarrow> ISciAgentStateCalls \<Rightarrow>
    (SciAgentState, agent_return precompile_output) run" where
  "agent_dispatch is_static msg_sender (tripKey k) =
     mutate_void AgentUnit is_static (trip_key msg_sender k)"
| "agent_dispatch is_static msg_sender (untripKey k) =
     mutate_void AgentUnit is_static (untrip_key msg_sender k)"
| "agent_dispatch is_static msg_sender (isTripped k) = view AgentBool (is_tripped k)"

definition agent_call :: "TempoHardfork \<Rightarrow> u64 \<Rightarrow> (bytes \<Rightarrow> abi_error + ISciAgentStateCalls) \<Rightarrow> bool \<Rightarrow>
    bytes \<Rightarrow> address \<Rightarrow> (SciAgentState, agent_return precompile_output) run" where
  "agent_call active gas decode is_static calldata msg_sender =
     metered gas calldata (dispatch_call active calldata [schedule_new T3] decode (agent_dispatch is_static msg_sender))"

lemma set_tripped_run [pc_run]:
  "set_tripped k b [] s = (Inr (), [], s\<lparr>tripped := (tripped s)(k := b),
     agent_events := agent_events s @ [TripStateUpdate k b]\<rparr>)"
  by (simp add: set_tripped_def)

lemma agent_dispatch_keeps:
  assumes "msg_sender \<noteq> AGENT_CIRCUIT_BREAKER_ADDRESS \<or> is_static"
  shows "run_keeps (\<lambda>t. t = s) (agent_dispatch is_static msg_sender c)"
proof (cases c)
  case (isTripped k)
  have "pc_reads (is_tripped k)" unfolding is_tripped_def by (rule pc_reads_read)
  with isTripped show ?thesis by (simp add: run_keeps_view pc_reads_keeps)
qed (use assms in \<open>auto simp: run_keeps_def run_state_mutate_void trip_key_def untrip_key_def pc_state_def\<close>)

lemma agent_call_keeps:
  assumes "msg_sender \<noteq> AGENT_CIRCUIT_BREAKER_ADDRESS \<or> is_static"
  shows "run_keeps (\<lambda>t. t = s) (agent_call active gas decode is_static calldata msg_sender)"
  unfolding agent_call_def
  by (intro run_keeps_metered run_keeps_dispatch agent_dispatch_keeps assms)

text \<open>C25: only the circuit breaker moves a trip flag. A call frame of the agent state precompile that changes
  the flags was a successful, direct, non-static call sent by the circuit breaker contract, and it sets the
  flag of one key, with the matching event.\<close>

theorem only_breaker_moves_flags:
  assumes "evm_frame (sci_precompile is_direct (agent_call active gas decode is_static calldata sender)) fs s = (r, fs', t)"
    and "t \<noteq> s"
  shows "sender = AGENT_CIRCUIT_BREAKER_ADDRESS \<and> is_direct \<and> \<not> is_static \<and> is_success r
    \<and> (\<exists>k b. tripped t = (tripped s)(k := b) \<and> agent_events t = agent_events s @ [TripStateUpdate k b])"
proof -
  have call: "is_direct" "agent_call active gas decode is_static calldata sender fs s = (r, fs', t)" "is_success r"
    using assms by (auto simp: evm_frame_def sci_precompile_def split: prod.splits if_splits)
  have who: "sender = AGENT_CIRCUIT_BREAKER_ADDRESS" "\<not> is_static"
    using run_keepsD [OF agent_call_keeps [of sender is_static s active gas decode calldata], of s fs] call(2) assms(2)
    by (auto simp: run_state_def)
  obtain c where "agent_dispatch is_static sender c fs s = (r, fs', t)"
    using call(2) assms(2)
    by (auto simp: agent_call_def metered_def dispatch_call_def Let_def split: option.splits if_splits sum.splits
        abi_error.splits)
  moreover have "tripped t = (tripped s)(k := b) \<and> agent_events t = agent_events s @ [TripStateUpdate k b]"
    if "set_tripped k b fs s = (Inr (), fs', t)" for k b
  proof -
    have "plain (set_tripped k b)" unfolding set_tripped_def by (intro pc_plain)
    from plainD [OF this that] show ?thesis by (auto simp: set_tripped_run)
  qed
  moreover have "t = s" if "is_tripped k fs s = (x, fs', t)" for k x
    using that unfolding is_tripped_def by (rule pc_readsD [OF pc_reads_read])
  ultimately have "\<exists>k b. tripped t = (tripped s)(k := b) \<and> agent_events t = agent_events s @ [TripStateUpdate k b]"
    using who assms(2) call(3)
    by (cases c) (auto simp: mutate_void_def view_def trip_key_def untrip_key_def split: prod.splits, blast+)
  with call who show ?thesis by simp
qed

theorem only_breaker_moves_flags_witness:
  "\<exists>r t. evm_frame (sci_precompile True (agent_call T5 1000 (\<lambda>_. Inr (tripKey 2)) False [1, 2, 3, 4]
      AGENT_CIRCUIT_BREAKER_ADDRESS)) [] \<lparr>tripped = (\<lambda>_. False), agent_events = []\<rparr> = (r, [], t)
    \<and> tripped t 2 \<and> is_success r"
proof -
  let ?s = "\<lparr>tripped = (\<lambda>_. False), agent_events = []\<rparr>"
  let ?f = "evm_frame (sci_precompile True (agent_call T5 1000 (\<lambda>_. Inr (tripKey 2)) False [1, 2, 3, 4] AGENT_CIRCUIT_BREAKER_ADDRESS))"
  have run: "?f [] ?s = (Success AgentUnit, [], \<lparr>tripped = (\<lambda>_. False)(2 := True), agent_events = [TripStateUpdate 2 True]\<rparr>)"
    by (simp add: evm_frame_def sci_precompile_def agent_call_def metered_def charge_input_cost_def input_cost_def
        INPUT_PER_WORD_COST_def deduct_gas_def record_regular_cost_def tracker_new_def dispatch_call_def Let_def
        schedule_new_def rejects_def mutate_void_def trip_key_def set_tripped_run into_precompile_result_def sat_add_def)
  have "\<lparr>tripped = (\<lambda>_. False)(2 := True), agent_events = [TripStateUpdate 2 True]\<rparr> \<noteq> ?s" by simp
  from only_breaker_moves_flags [OF run this] run show ?thesis by auto
qed

end
