(* ===== verification/Hook.thy ===== *)
theory Hook
  imports Keychain_Steps Agent_State
begin

text \<open>
  The gate of agent transactions (\<open>sci/crates/precompiles/src/handler/hook.rs\<close>, \<open>handler/decode.rs\<close>
  and \<open>account_keychain/sci_ext.rs\<close>): before a batch of an account runs under a session key, the
  hook checks the key, the circuit breaker, the call scopes and the spending limits; after the batch the
  deductions charge what it spent.

  The ABI decoders of token calls are generated by an external macro and are a parameter, as is the order in
  which the hash map of totals is visited. A journal checkpoint is the state at the checkpoint: reverting
  to it restores permanent and transient slots alike.
\<close>

section \<open>The handler's view of the precompile state\<close>

record sci_state =
  keychain :: AccountKeychain
  agents :: SciAgentState

definition on_keychain :: "'a kc \<Rightarrow> (sci_state, 'a) pc" where
  "on_keychain m = pc_zoom keychain (\<lambda>t s. s\<lparr>keychain := t\<rparr>) m"

definition on_agents :: "(SciAgentState, 'a) pc \<Rightarrow> (sci_state, 'a) pc" where
  "on_agents m = pc_zoom agents (\<lambda>t s. s\<lparr>agents := t\<rparr>) m"

text \<open>What the transaction handlers return in place of a result. The text of a message keeps its fixed part
  and the error it formats; a panic of the handler's own arithmetic is an outcome as well.\<close>

datatype InvalidTx =
    InvalidStr string "TempoPrecompileError option"
  | LackOfFundForMaxFee u256 u256
  | DepositSystemTxPostRegolith
  | HaltedDepositPostRegolith
  | MissingEnvelopedTx
  | MainnetInvalid string

datatype handler_error =
    TransactionError InvalidTx
  | CustomError string "TempoPrecompileError option"
  | DatabaseError string
  | Panicked string

definition enter_keychain_storage :: "(bytes \<Rightarrow> b256) \<Rightarrow> u256 \<Rightarrow> (host \<Rightarrow> (sci_state, 'a) pc) \<Rightarrow> (sci_state, 'a) pc" where
  "enter_keychain_storage K ts f = f (launch_host K ts)"

section \<open>Extensions of the keychain\<close>

definition key_is_active :: "host \<Rightarrow> address \<Rightarrow> address \<Rightarrow> bool kc" where
  "key_is_active h account key_id =
     pc_catch (pc_then (load_active_key account key_id (now h)) (pc_return True))
       (\<lambda>err. if is_system_error err then pc_throw err else pc_return False)"

definition transaction_key_raw :: "address kc" where
  "transaction_key_raw = pc_read transaction_key"

definition tx_origin_raw :: "address kc" where
  "tx_origin_raw = pc_read tx_origin"

section \<open>Token calls\<close>

definition IERC20_TRANSFER :: selector where "IERC20_TRANSFER = 0xa9059cbb"
definition IERC20_APPROVE :: selector where "IERC20_APPROVE = 0x095ea7b3"
definition IERC20_TRANSFER_FROM :: selector where "IERC20_TRANSFER_FROM = 0x23b872dd"
definition ISCI20_TRANSFER_WITH_MEMO :: selector where "ISCI20_TRANSFER_WITH_MEMO = 0x95777d59"

text \<open>The decoders that the \<open>sol!\<close> macro generates; those of calls with one amount give the amount,
  \<open>transferFrom\<close> gives the source as well.\<close>

record token_abi =
  dec_transfer :: "bytes \<Rightarrow> u256 option"
  dec_approve :: "bytes \<Rightarrow> u256 option"
  dec_transfer_from :: "bytes \<Rightarrow> (address \<times> u256) option"
  dec_transfer_with_memo :: "bytes \<Rightarrow> u256 option"

definition classify_token_call :: "token_abi \<Rightarrow> address \<Rightarrow> address \<Rightarrow> bytes \<Rightarrow> (address \<times> u256) option" where
  "classify_token_call abi root tgt data =
     (if length data < 4 then None
      else let sel = input_selector data in
      if sel = IERC20_TRANSFER then map_option (Pair tgt) (dec_transfer abi data)
      else if sel = IERC20_APPROVE then map_option (Pair tgt) (dec_approve abi data)
      else if sel = IERC20_TRANSFER_FROM then
        (case dec_transfer_from abi data of None \<Rightarrow> None
         | Some (from, amt) \<Rightarrow> if from = root then Some (tgt, amt) else None)
      else if sel = ISCI20_TRANSFER_WITH_MEMO then map_option (Pair tgt) (dec_transfer_with_memo abi data)
      else None)"

section \<open>The hook\<close>

record AaCall =
  call_to :: TxKind
  call_value :: u256
  call_input :: bytes

datatype HookOutcome = Pass | Reject handler_error

text \<open>A handler step: a result or an error, and the state it leaves.\<close>

type_synonym ('s, 'a) hrun = "access list \<Rightarrow> 's \<Rightarrow> (handler_error + 'a) \<times> access list \<times> 's"

text \<open>\<open>map_err(|e| ERROR::from_string(..))?\<close>.\<close>

definition or_custom :: "string \<Rightarrow> ('s, 'a) pc \<Rightarrow> ('s, 'a) hrun" where
  "or_custom msg m = (\<lambda>fs s. case m fs s of
     (Inl e, fs', s') \<Rightarrow> (Inl (CustomError msg (Some e)), fs', s')
   | (Inr x, fs', s') \<Rightarrow> (Inr x, fs', s'))"

definition h_bind :: "('s, 'a) hrun \<Rightarrow> ('a \<Rightarrow> ('s, 'b) hrun) \<Rightarrow> ('s, 'b) hrun" where
  "h_bind m k = (\<lambda>fs s. case m fs s of
     (Inl e, fs', s') \<Rightarrow> (Inl e, fs', s')
   | (Inr x, fs', s') \<Rightarrow> k x fs' s')"

definition set_keychain_tx_origin :: "(bytes \<Rightarrow> b256) \<Rightarrow> u256 \<Rightarrow> address \<Rightarrow> (sci_state, unit) hrun" where
  "set_keychain_tx_origin K ts caller = or_custom ''keychain tx_origin setup failed''
     (enter_keychain_storage K ts (\<lambda>h. on_keychain (pc_then (set_tx_origin caller) (set_transaction_key 0))))"

definition keychain_tx_origin :: "(bytes \<Rightarrow> b256) \<Rightarrow> u256 \<Rightarrow> (sci_state, address) hrun" where
  "keychain_tx_origin K ts = or_custom ''keychain tx_origin read failed''
     (enter_keychain_storage K ts (\<lambda>h. on_keychain tx_origin_raw))"

text \<open>\<open>HashMap::entry(token).or_insert(ZERO)\<close> followed by the saturating addition. The map is a list
  of entries with distinct keys; the order in which the code visits them is a parameter \<open>order\<close>.\<close>

fun entry_add :: "address \<Rightarrow> u256 \<Rightarrow> (address \<times> u256) list \<Rightarrow> (address \<times> u256) list" where
  "entry_add tok amt [] = [(tok, sat_add 0 amt)]"
| "entry_add tok amt ((t, x) # xs) =
     (if t = tok then (t, sat_add x amt) # xs else (t, x) # entry_add tok amt xs)"

definition add_call :: "token_abi \<Rightarrow> address \<Rightarrow> AaCall \<Rightarrow> (address \<times> u256) list \<Rightarrow> (address \<times> u256) list" where
  "add_call abi root c totals =
     (let t = (if call_value c \<noteq> 0 then entry_add 0 (call_value c) totals else totals) in
      case call_to c of
        Create \<Rightarrow> t
      | Call tgt \<Rightarrow> (case classify_token_call abi root tgt (call_input c) of
          None \<Rightarrow> t | Some (tok, amt) \<Rightarrow> entry_add tok amt t))"

fun check_calls :: "token_abi \<Rightarrow> host \<Rightarrow> address \<Rightarrow> address \<Rightarrow> AaCall list \<Rightarrow> (address \<times> u256) list \<Rightarrow>
    (address \<times> u256) list kc" where
  "check_calls abi h root k [] totals = pc_return totals"
| "check_calls abi h root k (c # cs) totals =
     pc_then (validate_call_scope_for_transaction h root k (call_to c) (call_input c))
       (check_calls abi h root k cs (add_call abi root c totals))"

definition preflight :: "((address \<times> u256) list \<Rightarrow> (address \<times> u256) list) \<Rightarrow> host \<Rightarrow> address \<Rightarrow> address \<Rightarrow>
    (address \<times> u256) list \<Rightarrow> unit kc" where
  "preflight order h root k totals = pc_bind (key_read root k) (\<lambda>key.
     if enforce_limits key then
       pc_each (\<lambda>(tok, total). pc_bind (effective_remaining_limit h root k tok (now h)) (\<lambda>rem.
         if total > rem then keychain_error SpendingLimitExceeded else pc_return ())) (order totals)
     else pc_return ())"

definition hook_body :: "token_abi \<Rightarrow> ((address \<times> u256) list \<Rightarrow> (address \<times> u256) list) \<Rightarrow> host \<Rightarrow> address \<Rightarrow>
    address \<Rightarrow> AaCall list \<Rightarrow> u256 \<Rightarrow> (sci_state, unit) pc" where
  "hook_body abi order h root k calls gas_reservation =
     pc_bind (on_agents (is_tripped k)) (\<lambda>b.
     if b then pc_throw (SciAgentStateError (KeyTripped k))
     else on_keychain (pc_then (set_transaction_key k) (pc_then (set_tx_origin k)
       (pc_bind (check_calls abi h root k calls []) (\<lambda>totals.
        preflight order h root k
          (if gas_reservation \<noteq> 0 then entry_add 0 gas_reservation totals else totals))))))"

definition run_aa_keychain_hook :: "token_abi \<Rightarrow> ((address \<times> u256) list \<Rightarrow> (address \<times> u256) list) \<Rightarrow>
    (bytes \<Rightarrow> b256) \<Rightarrow> u256 \<Rightarrow> address \<Rightarrow> address \<Rightarrow> AaCall list \<Rightarrow> u256 \<Rightarrow> (sci_state, HookOutcome) hrun" where
  "run_aa_keychain_hook abi order K ts root k calls gas_reservation =
     h_bind (or_custom ''keychain tx_origin setup failed''
       (enter_keychain_storage K ts (\<lambda>h. on_keychain (pc_then (set_tx_origin k) (set_transaction_key 0))))) (\<lambda>_.
     h_bind (or_custom ''keychain probe failed''
       (enter_keychain_storage K ts (\<lambda>h. on_keychain (key_is_active h root k)))) (\<lambda>is_active.
     if \<not> is_active then
       (\<lambda>fs s. (Inr (Reject (TransactionError (InvalidStr ''AA tx unauthorized'' None))), fs, s))
     else (\<lambda>fs checkpoint.
       case enter_keychain_storage K ts (\<lambda>h. hook_body abi order h root k calls gas_reservation) fs checkpoint of
         (Inr _, fs', s') \<Rightarrow> (Inr Pass, fs', s')
       | (Inl e, fs', s') \<Rightarrow>
           (if is_system_error e then Inl (CustomError ''SCI AA keychain hook system error'' (Some e))
            else Inr (Reject (TransactionError (InvalidStr ''SCI AA keychain hook rejected tx'' (Some e)))),
            fs', checkpoint))))"

definition deduct_token :: "token_abi \<Rightarrow> host \<Rightarrow> address \<Rightarrow> address \<Rightarrow> AaCall \<Rightarrow> unit kc" where
  "deduct_token abi h root k c = (case call_to c of
     Create \<Rightarrow> pc_return ()
   | Call tgt \<Rightarrow> (case classify_token_call abi root tgt (call_input c) of
       None \<Rightarrow> pc_return ()
     | Some (tok, amt) \<Rightarrow> verify_and_update_spending h root k tok amt))"

definition apply_aa_post_execution_deductions :: "token_abi \<Rightarrow> (bytes \<Rightarrow> b256) \<Rightarrow> u256 \<Rightarrow> address \<Rightarrow> address \<Rightarrow>
    AaCall list \<Rightarrow> u256 \<Rightarrow> (sci_state, unit) hrun" where
  "apply_aa_post_execution_deductions abi K ts root k calls gas_deduction =
     or_custom ''apply AA deductions failed'' (enter_keychain_storage K ts (\<lambda>h. on_keychain (
       let sentinel_total = foldl (\<lambda>acc c. sat_add acc (call_value c)) gas_deduction calls in
       pc_then
         (if sentinel_total \<noteq> 0 then verify_and_update_spending h root k 0 sentinel_total else pc_return ())
         (pc_each (deduct_token abi h root k) calls))))"
section \<open>What a batch spends\<close>

text \<open>The amounts a batch takes from each token, as naturals, and the totals the hook accumulates.\<close>

definition call_spends :: "token_abi \<Rightarrow> address \<Rightarrow> AaCall \<Rightarrow> (address \<times> u256) list" where
  "call_spends abi root c = (case call_to c of
     Create \<Rightarrow> []
   | Call tgt \<Rightarrow> (case classify_token_call abi root tgt (call_input c) of None \<Rightarrow> [] | Some ta \<Rightarrow> [ta]))"

definition batch_spends :: "token_abi \<Rightarrow> address \<Rightarrow> AaCall list \<Rightarrow> u256 \<Rightarrow> (address \<times> u256) list" where
  "batch_spends abi root calls gas =
     concat (map (\<lambda>c. (if call_value c \<noteq> 0 then [(0, call_value c)] else []) @ call_spends abi root c) calls)
     @ (if gas \<noteq> 0 then [(0, gas)] else [])"

definition total_on :: "address \<Rightarrow> (address \<times> u256) list \<Rightarrow> nat" where
  "total_on tok xs = sum_list (map (\<lambda>(_, amt). unat amt) (filter (\<lambda>(tok', _). tok' = tok) xs))"

lemma total_on_simps [simp]:
  "total_on tok [] = 0"
  "total_on tok ((t, a) # xs) = (if t = tok then unat a else 0) + total_on tok xs"
  "total_on tok (xs @ ys) = total_on tok xs + total_on tok ys"
  by (simp_all add: total_on_def)

lemma entry_add_map_of:
  "map_of (entry_add tok amt xs) t =
    (if t = tok then Some (sat_add (case map_of xs tok of None \<Rightarrow> 0 | Some x \<Rightarrow> x) amt) else map_of xs t)"
  by (induction tok amt xs rule: entry_add.induct) auto

lemma entry_add_keys: "fst ` set (entry_add tok amt xs) = insert tok (fst ` set xs)"
  by (induction tok amt xs rule: entry_add.induct) auto

lemma entry_add_distinct: "distinct (map fst xs) \<Longrightarrow> distinct (map fst (entry_add tok amt xs))"
proof (induction tok amt xs rule: entry_add.induct)
  case (2 tok amt t x xs)
  then show ?case using entry_add_keys [of tok amt xs] by auto
qed simp

definition totals_of :: "(address \<times> u256) list \<Rightarrow> (address \<times> u256) list \<Rightarrow> (address \<times> u256) list" where
  "totals_of spends totals = fold (\<lambda>(tok, amt). entry_add tok amt) spends totals"

lemma add_call_totals:
  "add_call abi root c totals =
     totals_of ((if call_value c \<noteq> 0 then [(0, call_value c)] else []) @ call_spends abi root c) totals"
  by (auto simp: add_call_def totals_of_def call_spends_def Let_def split: TxKind.split option.split)

lemma totals_of_append: "totals_of (xs @ ys) totals = totals_of ys (totals_of xs totals)"
  by (simp add: totals_of_def)

lemma totals_of_distinct: "distinct (map fst totals) \<Longrightarrow> distinct (map fst (totals_of xs totals))"
  by (induction xs arbitrary: totals) (auto simp: totals_of_def entry_add_distinct)

lemma totals_of_Cons: "totals_of ((t, a) # xs) totals = totals_of xs (entry_add t a totals)"
  by (simp add: totals_of_def)

lemma totals_of_keys: "fst ` set (totals_of xs totals) = fst ` set xs \<union> fst ` set totals"
proof (induction xs arbitrary: totals)
  case (Cons x xs)
  obtain t a where "x = (t, a)" by (cases x)
  then show ?case using Cons.IH [of "entry_add t a totals"] by (simp add: totals_of_Cons entry_add_keys)
qed (simp add: totals_of_def)

definition clamp :: "nat \<Rightarrow> u256" where
  "clamp n = word_of_nat (min n (2 ^ 256 - 1))"

lemma unat_clamp: "unat (clamp n) = min n (2 ^ 256 - 1)"
  unfolding clamp_def
  by (simp add: unsigned_of_nat take_bit_nat_eq_self less_Suc_eq_le [symmetric] min_less_iff_disj)

lemma clamp_unat: "clamp (unat x) = x"
  using unat_le_max [of x] by (intro word_eq_unatI) (simp add: unat_clamp)

lemma clamp_sat_add: "clamp (unat (sat_add (u :: u256) a) + n) = clamp (unat u + (unat a + n))"
  by (intro word_eq_unatI) (simp add: unat_clamp unat_sat_add)

lemma totals_of_value:
  "map_of (totals_of xs totals) tok =
    (if tok \<in> fst ` set xs \<union> fst ` set totals
     then Some (clamp ((case map_of totals tok of None \<Rightarrow> 0 | Some x \<Rightarrow> unat x) + total_on tok xs))
     else None)"
proof (induction xs arbitrary: totals)
  case Nil
  show ?case
    by (cases "map_of totals tok") (auto simp: totals_of_def map_of_eq_None_iff clamp_unat
        dest: map_of_SomeD intro: rev_image_eqI)
next
  case (Cons x xs)
  obtain t a where x: "x = (t, a)" by (cases x)
  show ?case
    using Cons.IH [of "entry_add t a totals"] clamp_sat_add [of 0 a]
    by (auto simp: x totals_of_Cons entry_add_map_of entry_add_keys clamp_sat_add split: option.split)
qed

lemma pc_then_assoc: "pc_then (pc_then m n) p = pc_then m (pc_then n p)"
  by (simp add: pc_then_def pc_bind_assoc)

lemma check_calls_totals:
  "check_calls abi h root k calls totals = pc_then
     (pc_each (\<lambda>c. validate_call_scope_for_transaction h root k (call_to c) (call_input c)) calls)
     (pc_return (totals_of (concat (map (\<lambda>c.
        (if call_value c \<noteq> 0 then [(0, call_value c)] else []) @ call_spends abi root c) calls)) totals))"
proof (induction calls arbitrary: totals)
  case (Cons c cs)
  show ?case
    unfolding check_calls.simps Cons.IH add_call_totals pc_each.simps pc_then_assoc list.map concat.simps
      totals_of_append ..
qed (simp add: totals_of_def)

text \<open>The totals against remaining amounts: every entry fits exactly when every token's total does.\<close>

lemma total_on_none: "tok \<notin> fst ` set xs \<Longrightarrow> total_on tok xs = 0"
  by (induction xs) auto

lemma totals_of_entry:
  "(tok, w) \<in> set (totals_of xs []) \<longleftrightarrow> tok \<in> fst ` set xs \<and> w = clamp (total_on tok xs)"
proof -
  have "(tok, w) \<in> set (totals_of xs []) \<longleftrightarrow> map_of (totals_of xs []) tok = Some w"
    using totals_of_distinct [of "[]" xs] by (simp add: map_of_eq_Some_iff)
  then show ?thesis by (auto simp: totals_of_value)
qed

lemma totals_fit:
  fixes rem :: "address \<Rightarrow> u256"
  shows "(\<forall>(tok, total) \<in> set (totals_of xs []). total \<le> rem tok) \<longleftrightarrow>
    (\<forall>tok. min (total_on tok xs) (2 ^ 256 - 1) \<le> unat (rem tok))"
proof -
  have "(\<forall>(tok, total) \<in> set (totals_of xs []). total \<le> rem tok) \<longleftrightarrow>
      (\<forall>tok \<in> fst ` set xs. unat (clamp (total_on tok xs)) \<le> unat (rem tok))"
    unfolding word_le_nat_alt by (simp add: Ball_def totals_of_entry split_paired_all)
  moreover have "unat (clamp (total_on tok xs)) \<le> unat (rem tok)" if "tok \<notin> fst ` set xs" for tok
    using total_on_none [OF that] by (simp add: unat_clamp)
  ultimately show ?thesis unfolding unat_clamp by blast
qed
section \<open>What the hook admits\<close>

definition hook_admits :: "token_abi \<Rightarrow> host \<Rightarrow> address \<Rightarrow> address \<Rightarrow> AaCall list \<Rightarrow> u256 \<Rightarrow> sci_state \<Rightarrow> bool" where
  "hook_admits abi h root k calls gas s \<longleftrightarrow>
     key_active (now h) (keys (keychain s) root k)
     \<and> \<not> tripped (agents s) k
     \<and> (\<forall>c \<in> set calls. \<exists>tgt. call_to c = Call tgt
          \<and> call_permitted (scope_view (key_scopes (keychain s) (spending_limit_key h root k))) tgt (call_input c))
     \<and> (enforce_limits (keys (keychain s) root k) \<longrightarrow>
          (\<forall>tok. min (total_on tok (batch_spends abi root calls gas)) (2 ^ 256 - 1)
             \<le> unat (remaining (roll_over (limit_of h root k tok (keychain s)) (now h)))))"

definition set_identity :: "address \<Rightarrow> address \<Rightarrow> sci_state \<Rightarrow> sci_state" where
  "set_identity origin key s = s\<lparr>keychain := (keychain s)\<lparr>transaction_key := key, tx_origin := origin\<rparr>\<rparr>"

lemma set_identity_simps [simp]:
  "keychain (set_identity origin key s) = (keychain s)\<lparr>transaction_key := key, tx_origin := origin\<rparr>"
  "agents (set_identity origin key s) = agents s"
  "set_identity o' k' (set_identity origin key s) = set_identity o' k' s"
  by (simp_all add: set_identity_def)

lemma on_keychain_run: "m [] (keychain s) = (r, fs, t) \<Longrightarrow> on_keychain m [] s = (r, fs, s\<lparr>keychain := t\<rparr>)"
  by (simp add: on_keychain_def pc_zoom_def)

lemma seed_run:
  "on_keychain (pc_then (set_tx_origin origin) (set_transaction_key key)) [] s = (Inr (), [], set_identity origin key s)"
  by (simp add: on_keychain_def pc_zoom_def set_tx_origin_def set_transaction_key_def set_identity_def)

lemma key_is_active_run: "key_is_active h a k [] s = (Inr (key_active (now h) (keys s a k)), [], s)"
  by (simp add: key_is_active_def pc_catch_def pc_then_def pc_bind_def load_active_key_run)

lemma key_is_active_on:
  "on_keychain (key_is_active h a k) [] s = (Inr (key_active (now h) (keys (keychain s) a k)), [], s)"
  by (simp add: on_keychain_def pc_zoom_def key_is_active_run)

lemma pc_each_check:
  assumes "\<And>x. x \<in> set xs \<Longrightarrow> f x [] s = (if P x then Inr () else Inl e, [], s)"
  shows "pc_each f xs [] s = (if \<forall>x \<in> set xs. P x then Inr () else Inl e, [], s)"
  using assms by (induction xs) (auto simp: pc_then_def pc_bind_def)

lemma check_calls_run:
  assumes "scope_wf (key_scopes s (spending_limit_key h root k))" "k \<noteq> 0" "is_t3 (spec h)"
  shows "check_calls abi h root k calls [] [] s =
    (if \<forall>c \<in> set calls. \<exists>tgt. call_to c = Call tgt
          \<and> call_permitted (scope_view (key_scopes s (spending_limit_key h root k))) tgt (call_input c)
     then Inr (totals_of (batch_spends abi root calls 0) []) else Inl (AccountKeychainError CallNotAllowed), [], s)"
proof -
  have "pc_each (\<lambda>c. validate_call_scope_for_transaction h root k (call_to c) (call_input c)) calls [] s =
     (if \<forall>c \<in> set calls. \<exists>tgt. call_to c = Call tgt
          \<and> call_permitted (scope_view (key_scopes s (spending_limit_key h root k))) tgt (call_input c)
      then Inr () else Inl (AccountKeychainError CallNotAllowed), [], s)"
  proof (rule pc_each_check)
    fix c
    show "validate_call_scope_for_transaction h root k (call_to c) (call_input c) [] s =
      (if \<exists>tgt. call_to c = Call tgt
          \<and> call_permitted (scope_view (key_scopes s (spending_limit_key h root k))) tgt (call_input c)
       then Inr () else Inl (AccountKeychainError CallNotAllowed), [], s)"
      using assms validate_call_scope_for_transaction_run [OF assms]
      by (cases "call_to c") (simp_all add: validate_call_scope_for_transaction_def)
  qed
  then show ?thesis
    by (simp add: check_calls_totals pc_then_def pc_bind_def batch_spends_def)
qed

lemma preflight_run:
  assumes "is_t3 (spec h)" "k \<noteq> 0" "key_active (now h) (keys s root k)" "\<And>xs. set (order xs) = set xs"
  shows "preflight order h root k (totals_of xs []) [] s =
    (if enforce_limits (keys s root k) \<longrightarrow> (\<forall>tok. min (total_on tok xs) (2 ^ 256 - 1)
          \<le> unat (remaining (roll_over (limit_of h root k tok s) (now h))))
     then Inr () else Inl (AccountKeychainError SpendingLimitExceeded), [], s)"
proof -
  let ?rem = "\<lambda>tok. remaining (roll_over (limit_of h root k tok s) (now h))"
  have "pc_each (\<lambda>(tok, w). pc_bind (effective_remaining_limit h root k tok (now h)) (\<lambda>rem.
         if w > rem then keychain_error SpendingLimitExceeded else pc_return ())) (order (totals_of xs [])) [] s =
     (if \<forall>x \<in> set (order (totals_of xs [])). case x of (tok, w) \<Rightarrow> w \<le> ?rem tok
      then Inr () else Inl (AccountKeychainError SpendingLimitExceeded), [], s)"
    using assms(1-3)
    by (intro pc_each_check) (auto simp: pc_bind_def effective_remaining_limit_run not_less)
  then show ?thesis
    unfolding assms(4) totals_fit by (simp add: preflight_def key_read_def)
qed
lemma batch_totals_gas:
  "(if gas \<noteq> 0 then entry_add 0 gas (totals_of (batch_spends abi root calls 0) [])
    else totals_of (batch_spends abi root calls 0) []) = totals_of (batch_spends abi root calls gas) []"
  by (simp add: batch_spends_def totals_of_append totals_of_def)

definition order_ok :: "((address \<times> u256) list \<Rightarrow> (address \<times> u256) list) \<Rightarrow> bool" where
  "order_ok order \<longleftrightarrow> (\<forall>xs. set (order xs) = set xs)"

lemma hook_body_run:
  assumes "scopes_wf (keychain s)" "k \<noteq> 0" "is_t3 (spec h)" "key_active (now h) (keys (keychain s) root k)" "order_ok order"
  shows "\<exists>e. hook_body abi order h root k calls gas [] s =
     (if hook_admits abi h root k calls gas s then (Inr (), [], set_identity k k s)
      else (Inl e, [], if tripped (agents s) k then s else set_identity k k s)) \<and> \<not> is_system_error e"
proof (cases "tripped (agents s) k")
  case True
  then show ?thesis
    by (simp add: hook_body_def on_agents_def pc_zoom_def is_tripped_def hook_admits_def pc_bind_def)
next
  case False
  let ?t = "(keychain s)\<lparr>transaction_key := k, tx_origin := k\<rparr>"
  have wf: "scope_wf (key_scopes ?t (spending_limit_key h root k))" using assms(1) by (simp add: scopes_wf_def)
  note calls = check_calls_run [OF wf assms(2,3), of abi calls]
  note flight = preflight_run [OF assms(3,2), of ?t root order "batch_spends abi root calls gas"]
  have "hook_body abi order h root k calls gas [] s = on_keychain (pc_then (set_transaction_key k) (pc_then (set_tx_origin k)
       (pc_bind (check_calls abi h root k calls []) (\<lambda>totals. preflight order h root k
          (if gas \<noteq> 0 then entry_add 0 gas totals else totals))))) [] s"
    using False by (simp add: hook_body_def on_agents_def pc_zoom_def is_tripped_def pc_bind_def)
  also have "\<dots> = (if hook_admits abi h root k calls gas s then (Inr (), [], set_identity k k s)
      else (Inl (AccountKeychainError (if \<forall>c \<in> set calls. \<exists>tgt. call_to c = Call tgt
          \<and> call_permitted (scope_view (key_scopes (keychain s) (spending_limit_key h root k))) tgt (call_input c)
        then SpendingLimitExceeded else CallNotAllowed)), [], set_identity k k s))"
    using calls flight assms(4,5) False
    by (simp add: on_keychain_def pc_zoom_def set_transaction_key_def set_tx_origin_def pc_bind_def batch_totals_gas
        order_ok_def hook_admits_def set_identity_def)
  finally show ?thesis using False by (auto intro: exI [of _ "AccountKeychainError CallNotAllowed"])
qed

lemma hook_run:
  assumes "order_ok order" "k \<noteq> 0" "scopes_wf (keychain s)"
  shows "\<exists>msg e. run_aa_keychain_hook abi order K ts root k calls gas [] s =
     (if hook_admits abi (launch_host K ts) root k calls gas s then (Inr Pass, [], set_identity k k s)
      else (Inr (Reject (TransactionError (InvalidStr msg e))), [], set_identity k 0 s))"
proof (cases "key_active (now (launch_host K ts)) (keys (keychain s) root k)")
  case True
  let ?h = "launch_host K ts" and ?s = "set_identity k 0 s"
  have wf: "scopes_wf (keychain ?s)" using assms(3) by (simp add: scopes_wf_def)
  obtain e where body: "hook_body abi order ?h root k calls gas [] ?s =
     (if hook_admits abi ?h root k calls gas ?s then (Inr (), [], set_identity k k ?s)
      else (Inl e, [], if tripped (agents ?s) k then ?s else set_identity k k ?s))" "\<not> is_system_error e"
    using hook_body_run [OF wf assms(2), of ?h root order abi calls gas] True assms(1) by auto
  have same: "hook_admits abi ?h root k calls gas ?s \<longleftrightarrow> hook_admits abi ?h root k calls gas s"
    by (simp add: hook_admits_def)
  show ?thesis
    using body True same
    by (simp add: run_aa_keychain_hook_def h_bind_def or_custom_def enter_keychain_storage_def seed_run
        key_is_active_on set_identity_def)
next
  case False
  then have "\<not> hook_admits abi (launch_host K ts) root k calls gas s" by (simp add: hook_admits_def)
  with False show ?thesis
    by (simp add: run_aa_keychain_hook_def h_bind_def or_custom_def enter_keychain_storage_def seed_run
        key_is_active_on set_identity_def)
qed

text \<open>C1: what the gate of agent transactions decides. With healthy storage the hook passes a batch exactly
  when the session key is an active key of the root account, is not tripped, every call of the batch is
  within its call scope, and, if its limits are enforced, the total the batch and its gas take from each
  token fits what the key may still spend. A passed transaction runs under the session key, with the key as
  origin. A rejected one is an invalid transaction; no transaction key is left set, but the session key stays written as
  the transaction's origin, since that write precedes the checkpoint. The order in which the totals are visited
  does not matter.\<close>

theorem hook_decides:
  assumes "order_ok order" "k \<noteq> 0" "scopes_wf (keychain s)"
  shows "\<exists>msg e. run_aa_keychain_hook abi order K ts root k calls gas [] s =
     (if hook_admits abi (launch_host K ts) root k calls gas s then (Inr Pass, [], set_identity k k s)
      else (Inr (Reject (TransactionError (InvalidStr msg e))), [], set_identity k 0 s))"
  using assms by (rule hook_run)

text \<open>A batch of account 1 under session key 2: a transfer of 40 of token 9, whose decoder reads the last
  byte.\<close>

definition sample_abi :: token_abi where
  "sample_abi = \<lparr>dec_transfer = (\<lambda>d. Some (ucast (last d))), dec_approve = (\<lambda>_. None),
     dec_transfer_from = (\<lambda>_. None), dec_transfer_with_memo = (\<lambda>_. None)\<rparr>"

definition sample_call :: "u8 \<Rightarrow> AaCall" where
  "sample_call amt = \<lparr>call_to = Call 9, call_value = 0, call_input = [0xa9, 0x05, 0x9c, 0xbb, amt]\<rparr>"

definition sample_state :: sci_state where
  "sample_state = \<lparr>keychain = sample_keychain, agents = \<lparr>tripped = (\<lambda>_. False), agent_events = []\<rparr>\<rparr>"

lemma sample_selector: "input_selector [0xa9, 0x05, 0x9c, 0xbb, amt] = IERC20_TRANSFER"
  by (simp add: input_selector_def IERC20_TRANSFER_def be_word_def) 

lemma sample_spends: "batch_spends sample_abi 1 [sample_call amt] 0 = [(9, ucast amt)]"
  by (simp add: batch_spends_def sample_call_def call_spends_def classify_token_call_def sample_selector
      sample_abi_def)

lemma sample_call_simps [simp]:
  "call_to (sample_call amt) = Call 9" "call_value (sample_call amt) = 0"
  "call_input (sample_call amt) = [0xa9, 0x05, 0x9c, 0xbb, amt]"
  by (simp_all add: sample_call_def)

lemma sample_scopes:
  "scopes_wf sample_keychain" "scope_view (key_scopes sample_keychain kh) = (False, [])"
proof -
  have scopes: "key_scopes sample_keychain = (\<lambda>_. default_key_scope)"
    by (simp add: sample_keychain_def empty_keychain_def)
  show "scopes_wf sample_keychain" by (simp add: scopes_wf_def scopes)
  show "scope_view (key_scopes sample_keychain kh) = (False, [])"
    by (simp add: scopes scope_view_def scopes_view_def default_key_scope_def set_elems_def empty_set_handler_def)
qed

lemma sample_admits:
  "hook_admits sample_abi (launch_host be_word 1000) 1 2 [sample_call amt] 0 sample_state \<longleftrightarrow> unat amt \<le> 60"
proof -
  have "unat amt \<le> 255" using unat_le_max [of amt] by simp
  then have "min (unat amt) (2 ^ 256 - 1) = unat amt" by simp
  then have "(\<forall>tok. min (total_on tok [(9, ucast amt)]) (2 ^ 256 - 1)
       \<le> unat (remaining (roll_over (limit_of (launch_host be_word 1000) 1 2 tok sample_keychain) 1000))) \<longleftrightarrow> unat amt \<le> 60"
    by (auto simp: roll_over_def unsigned_ucast_eq take_bit_nat_eq_self dest: spec [of _ 9])
  then show ?thesis
    by (simp add: hook_admits_def sample_state_def sample_spends saturating_to_u64_def sample_scopes
        call_permitted_def)
qed

theorem hook_decides_witness:
  "(\<exists>msg e. run_aa_keychain_hook sample_abi rev be_word 1000 1 2 [sample_call 61] 0 [] sample_state =
     (Inr (Reject (TransactionError (InvalidStr msg e))), [], set_identity 2 0 sample_state))
   \<and> run_aa_keychain_hook sample_abi rev be_word 1000 1 2 [sample_call 40] 0 [] sample_state =
     (Inr Pass, [], set_identity 2 2 sample_state)"
proof -
  have "order_ok rev" "scopes_wf (keychain sample_state)" by (simp_all add: order_ok_def sample_state_def sample_scopes)
  then show ?thesis
    using hook_decides [of rev 2 sample_state sample_abi be_word 1000 1 "[sample_call 61]" 0]
      hook_decides [of rev 2 sample_state sample_abi be_word 1000 1 "[sample_call 40]" 0]
    by (simp add: sample_admits)
qed

section \<open>Deductions after the batch\<close>

lemma hook_plain [pc_plain]:
  "plain (load_active_key a k t)" "plain (key_read a k)" "plain (effective_remaining_limit h a k tok t)"
  "plain (validate_call_scope_for_transaction h a k dest input)"
proof -
  show "plain (validate_call_scope_for_transaction h a k dest input)"
    unfolding validate_call_scope_for_transaction_def is_scoped_read_def on_targets_def on_selectors_def
      on_recipients_def Let_def
    by (cases dest) (simp_all only: TxKind.case, (intro pc_plain)+)
qed (unfold load_active_key_def key_read_def effective_remaining_limit_def effective_limit_state_def Let_def,
    (intro pc_plain)+)

lemma hook_body_plain: "plain (hook_body abi order h root k calls gas)"
proof -
  have "plain (check_calls abi h root k calls totals)" for totals
    unfolding check_calls_totals by (intro pc_plain)
  then show ?thesis
    unfolding hook_body_def on_agents_def on_keychain_def is_tripped_def set_transaction_key_def set_tx_origin_def
      preflight_def split_def
    by (intro pc_plain)
qed

lemma seed_state:
  assumes "on_keychain (pc_then (set_tx_origin origin) (set_transaction_key key)) fs s = (Inr x, fs', t)"
  shows "t = set_identity origin key s"
proof -
  have "plain (on_keychain (pc_then (set_tx_origin origin) (set_transaction_key key)))"
    unfolding on_keychain_def set_tx_origin_def set_transaction_key_def by (intro pc_plain)
  from plainD [OF this assms] show ?thesis by (simp add: seed_run)
qed

lemma key_is_active_reads [pc_keep]: "pc_reads (key_is_active h a k)"
  unfolding key_is_active_def load_active_key_def key_read_def by (intro pc_keep)

lemma on_keychain_reads: "pc_reads m \<Longrightarrow> on_keychain m fs s = (r, fs', t) \<Longrightarrow> t = s"
  by (auto simp: on_keychain_def pc_zoom_def split: prod.splits dest: pc_readsD)

lemma key_is_active_sound:
  assumes "on_keychain (key_is_active h a k) fs s = (Inr True, fs', t)"
  shows "key_active (now h) (keys (keychain s) a k)"
proof -
  obtain key fs1 u where "load_active_key a k (now h) fs (keychain s) = (Inr key, fs1, u)"
    using assms by (auto simp: on_keychain_def pc_zoom_def key_is_active_def pc_catch_def pc_then_def pc_bind_def
        split: prod.splits sum.splits if_splits)
  from plainD [OF hook_plain(1) this] show ?thesis by (simp add: load_active_key_run split: if_splits)
qed

text \<open>A pass is earned, whatever the storage answered on the way.\<close>

lemma hook_pass_sound:
  assumes "order_ok order" "k \<noteq> 0" "scopes_wf (keychain s)"
    and "run_aa_keychain_hook abi order K ts root k calls gas fs s = (Inr Pass, fs', t)"
  shows "hook_admits abi (launch_host K ts) root k calls gas s \<and> t = set_identity k k s"
proof -
  let ?h = "launch_host K ts" and ?s = "set_identity k 0 s"
  obtain fs1 fs2 t1 where seed: "on_keychain (pc_then (set_tx_origin k) (set_transaction_key 0)) fs s = (Inr (), fs1, t1)"
    and probe: "on_keychain (key_is_active ?h root k) fs1 t1 = (Inr True, fs2, t1)"
    and body: "hook_body abi order ?h root k calls gas fs2 t1 = (Inr (), fs', t)"
    using assms(4) on_keychain_reads [OF key_is_active_reads]
    by (auto simp: run_aa_keychain_hook_def h_bind_def or_custom_def enter_keychain_storage_def
        split: prod.splits sum.splits if_splits) blast
  have t1: "t1 = ?s" using seed by (rule seed_state)
  have act: "key_active (now ?h) (keys (keychain ?s) root k)" using key_is_active_sound [OF probe] t1 by simp
  have "scopes_wf (keychain ?s)" using assms(3) by (simp add: scopes_wf_def)
  from hook_body_run [OF this assms(2) _ act assms(1), of abi calls gas]
  obtain e where run: "hook_body abi order ?h root k calls gas [] ?s =
     (if hook_admits abi ?h root k calls gas ?s then (Inr (), [], set_identity k k ?s)
      else (Inl e, [], if tripped (agents ?s) k then ?s else set_identity k k ?s))" by auto
  have "hook_body abi order ?h root k calls gas [] ?s = (Inr (), [], t)"
    using plainD [OF hook_body_plain body] t1 by simp
  moreover have "hook_admits abi ?h root k calls gas ?s \<longleftrightarrow> hook_admits abi ?h root k calls gas s"
    by (simp add: hook_admits_def)
  ultimately show ?thesis using run by (auto split: if_splits)
qed

text \<open>Charges at one time that fit together succeed one after the other, and each token loses what it was
  charged.\<close>

lemma spends_succeed:
  assumes "is_t3 (spec h)" "k \<noteq> 0" "key_active (now h) (keys s a k)" "enforce_limits (keys s a k)"
    and "\<And>tok. total_on tok xs \<le> unat (remaining (roll_over (limit_of h a k tok s) (now h)))"
  shows "\<exists>t. pc_each (\<lambda>(tok, amt). verify_and_update_spending h a k tok amt) xs [] s = (Inr (), [], t)
    \<and> (\<forall>tok. unat (remaining (roll_over (limit_of h a k tok t) (now h))) + total_on tok xs
         = unat (remaining (roll_over (limit_of h a k tok s) (now h))))"
  using assms(3-5)
proof (induction xs arbitrary: s)
  case (Cons x xs)
  obtain tok amt where x: "x = (tok, amt)" by (cases x)
  let ?rem = "\<lambda>tok s. remaining (roll_over (limit_of h a k tok s) (now h))"
  have "unat amt \<le> unat (?rem tok s)" using Cons.prems(3) [of tok] by (simp add: x)
  then obtain row where row: "charge (now h) amt (limit_of h a k tok s) = Some row"
    by (auto simp: charge_def Let_def word_less_nat_alt)
  define s1 where "s1 = add_event (AccessKeySpend a k tok amt (remaining row)) (put_limit (spending_limit_key h a k) tok row s)"
  have step: "verify_and_update_spending h a k tok amt [] s = (Inr (), [], s1)"
    using assms(1,2) Cons.prems(1,2) row by (simp add: verify_and_update_spending_run s1_def)
  have rem: "unat (?rem t s1) + (if tok = t then unat amt else 0) = unat (?rem t s)" for t
    using charged_row_settled [OF row key_active_now [OF Cons.prems(1)]] charge_SomeD(1) [OF row]
    by (auto simp: s1_def)
  have "total_on t xs \<le> unat (?rem t s1)" for t using Cons.prems(3) [of t] rem [of t] by (auto simp: x)
  with Cons.IH [of s1] Cons.prems(1,2) obtain t where
    t: "pc_each (\<lambda>(tok, amt). verify_and_update_spending h a k tok amt) xs [] s1 = (Inr (), [], t)"
      "\<And>tok. unat (?rem tok t) + total_on tok xs = unat (?rem tok s1)"
    by (auto simp: s1_def)
  have "unat (?rem u t) + total_on u (x # xs) = unat (?rem u s)" for u
    using t(2) [of u] rem [of u] by (simp add: x)
  with t(1) step show ?case by (auto simp: x pc_then_def pc_bind_def)
qed simp

text \<open>The deductions are a series of charges: the native total of gas and values, then the token calls.\<close>

definition sentinel_of :: "u256 \<Rightarrow> AaCall list \<Rightarrow> u256" where
  "sentinel_of gas calls = foldl (\<lambda>acc c. sat_add acc (call_value c)) gas calls"

definition deductions :: "token_abi \<Rightarrow> address \<Rightarrow> AaCall list \<Rightarrow> u256 \<Rightarrow> (address \<times> u256) list" where
  "deductions abi root calls gas =
     (if sentinel_of gas calls \<noteq> 0 then [(0, sentinel_of gas calls)] else [])
     @ concat (map (call_spends abi root) calls)"

lemma pc_each_append: "pc_each f (xs @ ys) = pc_then (pc_each f xs) (pc_each f ys)"
  by (induction xs) (simp_all add: pc_then_assoc del: pc_return_run)

lemma deduct_tokens:
  "pc_each (deduct_token abi h root k) calls =
   pc_each (\<lambda>(tok, amt). verify_and_update_spending h root k tok amt) (concat (map (call_spends abi root) calls))"
proof (induction calls)
  case (Cons c cs)
  have one: "pc_then m (pc_return ()) = m" for m :: "unit kc"
    by (auto simp: pc_then_def pc_bind_def fun_eq_iff split: prod.splits sum.splits)
  have "pc_each (deduct_token abi h root k) (c # cs) = pc_then
      (pc_each (\<lambda>(tok, amt). verify_and_update_spending h root k tok amt) (call_spends abi root c))
      (pc_each (deduct_token abi h root k) cs)"
    by (simp add: deduct_token_def call_spends_def one split: TxKind.split option.split)
  then show ?case unfolding Cons.IH by (simp add: pc_each_append)
qed simp

lemma apply_deductions:
  "apply_aa_post_execution_deductions abi K ts root k calls gas = or_custom ''apply AA deductions failed''
     (on_keychain (pc_each (\<lambda>(tok, amt). verify_and_update_spending (launch_host K ts) root k tok amt)
       (deductions abi root calls gas)))"
  unfolding apply_aa_post_execution_deductions_def enter_keychain_storage_def deductions_def sentinel_of_def Let_def
    deduct_tokens
  by simp

lemma sentinel_of_value: "unat (sentinel_of gas calls) = min (unat gas + sum_list (map (\<lambda>c. unat (call_value c)) calls)) (2 ^ 256 - 1)"
proof (induction calls arbitrary: gas)
  case Nil
  show ?case using unat_le_max [of gas] by (simp add: sentinel_of_def)
next
  case (Cons c cs)
  have "sentinel_of gas (c # cs) = sentinel_of (sat_add gas (call_value c)) cs" by (simp add: sentinel_of_def)
  then show ?case using Cons.IH [of "sat_add gas (call_value c)"] by (simp add: unat_sat_add)
qed

lemma batch_spends_total:
  "total_on tok (batch_spends abi root calls gas) =
     (if tok = 0 then unat gas + sum_list (map (\<lambda>c. unat (call_value c)) calls) else 0)
     + total_on tok (concat (map (call_spends abi root) calls))"
proof -
  have "total_on tok (concat (map (\<lambda>c. (if call_value c \<noteq> 0 then [(0, call_value c)] else []) @ call_spends abi root c) calls))
      = (if tok = 0 then sum_list (map (\<lambda>c. unat (call_value c)) calls) else 0)
        + total_on tok (concat (map (call_spends abi root) calls))"
    by (induction calls) auto
  then show ?thesis by (auto simp: batch_spends_def)
qed

lemma deductions_total:
  assumes "total_on 0 (batch_spends abi root calls gas) < 2 ^ 256"
  shows "total_on tok (deductions abi root calls gas) = total_on tok (batch_spends abi root calls gas)"
proof -
  have "unat gas + sum_list (map (\<lambda>c. unat (call_value c)) calls) \<le> 2 ^ 256 - 1"
    using assms unfolding batch_spends_total by simp
  then have "unat (sentinel_of gas calls) = unat gas + sum_list (map (\<lambda>c. unat (call_value c)) calls)"
    unfolding sentinel_of_value by (rule min_absorb1)
  moreover have "unat (sentinel_of gas calls) = 0" if "sentinel_of gas calls = 0" using that by simp
  ultimately show ?thesis unfolding batch_spends_total deductions_def by auto
qed

text \<open>A batch that passed the gate can always be paid for. After the hook has passed a transaction of a reachable
  keychain and the batch has run, whatever it called, the deferred deductions cannot fail: they charge the calls of the
  batch, or none of them if the batch was reverted, and at most the reserved gas, and every token loses exactly what the
  batch spent on it.\<close>

lemma deductions_settle:
  assumes reach: "kc_steps K empty_keychain (keychain s)" and order: "order_ok order" and k: "k \<noteq> 0"
    and pass: "run_aa_keychain_hook abi order K ts root k calls reserved fs s = (Inr Pass, fs', s1)"
    and batch: "(kc_frame_step (launch_host K ts))\<^sup>*\<^sup>* (keychain s1) (keychain s2)"
    and outcome: "calls' = calls \<or> calls' = []" and gas: "gas \<le> reserved"
  shows "\<exists>s3. apply_aa_post_execution_deductions abi K ts root k calls' gas [] s2 = (Inr (), [], s3)
    \<and> (enforce_limits (keys (keychain s) root k) \<longrightarrow> (\<forall>tok.
         unat (remaining (roll_over (limit_of (launch_host K ts) root k tok (keychain s3)) (saturating_to_u64 ts)))
           + total_on tok (batch_spends abi root calls' gas)
         = unat (remaining (roll_over (limit_of (launch_host K ts) root k tok (keychain s)) (saturating_to_u64 ts)))))"
proof -
  let ?h = "launch_host K ts" and ?kc = "keychain s2"
  have inv: "scopes_wf (keychain s)" "rows_ok (keychain s)"
    using reach steps_scopes_wf steps_rows_ok empty_keychain_ok by blast+
  have adm: "hook_admits abi ?h root k calls reserved s" and s1: "s1 = set_identity k k s"
    using hook_pass_sound [OF order k inv(1) pass] by simp_all
  have "policy_fixed (keychain s1) ?kc" using batch by (rule frames_policy_fixed) (simp add: s1 k)
  then have same: "keys ?kc = keys (keychain s)" "spending_limits ?kc = spending_limits (keychain s)"
    by (simp_all add: policy_fixed_def policy_def s1)
  have act: "key_active (now ?h) (keys ?kc root k)" using adm by (simp add: hook_admits_def same)
  let ?xs = "deductions abi root calls' gas"
  show ?thesis
  proof (cases "enforce_limits (keys ?kc root k)")
    case False
    have "pc_each (\<lambda>(tok, amt). verify_and_update_spending ?h root k tok amt) xs [] ?kc = (Inr (), [], ?kc)" for xs
      using k act False by (induction xs) (auto simp: pc_then_def pc_bind_def verify_and_update_spending_run)
    then show ?thesis
      using False same by (auto simp: apply_deductions or_custom_def on_keychain_def pc_zoom_def)
  next
    case True
    let ?rem = "\<lambda>tok s. unat (remaining (roll_over (limit_of ?h root k tok s) (now ?h)))"
    have small: "?rem tok (keychain s) < 2 ^ 128" for tok
      using roll_over_row_ok [of "limit_of ?h root k tok (keychain s)" "now ?h"] inv(2)
        unsigned_less [of "max_limit (limit_of ?h root k tok (keychain s))"]
      by (auto simp: rows_ok_def row_ok_def dest: spec intro: le_less_trans)
    have fits: "total_on tok (batch_spends abi root calls reserved) \<le> ?rem tok (keychain s)" for tok
    proof -
      have "min (total_on tok (batch_spends abi root calls reserved)) (2 ^ 256 - 1) \<le> ?rem tok (keychain s)"
        using adm True same by (simp add: hook_admits_def)
      then show ?thesis using small [of tok] by (simp add: min_le_iff_disj)
    qed
    have le: "total_on tok (batch_spends abi root calls' gas) \<le> ?rem tok (keychain s)" for tok
      using fits [of tok] gas outcome unfolding batch_spends_total by (auto simp: word_le_nat_alt)
    have "total_on 0 (batch_spends abi root calls' gas) < 2 ^ 256" using le [of 0] small [of 0] by simp
    note total = deductions_total [OF this]
    have "\<exists>t. pc_each (\<lambda>(tok, amt). verify_and_update_spending ?h root k tok amt) ?xs [] ?kc = (Inr (), [], t)
        \<and> (\<forall>tok. ?rem tok t + total_on tok ?xs = ?rem tok ?kc)"
      using le by (intro spends_succeed k act True) (simp_all add: total same)
    then show ?thesis
      by (auto simp: apply_deductions or_custom_def on_keychain_def pc_zoom_def total same)
  qed
qed

definition transfer_call :: "u8 \<Rightarrow> AaCall" where
  "transfer_call amt = \<lparr>call_to = Call 9, call_value = 0,
     call_input = [0xa9, 0x05, 0x9c, 0xbb, 0, 0, 0, 0, 0, 0, 0, 0, 0, 0, 0, 0, 0, 0, 0, 0,
        0, 0, 0, 0, 0, 0, 0, 0, 0, 0, 0, 0, 0, 0, 0, 5, amt]\<rparr>"

lemma transfer_call_facts:
  "call_to (transfer_call amt) = Call 9" "call_value (transfer_call amt) = 0"
  "batch_spends sample_abi 1 [transfer_call amt] 0 = [(9, ucast amt)]"
  "call_permitted (True, allowedCalls sample_restrictions) 9 (call_input (transfer_call amt))"
proof -
  have sel: "input_selector (0xa9 # 0x05 # 0x9c # 0xbb # xs) = 0xa9059cbb" for xs
    by (simp add: input_selector_def be_word_def)
  show "call_to (transfer_call amt) = Call 9" "call_value (transfer_call amt) = 0"
    by (simp_all add: transfer_call_def)
  show "batch_spends sample_abi 1 [transfer_call amt] 0 = [(9, ucast amt)]"
    using sel by (simp add: batch_spends_def transfer_call_def call_spends_def classify_token_call_def
      IERC20_TRANSFER_def sample_abi_def)
  show "call_permitted (True, allowedCalls sample_restrictions) 9 (call_input (transfer_call amt))"
    using sel by (simp add: call_permitted_def sample_restrictions_def rules_permit_def transfer_call_def
      recipient_ok_def recipient_word_def TIP20_TRANSFER_SELECTOR_def be_word_def)
qed

lemma sample_pass:
  assumes "order_ok order"
  obtains s where "kc_steps be_word empty_keychain (keychain s)" "enforce_limits (keys (keychain s) 1 2)"
    "unat (remaining (roll_over (limit_of (launch_host be_word 1000) 1 2 9 (keychain s)) 1000)) = 100"
    "run_aa_keychain_hook sample_abi order be_word 1000 1 2 [transfer_call 40] 0 [] s = (Inr Pass, [], set_identity 2 2 s)"
proof -
  let ?h = "launch_host be_word 1000"
  obtain kc where kc: "kc_steps be_word empty_keychain kc" "key_active 1000 (keys kc 1 2)"
    "scope_view (key_scopes kc (spending_limit_key ?h 1 2)) = (True, allowedCalls sample_restrictions)"
    "scopes_wf kc" "keys kc 1 2 = fresh_row P256 sample_restrictions"
    "limit_of ?h 1 2 9 kc = \<lparr>remaining = 100, max_limit = 100, period = 50, period_end = 1050\<rparr>"
    by (rule sample_reachable)
  define s where "s = \<lparr>keychain = kc, agents = \<lparr>tripped = (\<lambda>_. False), agent_events = []\<rparr>\<rparr>"
  have now: "saturating_to_u64 1000 = 1000" by (simp add: saturating_to_u64_def)
  have rem: "unat (remaining (roll_over (limit_of ?h 1 2 9 kc) 1000)) = 100" by (simp add: kc(6) roll_over_def)
  have "hook_admits sample_abi ?h 1 2 [transfer_call 40] 0 s"
    using kc(2,3) rem by (auto simp: hook_admits_def s_def transfer_call_facts now)
  then have "run_aa_keychain_hook sample_abi order be_word 1000 1 2 [transfer_call 40] 0 [] s = (Inr Pass, [], set_identity 2 2 s)"
    using hook_run [of order 2 s sample_abi be_word 1000 1 "[transfer_call 40]" 0] kc(4) assms
    by (simp add: s_def)
  moreover have "enforce_limits (keys (keychain s) 1 2)" using kc(5) by (simp add: s_def fresh_row_def sample_restrictions_def)
  ultimately show thesis using kc(1) rem by (intro that [of s]) (simp_all add: s_def)
qed

section \<open>Faults are not verdicts\<close>

text \<open>What the storage provider reports when an access fails is a system error: out of gas or a fatal
  database error. A faithful program run against such a script either ends in a system error or answers
  what it answers without faults.\<close>

primrec system_access :: "access \<Rightarrow> bool" where
  "system_access Done = True"
| "system_access (Fail e) = is_system_error e"
| "system_access (Late e) = is_system_error e"

definition faithful :: "('s, 'a) pc \<Rightarrow> bool" where
  "faithful m \<longleftrightarrow> (\<forall>fs s r fs' t. list_all system_access fs \<longrightarrow> m fs s = (r, fs', t) \<longrightarrow>
     list_all system_access fs' \<and> ((\<exists>e. r = Inl e \<and> is_system_error e) \<or> m [] s = (r, [], t)))"

lemma faithfulD:
  assumes "faithful m" "list_all system_access fs" "m fs s = (r, fs', t)"
  obtains e where "list_all system_access fs'" "r = Inl e" "is_system_error e"
  | "list_all system_access fs'" "m [] s = (r, [], t)"
  using assms unfolding faithful_def by blast

lemma next_access_system:
  assumes "list_all system_access fs" "next_access fs = (x, fs')"
  shows "list_all system_access fs' \<and> system_access x"
  using assms by (cases fs) auto

lemma faithful_access:
  assumes "\<And>fs s. m fs s = (case next_access fs of (Done, fs') \<Rightarrow> (Inr (v s), fs', u s)
    | (Fail e, fs') \<Rightarrow> (Inl e, fs', s) | (Late e, fs') \<Rightarrow> (Inl e, fs', w s))"
  shows "faithful m"
  unfolding faithful_def
proof (intro allI impI)
  fix fs s r fs' t
  assume fs: "list_all system_access fs" and run: "m fs s = (r, fs', t)"
  obtain x fs1 where x: "next_access fs = (x, fs1)" by (cases "next_access fs")
  with fs have "list_all system_access fs1 \<and> system_access x" by (rule next_access_system)
  then show "list_all system_access fs' \<and> ((\<exists>e. r = Inl e \<and> is_system_error e) \<or> m [] s = (r, [], t))"
    using run x by (cases x) (auto simp: assms)
qed

lemma faithful_basic:
  "faithful (pc_return x)" "faithful (pc_throw e)" "faithful (pc_read g)" "faithful (pc_write u)"
proof -
  show "faithful (pc_return x)" "faithful (pc_throw e)" by (simp_all add: faithful_def)
  show "faithful (pc_read g)" by (rule faithful_access [of _ g "\<lambda>s. s" "\<lambda>s. s"]) (simp add: pc_read_def)
  show "faithful (pc_write u)" by (rule faithful_access [of _ "\<lambda>_. ()" u u]) (simp add: pc_write_def)
qed

lemma faithful_bind:
  assumes m: "faithful m" and k: "\<And>x. faithful (k x)"
  shows "faithful (pc_bind m k)"
  unfolding faithful_def
proof (intro allI impI)
  fix fs s r fs' t
  assume fs: "list_all system_access fs" and run: "pc_bind m k fs s = (r, fs', t)"
  show "list_all system_access fs' \<and> ((\<exists>e. r = Inl e \<and> is_system_error e) \<or> pc_bind m k [] s = (r, [], t))"
    using run
  proof (cases rule: pc_bind_elim)
    case (1 e)
    from m fs 1(1) show ?thesis by (rule faithfulD) (use 1(2) in \<open>auto simp: pc_bind_Inl\<close>)
  next
    case (2 x fs1 s1)
    from m fs 2(1) have "m [] s = (Inr x, [], s1)" and fs1: "list_all system_access fs1"
      by (auto elim: faithfulD)
    moreover from k fs1 2(2) have "list_all system_access fs'
        \<and> ((\<exists>e. r = Inl e \<and> is_system_error e) \<or> k x [] s1 = (r, [], t))" unfolding faithful_def by blast
    ultimately show ?thesis by (simp add: pc_bind_Inr)
  qed
qed

lemma faithful_then: "faithful m \<Longrightarrow> faithful n \<Longrightarrow> faithful (pc_then m n)"
  unfolding pc_then_def by (rule faithful_bind)

lemma faithful_if: "faithful m \<Longrightarrow> faithful n \<Longrightarrow> faithful (if b then m else n)"
  by simp

lemma faithful_zoom:
  assumes "faithful m"
  shows "faithful (pc_zoom g p m)"
  using assms unfolding faithful_def pc_zoom_def by (auto split: prod.splits) (metis prod.inject)+

lemma faithful_each: "(\<And>x. faithful (f x)) \<Longrightarrow> faithful (pc_each f xs)"
  by (induction xs) (simp_all add: faithful_then faithful_basic(1) del: pc_return_run)

lemma faithful_catch:
  assumes m: "faithful m" and h: "\<And>e. faithful (h e)" and sys: "\<And>e. is_system_error e \<Longrightarrow> h e = pc_throw e"
  shows "faithful (pc_catch m h)"
  unfolding faithful_def
proof (intro allI impI)
  fix fs s r fs' t
  assume fs: "list_all system_access fs" and run: "pc_catch m h fs s = (r, fs', t)"
  obtain r1 fs1 s1 where eq: "m fs s = (r1, fs1, s1)" by (cases "m fs s")
  from m fs eq show "list_all system_access fs' \<and> ((\<exists>e. r = Inl e \<and> is_system_error e) \<or> pc_catch m h [] s = (r, [], t))"
  proof (rule faithfulD)
    fix e
    assume "list_all system_access fs1" "r1 = Inl e" "is_system_error e"
    then show ?thesis using run eq sys by (auto simp: pc_catch_def)
  next
    assume ok: "list_all system_access fs1" "m [] s = (r1, [], s1)"
    show ?thesis
    proof (cases r1)
      case (Inl e)
      then have "h e fs1 s1 = (r, fs', t)" using run eq by (simp add: pc_catch_def)
      with h [of e] ok(1) show ?thesis unfolding faithful_def using ok(2) Inl by (auto simp: pc_catch_def)
    next
      case (Inr x)
      then show ?thesis using run eq ok by (auto simp: pc_catch_def)
    qed
  qed
qed

lemmas faithful_rules = faithful_basic faithful_bind faithful_then faithful_if faithful_zoom faithful_each

lemma hook_parts_faithful:
  "faithful (load_active_key a k t)" "faithful (key_is_active h a k)" "faithful (effective_remaining_limit h a k tok t)"
  "faithful (validate_call_scope_for_transaction h a k dest input)"
proof -
  show load: "faithful (load_active_key a k t)" for a k t
    unfolding load_active_key_def key_read_def by (intro faithful_rules)
  show "faithful (key_is_active h a k)"
    unfolding key_is_active_def by (intro faithful_catch faithful_rules load) simp_all
  show "faithful (effective_remaining_limit h a k tok t)"
    unfolding effective_remaining_limit_def effective_limit_state_def key_read_def Let_def split_def
    by (intro faithful_rules)
  show "faithful (validate_call_scope_for_transaction h a k dest input)"
    unfolding validate_call_scope_for_transaction_def is_scoped_read_def on_targets_def on_selectors_def
      on_recipients_def Let_def set_contains_def set_is_empty_def load_checked_len_def position_read_def
    by (cases dest) (simp_all only: TxKind.case, (intro faithful_rules)+)
qed

lemma hook_body_faithful: "faithful (hook_body abi order h root k calls gas)"
proof -
  have "faithful (check_calls abi h root k calls totals)" for totals
    unfolding check_calls_totals by (intro faithful_rules hook_parts_faithful)
  then show ?thesis
    unfolding hook_body_def on_agents_def on_keychain_def is_tripped_def set_transaction_key_def set_tx_origin_def
      preflight_def split_def key_read_def
    by (intro faithful_rules hook_parts_faithful)
qed

text \<open>C13: a fault of the node is never taken for a verdict. Whatever storage accesses fail, the hook either
  reports a hard error that stops the node from building on it, or returns exactly the verdict and state it
  returns with healthy storage.\<close>

theorem hook_faults_are_not_verdicts:
  assumes "list_all system_access fs"
    and "run_aa_keychain_hook abi order K ts root k calls gas fs s = (r, fs', t)"
  shows "(\<exists>msg e. r = Inl (CustomError msg (Some e)) \<and> is_system_error e)
    \<or> run_aa_keychain_hook abi order K ts root k calls gas [] s = (r, [], t)"
proof -
  let ?h = "launch_host K ts"
  let ?seed = "on_keychain (pc_then (set_tx_origin k) (set_transaction_key 0)) :: (sci_state, unit) pc"
  let ?probe = "on_keychain (key_is_active ?h root k)"
  let ?body = "hook_body abi order ?h root k calls gas"
  have f: "faithful ?seed" "faithful ?probe"
    unfolding on_keychain_def set_tx_origin_def set_transaction_key_def
    by (intro faithful_rules hook_parts_faithful)+
  note run = assms(2) [unfolded run_aa_keychain_hook_def h_bind_def or_custom_def enter_keychain_storage_def]
  note defs = run_aa_keychain_hook_def h_bind_def or_custom_def enter_keychain_storage_def
  obtain r1 fs1 s1 where 1: "?seed fs s = (r1, fs1, s1)" by (cases "?seed fs s")
  from f(1) assms(1) 1 show ?thesis
  proof (rule faithfulD)
    assume ok1: "list_all system_access fs1" "?seed [] s = (r1, [], s1)"
    obtain r2 fs2 s2 where 2: "?probe fs1 s1 = (r2, fs2, s2)" by (cases "?probe fs1 s1")
    from f(2) ok1(1) 2 show ?thesis
    proof (rule faithfulD)
      assume ok2: "list_all system_access fs2" "?probe [] s1 = (r2, [], s2)"
      obtain r3 fs3 s3 where 3: "?body fs2 s2 = (r3, fs3, s3)" by (cases "?body fs2 s2")
      from hook_body_faithful ok2(1) 3 show ?thesis
        by (rule faithfulD) (use run 1 2 3 ok1 ok2 in \<open>auto simp: defs split: sum.splits if_splits\<close>)
    qed (use run 1 2 ok1 in \<open>auto simp: defs split: sum.splits if_splits\<close>)
  qed (use run 1 in \<open>auto simp: defs split: sum.splits\<close>)
qed

theorem hook_faults_are_not_verdicts_witness:
  "list_all system_access [Done, Done, Fail (Fatal ''db'')]
   \<and> (\<exists>msg e. fst (run_aa_keychain_hook sample_abi rev be_word 1000 1 2 [sample_call 40] 0
        [Done, Done, Fail (Fatal ''db'')] sample_state) = Inl (CustomError msg (Some e)) \<and> is_system_error e)"
proof -
  let ?fs = "[Done, Done, Fail (Fatal ''db'')]"
  obtain r fs' t where run: "run_aa_keychain_hook sample_abi rev be_word 1000 1 2 [sample_call 40] 0 ?fs sample_state = (r, fs', t)"
    by (cases "run_aa_keychain_hook sample_abi rev be_word 1000 1 2 [sample_call 40] 0 ?fs sample_state")
  have "r \<noteq> Inr x" for x
    using run by (auto simp: run_aa_keychain_hook_def h_bind_def or_custom_def enter_keychain_storage_def on_keychain_def
        pc_zoom_def set_tx_origin_def set_transaction_key_def pc_then_def pc_bind_def pc_write_def key_is_active_def
        pc_catch_def load_active_key_def key_read_def pc_read_def)
  moreover have "(\<exists>msg e. r = Inl (CustomError msg (Some e)) \<and> is_system_error e)
    \<or> run_aa_keychain_hook sample_abi rev be_word 1000 1 2 [sample_call 40] 0 [] sample_state = (r, [], t)"
    by (rule hook_faults_are_not_verdicts [OF _ run]) simp
  moreover have "\<exists>x. fst (run_aa_keychain_hook sample_abi rev be_word 1000 1 2 [sample_call 40] 0 [] sample_state) = Inr x"
    using hook_run [of rev 2 sample_state sample_abi be_word 1000 1 "[sample_call 40]" 0]
    by (auto simp: order_ok_def sample_state_def sample_scopes split: if_splits)
  ultimately show ?thesis using run by auto
qed

end
