(* ===== verification/Transactions.thy ===== *)
theory Transactions
  imports Hook
begin

text \<open>
  The transactions of the chain: the account-abstraction transaction
  (\<open>crates/common/consensus/src/transaction/aa.rs\<close>), deposits (\<open>transaction/deposit.rs\<close>), their RLP fields, and
  the environment the handlers execute (\<open>crates/common/evm/src/transaction/core.rs\<close>, \<open>transaction/deposit.rs\<close>).

  The RLP codecs of integers, addresses, lists and headers come from \<open>alloy-rlp\<close>; they are parameters with the round
  trip each of them documents. A \<open>Call\<close> of a transaction and the \<open>AaCall\<close> the hook receives have the same
  three fields and share a record. The conversions of foreign transaction types to an environment are parameters too.
\<close>

section \<open>Account-abstraction transactions\<close>

definition SCI_AA_TX_TYPE_ID :: u8 where "SCI_AA_TX_TYPE_ID = 0x76"

type_synonym AccessList = "(address \<times> u256 list) list"

record BaseAaTransaction =
  at_chain_id :: u64
  at_nonce :: u64
  at_max_priority_fee_per_gas :: u128
  at_max_fee_per_gas :: u128
  at_gas_limit :: u64
  at_calls :: "AaCall list"
  at_access_list :: AccessList
  at_fee_payer :: "address option"
  at_root :: "address option"

record TxEip1559 =
  te_chain_id :: u64
  te_nonce :: u64
  te_gas_limit :: u64
  te_max_fee_per_gas :: u128
  te_max_priority_fee_per_gas :: u128
  te_to :: TxKind
  te_value :: u256
  te_access_list :: AccessList
  te_input :: bytes

definition to_eip1559_first_call :: "BaseAaTransaction \<Rightarrow> TxEip1559" where
  "to_eip1559_first_call self =
     (let (to, val, inp) = (case at_calls self of
        c # cs \<Rightarrow> (call_to c, call_value c, call_input c) | [] \<Rightarrow> (Create, 0, []))
      in \<lparr>te_chain_id = at_chain_id self, te_nonce = at_nonce self, te_gas_limit = at_gas_limit self,
          te_max_fee_per_gas = at_max_fee_per_gas self,
          te_max_priority_fee_per_gas = at_max_priority_fee_per_gas self,
          te_to = to, te_value = val, te_access_list = at_access_list self, te_input = inp\<rparr>)"

definition aa_kind :: "BaseAaTransaction \<Rightarrow> TxKind" where
  "aa_kind self = (case at_calls self of c # cs \<Rightarrow> call_to c | [] \<Rightarrow> Create)"

definition aa_value :: "BaseAaTransaction \<Rightarrow> u256" where
  "aa_value self = foldl (\<lambda>acc call. sat_add acc (call_value call)) 0 (at_calls self)"

definition aa_input :: "BaseAaTransaction \<Rightarrow> bytes" where
  "aa_input self = (case at_calls self of c # cs \<Rightarrow> call_input c | [] \<Rightarrow> [])"

section \<open>RLP\<close>

datatype rlp_error = UnexpectedString | InputTooShort | UnexpectedLength | UnexpectedType u8 | OtherRlp string

record 'a codec =
  enc :: "'a \<Rightarrow> bytes"
  enc_len :: "'a \<Rightarrow> nat"
  dec :: "bytes \<Rightarrow> rlp_error + 'a \<times> bytes"

record Header =
  header_list :: bool
  payload_length :: nat

record rlp =
  c_u64 :: "u64 codec"
  c_u128 :: "u128 codec"
  c_u256 :: "u256 codec"
  c_b256 :: "b256 codec"
  c_bool :: "bool codec"
  c_address :: "address codec"
  c_kind :: "TxKind codec"
  c_bytes :: "bytes codec"
  c_calls :: "AaCall list codec"
  c_access_list :: "AccessList codec"
  c_header :: "Header codec"

definition EMPTY_STRING_CODE :: u8 where "EMPTY_STRING_CODE = 0x80"

definition dec_bind :: "(rlp_error + 'a \<times> bytes) \<Rightarrow> ('a \<Rightarrow> bytes \<Rightarrow> rlp_error + 'b) \<Rightarrow> rlp_error + 'b" where
  "dec_bind r f = (case r of Inl e \<Rightarrow> Inl e | Inr (x, buf) \<Rightarrow> f x buf)"

definition opt_address_rlp_len :: "rlp \<Rightarrow> address option \<Rightarrow> nat" where
  "opt_address_rlp_len L addr = (case addr of None \<Rightarrow> 1 | Some a \<Rightarrow> enc_len (c_address L) a)"

definition encode_opt_address :: "rlp \<Rightarrow> address option \<Rightarrow> bytes" where
  "encode_opt_address L addr = (case addr of Some a \<Rightarrow> enc (c_address L) a | None \<Rightarrow> [EMPTY_STRING_CODE])"

definition decode_opt_address :: "rlp \<Rightarrow> bytes \<Rightarrow> rlp_error + address option \<times> bytes" where
  "decode_opt_address L buf =
     (if buf \<noteq> [] \<and> hd buf = EMPTY_STRING_CODE then Inr (None, tl buf)
      else dec_bind (dec (c_address L) buf) (\<lambda>a buf. Inr (Some a, buf)))"

definition aa_rlp_encoded_fields_length :: "rlp \<Rightarrow> BaseAaTransaction \<Rightarrow> nat" where
  "aa_rlp_encoded_fields_length L self =
     enc_len (c_u64 L) (at_chain_id self)
     + enc_len (c_u64 L) (at_nonce self)
     + enc_len (c_u128 L) (at_max_priority_fee_per_gas self)
     + enc_len (c_u128 L) (at_max_fee_per_gas self)
     + enc_len (c_u64 L) (at_gas_limit self)
     + enc_len (c_calls L) (at_calls self)
     + enc_len (c_access_list L) (at_access_list self)
     + opt_address_rlp_len L (at_fee_payer self)
     + opt_address_rlp_len L (at_root self)"

definition aa_rlp_encode_fields :: "rlp \<Rightarrow> BaseAaTransaction \<Rightarrow> bytes" where
  "aa_rlp_encode_fields L self =
     enc (c_u64 L) (at_chain_id self)
     @ enc (c_u64 L) (at_nonce self)
     @ enc (c_u128 L) (at_max_priority_fee_per_gas self)
     @ enc (c_u128 L) (at_max_fee_per_gas self)
     @ enc (c_u64 L) (at_gas_limit self)
     @ enc (c_calls L) (at_calls self)
     @ enc (c_access_list L) (at_access_list self)
     @ encode_opt_address L (at_fee_payer self)
     @ encode_opt_address L (at_root self)"

definition aa_rlp_decode_fields :: "rlp \<Rightarrow> bytes \<Rightarrow> rlp_error + BaseAaTransaction \<times> bytes" where
  "aa_rlp_decode_fields L buf =
     dec_bind (dec (c_u64 L) buf) (\<lambda>chain_id buf.
     dec_bind (dec (c_u64 L) buf) (\<lambda>nonce buf.
     dec_bind (dec (c_u128 L) buf) (\<lambda>max_priority_fee buf.
     dec_bind (dec (c_u128 L) buf) (\<lambda>max_fee buf.
     dec_bind (dec (c_u64 L) buf) (\<lambda>gas_limit buf.
     dec_bind (dec (c_calls L) buf) (\<lambda>calls buf.
     dec_bind (dec (c_access_list L) buf) (\<lambda>access_list buf.
     dec_bind (decode_opt_address L buf) (\<lambda>fee_payer buf.
     dec_bind (decode_opt_address L buf) (\<lambda>root buf.
       Inr (\<lparr>at_chain_id = chain_id, at_nonce = nonce, at_max_priority_fee_per_gas = max_priority_fee,
         at_max_fee_per_gas = max_fee, at_gas_limit = gas_limit, at_calls = calls, at_access_list = access_list,
         at_fee_payer = fee_payer, at_root = root\<rparr>, buf))))))))))"

text \<open>The bytes the session key signs.\<close>

definition encode_for_signing :: "rlp \<Rightarrow> BaseAaTransaction \<Rightarrow> bytes" where
  "encode_for_signing L self =
     SCI_AA_TX_TYPE_ID
     # enc (c_header L) \<lparr>header_list = True, payload_length = aa_rlp_encoded_fields_length L self\<rparr>
     @ aa_rlp_encode_fields L self"

section \<open>Deposits\<close>

definition DEPOSIT_TRANSACTION_TYPE :: u8 where "DEPOSIT_TRANSACTION_TYPE = 0x7E"

record TxDeposit =
  td_source_hash :: b256
  td_from :: address
  td_to :: TxKind
  td_mint :: u128
  td_value :: u256
  td_gas_limit :: u64
  td_is_system_transaction :: bool
  td_input :: bytes

definition deposit_rlp_decode_fields :: "rlp \<Rightarrow> bytes \<Rightarrow> rlp_error + TxDeposit \<times> bytes" where
  "deposit_rlp_decode_fields L buf =
     dec_bind (dec (c_b256 L) buf) (\<lambda>source_hash buf.
     dec_bind (dec (c_address L) buf) (\<lambda>from_addr buf.
     dec_bind (dec (c_kind L) buf) (\<lambda>to buf.
     dec_bind (dec (c_u128 L) buf) (\<lambda>mint buf.
     dec_bind (dec (c_u256 L) buf) (\<lambda>val buf.
     dec_bind (dec (c_u64 L) buf) (\<lambda>gas_limit buf.
     dec_bind (dec (c_bool L) buf) (\<lambda>is_system buf.
     dec_bind (dec (c_bytes L) buf) (\<lambda>inp buf.
       Inr (\<lparr>td_source_hash = source_hash, td_from = from_addr, td_to = to, td_mint = mint, td_value = val,
         td_gas_limit = gas_limit, td_is_system_transaction = is_system, td_input = inp\<rparr>, buf)))))))))"

definition deposit_rlp_decode :: "rlp \<Rightarrow> bytes \<Rightarrow> rlp_error + TxDeposit \<times> bytes" where
  "deposit_rlp_decode L buf =
     dec_bind (dec (c_header L) buf) (\<lambda>header buf.
     if \<not> header_list header then Inl UnexpectedString
     else let rem = length buf in
       if payload_length header > rem then Inl InputTooShort
       else dec_bind (deposit_rlp_decode_fields L buf) (\<lambda>this buf.
         if length buf + payload_length header \<noteq> rem then Inl UnexpectedLength
         else Inr (this, buf)))"

definition deposit_rlp_encoded_fields_length :: "rlp \<Rightarrow> TxDeposit \<Rightarrow> nat" where
  "deposit_rlp_encoded_fields_length L self =
     enc_len (c_b256 L) (td_source_hash self)
     + enc_len (c_address L) (td_from self)
     + enc_len (c_kind L) (td_to self)
     + enc_len (c_u128 L) (td_mint self)
     + enc_len (c_u256 L) (td_value self)
     + enc_len (c_u64 L) (td_gas_limit self)
     + enc_len (c_bool L) (td_is_system_transaction self)
     + enc_len (c_bytes L) (td_input self)"

definition deposit_rlp_encode_fields :: "rlp \<Rightarrow> TxDeposit \<Rightarrow> bytes" where
  "deposit_rlp_encode_fields L self =
     enc (c_b256 L) (td_source_hash self)
     @ enc (c_address L) (td_from self)
     @ enc (c_kind L) (td_to self)
     @ enc (c_u128 L) (td_mint self)
     @ enc (c_u256 L) (td_value self)
     @ enc (c_u64 L) (td_gas_limit self)
     @ enc (c_bool L) (td_is_system_transaction self)
     @ enc (c_bytes L) (td_input self)"

definition deposit_rlp_header :: "rlp \<Rightarrow> TxDeposit \<Rightarrow> Header" where
  "deposit_rlp_header L self = \<lparr>header_list = True, payload_length = deposit_rlp_encoded_fields_length L self\<rparr>"

definition deposit_rlp_encode :: "rlp \<Rightarrow> TxDeposit \<Rightarrow> bytes" where
  "deposit_rlp_encode L self = enc (c_header L) (deposit_rlp_header L self) @ deposit_rlp_encode_fields L self"

definition deposit_encode_2718 :: "rlp \<Rightarrow> TxDeposit \<Rightarrow> bytes" where
  "deposit_encode_2718 L self = DEPOSIT_TRANSACTION_TYPE # deposit_rlp_encode L self"

definition deposit_typed_decode :: "rlp \<Rightarrow> u8 \<Rightarrow> bytes \<Rightarrow> rlp_error + TxDeposit \<times> bytes" where
  "deposit_typed_decode L ty data =
     (if ty \<noteq> DEPOSIT_TRANSACTION_TYPE then Inl (UnexpectedType ty) else deposit_rlp_decode L data)"

definition deposit_tx_hash :: "(bytes \<Rightarrow> b256) \<Rightarrow> rlp \<Rightarrow> TxDeposit \<Rightarrow> b256" where
  "deposit_tx_hash K L self = K (deposit_encode_2718 L self)"

section \<open>The environment of a transaction\<close>

record TxEnv =
  env_type :: u8
  env_caller :: address
  env_gas_limit :: u64
  env_gas_price :: u128
  env_kind :: TxKind
  env_value :: u256
  env_data :: bytes
  env_nonce :: u64

record DepositTransactionParts =
  source_hash :: b256
  mint :: "u128 option"
  is_system_transaction :: bool

definition default_deposit_parts :: DepositTransactionParts where
  "default_deposit_parts = \<lparr>source_hash = 0, mint = None, is_system_transaction = False\<rparr>"

record AaTransactionParts =
  aa_calls :: "AaCall list"
  aa_root :: "address option"
  aa_fee_payer :: "address option"

record BaseTransaction =
  base :: TxEnv
  enveloped_tx :: "bytes option"
  deposit :: DepositTransactionParts
  aa :: "AaTransactionParts option"

abbreviation tx_caller :: "BaseTransaction \<Rightarrow> address" where "tx_caller tx \<equiv> env_caller (base tx)"
abbreviation tx_gas_limit :: "BaseTransaction \<Rightarrow> u64" where "tx_gas_limit tx \<equiv> env_gas_limit (base tx)"
abbreviation tx_value :: "BaseTransaction \<Rightarrow> u256" where "tx_value tx \<equiv> env_value (base tx)"
abbreviation tx_kind :: "BaseTransaction \<Rightarrow> TxKind" where "tx_kind tx \<equiv> env_kind (base tx)"

text \<open>\<open>max_fee_per_gas\<close> of the environment is its \<open>gas_price\<close>.\<close>

abbreviation max_fee_per_gas :: "BaseTransaction \<Rightarrow> u128" where "max_fee_per_gas tx \<equiv> env_gas_price (base tx)"

definition tx_type :: "BaseTransaction \<Rightarrow> u8" where
  "tx_type tx = (if source_hash (deposit tx) \<noteq> 0 then DEPOSIT_TRANSACTION_TYPE else env_type (base tx))"

abbreviation is_deposit :: "BaseTransaction \<Rightarrow> bool" where
  "is_deposit tx \<equiv> tx_type tx = DEPOSIT_TRANSACTION_TYPE"

primrec is_call :: "TxKind \<Rightarrow> bool" where
  "is_call (Call a) = True"
| "is_call Create = False"

datatype ('l, 'a, 'b) BaseTxEnvelope = Legacy 'l | Eip2930 'a | Eip1559 TxEip1559 | Eip7702 'b
  | Deposit TxDeposit | Aa BaseAaTransaction

record ('l, 'a, 'b) env_conv =
  from_legacy :: "'l \<Rightarrow> address \<Rightarrow> TxEnv"
  from_eip2930 :: "'a \<Rightarrow> address \<Rightarrow> TxEnv"
  from_eip1559 :: "TxEip1559 \<Rightarrow> address \<Rightarrow> TxEnv"
  from_eip7702 :: "'b \<Rightarrow> address \<Rightarrow> TxEnv"

definition deposit_tx_env :: "TxDeposit \<Rightarrow> address \<Rightarrow> TxEnv" where
  "deposit_tx_env tx caller = \<lparr>env_type = DEPOSIT_TRANSACTION_TYPE, env_caller = caller, env_gas_limit = td_gas_limit tx,
     env_gas_price = 0, env_kind = td_to tx, env_value = td_value tx, env_data = td_input tx, env_nonce = 0\<rparr>"

definition from_encoded_deposit :: "TxDeposit \<Rightarrow> address \<Rightarrow> bytes \<Rightarrow> BaseTransaction" where
  "from_encoded_deposit tx caller encoded =
     \<lparr>base = deposit_tx_env tx caller, enveloped_tx = Some encoded,
      deposit = \<lparr>source_hash = td_source_hash tx, mint = Some (td_mint tx),
        is_system_transaction = td_is_system_transaction tx\<rparr>, aa = None\<rparr>"

definition from_encoded_tx :: "('l, 'a, 'b) env_conv \<Rightarrow> ('l, 'a, 'b) BaseTxEnvelope \<Rightarrow> address \<Rightarrow> bytes \<Rightarrow> BaseTransaction" where
  "from_encoded_tx C tx caller encoded = (case tx of
     Legacy t \<Rightarrow> \<lparr>base = from_legacy C t caller, enveloped_tx = Some encoded, deposit = default_deposit_parts, aa = None\<rparr>
   | Eip1559 t \<Rightarrow> \<lparr>base = from_eip1559 C t caller, enveloped_tx = Some encoded, deposit = default_deposit_parts, aa = None\<rparr>
   | Eip2930 t \<Rightarrow> \<lparr>base = from_eip2930 C t caller, enveloped_tx = Some encoded, deposit = default_deposit_parts, aa = None\<rparr>
   | Eip7702 t \<Rightarrow> \<lparr>base = from_eip7702 C t caller, enveloped_tx = Some encoded, deposit = default_deposit_parts, aa = None\<rparr>
   | Aa t \<Rightarrow> \<lparr>base = (from_eip1559 C (to_eip1559_first_call t) caller)\<lparr>env_value := 0\<rparr>, enveloped_tx = Some encoded,
       deposit = default_deposit_parts,
       aa = Some \<lparr>aa_calls = at_calls t, aa_root = at_root t, aa_fee_payer = at_fee_payer t\<rparr>\<rparr>
   | Deposit t \<Rightarrow> from_encoded_deposit t caller encoded)"

section \<open>Round trips\<close>

text \<open>What \<open>alloy-rlp\<close> documents of its codecs: decoding inverts encoding and leaves the rest, the announced
  length is the real one, and the encoding of an address is a 20-byte string, not an empty one.\<close>

definition codec_ok :: "'a codec \<Rightarrow> bool" where
  "codec_ok c \<longleftrightarrow> (\<forall>x rest. dec c (enc c x @ rest) = Inr (x, rest)) \<and> (\<forall>x. enc_len c x = length (enc c x))"

definition rlp_ok :: "rlp \<Rightarrow> bool" where
  "rlp_ok L \<longleftrightarrow> codec_ok (c_u64 L) \<and> codec_ok (c_u128 L) \<and> codec_ok (c_u256 L) \<and> codec_ok (c_b256 L) \<and> codec_ok (c_bool L)
     \<and> codec_ok (c_address L) \<and> codec_ok (c_kind L) \<and> codec_ok (c_bytes L) \<and> codec_ok (c_calls L)
     \<and> codec_ok (c_access_list L)
     \<and> (\<forall>a. enc (c_address L) a \<noteq> [] \<and> hd (enc (c_address L) a) \<noteq> EMPTY_STRING_CODE)
     \<and> (\<forall>h rest. payload_length h \<le> length rest \<longrightarrow> dec (c_header L) (enc (c_header L) h @ rest) = Inr (h, rest))"

lemma dec_bind_Inr [simp]: "dec_bind (Inr (x, buf)) f = f x buf"
  by (simp add: dec_bind_def)

lemma codec_dec: "codec_ok c \<Longrightarrow> dec c (enc c x @ rest) = Inr (x, rest)"
  by (simp add: codec_ok_def)

lemma codec_len: "codec_ok c \<Longrightarrow> enc_len c x = length (enc c x)"
  by (simp add: codec_ok_def)

lemma opt_address_roundtrip: "rlp_ok L \<Longrightarrow> decode_opt_address L (encode_opt_address L a @ rest) = Inr (a, rest)"
  by (cases a) (auto simp: rlp_ok_def decode_opt_address_def encode_opt_address_def codec_dec)

lemma opt_address_length: "rlp_ok L \<Longrightarrow> opt_address_rlp_len L a = length (encode_opt_address L a)"
  by (cases a) (auto simp: rlp_ok_def opt_address_rlp_len_def encode_opt_address_def codec_len)

lemma aa_fields_roundtrip:
  assumes "rlp_ok L"
  shows "aa_rlp_decode_fields L (aa_rlp_encode_fields L tx @ rest) = Inr (tx, rest)"
    "aa_rlp_encoded_fields_length L tx = length (aa_rlp_encode_fields L tx)"
  using assms opt_address_roundtrip [OF assms] opt_address_length [OF assms]
  by (auto simp: rlp_ok_def aa_rlp_decode_fields_def aa_rlp_encode_fields_def aa_rlp_encoded_fields_length_def codec_dec codec_len)

lemma header_dec:
  assumes "rlp_ok L" "payload_length h \<le> length rest"
  shows "dec (c_header L) (enc (c_header L) h @ rest) = Inr (h, rest)"
  using assms by (simp add: rlp_ok_def)

lemma signed_fields_eq:
  assumes "rlp_ok L" "encode_for_signing L tx = encode_for_signing L tx'"
  shows "tx = tx'"
proof -
  let ?h = "\<lambda>t. \<lparr>header_list = True, payload_length = aa_rlp_encoded_fields_length L t\<rparr>"
  have hd: "dec (c_header L) (enc (c_header L) (?h t) @ aa_rlp_encode_fields L t) = Inr (?h t, aa_rlp_encode_fields L t)" for t
    by (rule header_dec [OF assms(1)]) (simp add: aa_fields_roundtrip(2) [OF assms(1)])
  have "enc (c_header L) (?h tx) @ aa_rlp_encode_fields L tx = enc (c_header L) (?h tx') @ aa_rlp_encode_fields L tx'"
    using assms(2) by (simp only: encode_for_signing_def list.inject)
  from arg_cong [OF this, of "dec (c_header L)"] have "aa_rlp_encode_fields L tx = aa_rlp_encode_fields L tx'"
    unfolding hd by simp
  from arg_cong [OF this, of "\<lambda>b. aa_rlp_decode_fields L (b @ [])"] show ?thesis
    unfolding aa_fields_roundtrip(1) [OF assms(1)] by simp
qed

text \<open>C37: an account-abstraction transaction survives the wire and its signature covers it. Decoding the encoded fields
  gives the transaction back, an absent fee payer or root included, and leaves what follows; the announced length is the
  length written; and two transactions with the same signing bytes are the same transaction, so no call, fee payer or root
  can be changed under a signature.\<close>

theorem aa_wire_format:
  assumes "rlp_ok L"
  shows "aa_rlp_decode_fields L (aa_rlp_encode_fields L tx @ rest) = Inr (tx, rest)
    \<and> aa_rlp_encoded_fields_length L tx = length (aa_rlp_encode_fields L tx)
    \<and> (encode_for_signing L tx = encode_for_signing L tx' \<longleftrightarrow> tx = tx')"
  using aa_fields_roundtrip [OF assms] signed_fields_eq [OF assms, of tx tx'] by auto

lemma deposit_fields_roundtrip:
  assumes "rlp_ok L"
  shows "deposit_rlp_decode_fields L (deposit_rlp_encode_fields L tx @ rest) = Inr (tx, rest)"
    "deposit_rlp_encoded_fields_length L tx = length (deposit_rlp_encode_fields L tx)"
  using assms
  by (auto simp: rlp_ok_def deposit_rlp_decode_fields_def deposit_rlp_encode_fields_def deposit_rlp_encoded_fields_length_def
      codec_dec codec_len)

text \<open>C38: a deposit survives the wire, and only its own type byte decodes it. Decoding what follows the type byte gives
  the deposit back and leaves the rest; under any other type byte the same bytes are an error.\<close>

theorem deposit_wire_format:
  assumes "rlp_ok L"
  shows "hd (deposit_encode_2718 L tx) = DEPOSIT_TRANSACTION_TYPE
    \<and> deposit_typed_decode L ty (tl (deposit_encode_2718 L tx) @ rest)
      = (if ty = DEPOSIT_TRANSACTION_TYPE then Inr (tx, rest) else Inl (UnexpectedType ty))"
proof -
  have "dec (c_header L) (enc (c_header L) (deposit_rlp_header L tx) @ deposit_rlp_encode_fields L tx @ rest)
      = Inr (deposit_rlp_header L tx, deposit_rlp_encode_fields L tx @ rest)"
    using deposit_fields_roundtrip(2) [OF assms, of tx]
    by (intro header_dec [OF assms]) (simp add: deposit_rlp_header_def)
  then show ?thesis
    using deposit_fields_roundtrip [OF assms, of tx]
    by (auto simp: deposit_encode_2718_def deposit_typed_decode_def deposit_rlp_encode_def deposit_rlp_decode_def
        deposit_rlp_header_def Let_def)
qed

section \<open>A concrete codec\<close>

text \<open>Words as 32 bytes, lists with a mark before each element: an instance that satisfies \<open>rlp_ok\<close>.\<close>

definition word_codec :: "'a::len word codec" where
  "word_codec = \<lparr>enc = \<lambda>w. be_bytes (ucast w), enc_len = \<lambda>w. 32,
     dec = \<lambda>b. if length b < 32 then Inl InputTooShort else Inr (ucast (be_word (take 32 b) :: u256), drop 32 b)\<rparr>"

definition pair_codec :: "'a codec \<Rightarrow> 'b codec \<Rightarrow> ('a \<times> 'b) codec" where
  "pair_codec c d = \<lparr>enc = \<lambda>(x, y). enc c x @ enc d y, enc_len = \<lambda>(x, y). enc_len c x + enc_len d y,
     dec = \<lambda>b. dec_bind (dec c b) (\<lambda>x b. dec_bind (dec d b) (\<lambda>y b. Inr ((x, y), b)))\<rparr>"

definition map_codec :: "('b \<Rightarrow> 'a) \<Rightarrow> ('a \<Rightarrow> 'b) \<Rightarrow> 'a codec \<Rightarrow> 'b codec" where
  "map_codec f g c = \<lparr>enc = \<lambda>x. enc c (f x), enc_len = \<lambda>x. enc_len c (f x),
     dec = \<lambda>b. dec_bind (dec c b) (\<lambda>x b. Inr (g x, b))\<rparr>"

fun list_dec :: "'a codec \<Rightarrow> nat \<Rightarrow> bytes \<Rightarrow> rlp_error + 'a list \<times> bytes" where
  "list_dec c 0 b = Inl InputTooShort"
| "list_dec c (Suc n) [] = Inl InputTooShort"
| "list_dec c (Suc n) (x # b) = (if x = 0 then Inr ([], b)
     else dec_bind (dec c b) (\<lambda>y b. dec_bind (list_dec c n b) (\<lambda>ys b. Inr (y # ys, b))))"

definition list_enc :: "'a codec \<Rightarrow> 'a list \<Rightarrow> bytes" where
  "list_enc c xs = concat (map (\<lambda>x. 1 # enc c x) xs) @ [0]"

definition list_codec :: "'a codec \<Rightarrow> 'a list codec" where
  "list_codec c = \<lparr>enc = list_enc c, enc_len = \<lambda>xs. length (list_enc c xs), dec = \<lambda>b. list_dec c (length b) b\<rparr>"

definition unit_codec :: "unit codec" where
  "unit_codec = \<lparr>enc = \<lambda>_. [], enc_len = \<lambda>_. 0, dec = \<lambda>b. Inr ((), b)\<rparr>"

lemma be_word_be_bytes: "be_word (be_bytes w) = w"
  using be_word_slice [of 0 32 w] by (simp add: byte_slice_def be_bytes_def take_bit_word_eq_self)

lemma be_bytes_length [simp]: "length (be_bytes w) = 32"
  by (simp add: be_bytes_def)

lemma ucast_roundtrip: "LENGTH('a) \<le> 256 \<Longrightarrow> ucast (ucast (w :: 'a::len word) :: u256) = w"
  by (intro bit_word_eqI) (auto simp: bit_ucast_iff)

lemma word_codec_ok: "LENGTH('a) \<le> 256 \<Longrightarrow> codec_ok (word_codec :: 'a::len word codec)"
  by (auto simp: codec_ok_def word_codec_def be_word_be_bytes be_bytes_length ucast_roundtrip)

lemma pair_codec_ok: "codec_ok c \<Longrightarrow> codec_ok d \<Longrightarrow> codec_ok (pair_codec c d)"
  by (auto simp: codec_ok_def pair_codec_def)

lemma map_codec_ok: "codec_ok c \<Longrightarrow> (\<And>x. g (f x) = x) \<Longrightarrow> codec_ok (map_codec f g c)"
  by (auto simp: codec_ok_def map_codec_def)

lemma unit_codec_ok: "codec_ok unit_codec"
  by (simp add: codec_ok_def unit_codec_def)

lemma list_dec_enc: "codec_ok c \<Longrightarrow> length xs < n \<Longrightarrow> list_dec c n (list_enc c xs @ rest) = Inr (xs, rest)"
proof (induction xs arbitrary: n)
  case Nil
  then show ?case by (cases n) (simp_all add: list_enc_def)
next
  case (Cons x xs)
  then obtain m where "n = Suc m" "length xs < m" by (cases n) auto
  then show ?case using Cons by (simp add: list_enc_def codec_dec)
qed

lemma list_enc_length: "length xs < length (list_enc c xs)"
  by (induction xs) (simp_all add: list_enc_def)

lemma list_codec_ok: "codec_ok c \<Longrightarrow> codec_ok (list_codec c)"
  unfolding codec_ok_def [of "list_codec c"]
  by (simp add: list_codec_def list_dec_enc trans_less_add1 list_enc_length)

text \<open>A hash is a string of 32 bytes behind its length byte, unlike an integer.\<close>

definition wire_b256 :: "b256 codec" where
  "wire_b256 = \<lparr>enc = \<lambda>h. 0xa0 # be_bytes h, enc_len = \<lambda>_. 33,
     dec = \<lambda>b. if length b < 33 then Inl InputTooShort else if hd b \<noteq> 0xa0 then Inl UnexpectedLength
       else Inr (be_word (take 32 (tl b)), drop 33 b)\<rparr>"

lemma wire_b256_ok: "codec_ok wire_b256"
proof -
  have "drop 33 (x # be_bytes w @ rest) = rest" "take 32 (be_bytes w @ rest) = be_bytes w" for x w rest
    using drop_Suc_Cons [of 32 x "be_bytes w @ rest"] by simp_all
  then show ?thesis by (simp add: codec_ok_def wire_b256_def be_word_be_bytes)
qed

definition wire_address :: "address codec" where
  "wire_address = map_codec (Pair [()]) snd (pair_codec (list_codec unit_codec) word_codec)"

definition wire_call :: "AaCall codec" where
  "wire_call = map_codec
     (\<lambda>c. ((case call_to c of Call a \<Rightarrow> [a] | Create \<Rightarrow> []), call_value c, call_input c))
     (\<lambda>(to, v, i). \<lparr>call_to = (case to of a # as \<Rightarrow> Call a | [] \<Rightarrow> Create), call_value = v, call_input = i\<rparr>)
     (pair_codec (list_codec word_codec) (pair_codec word_codec (list_codec word_codec)))"

definition wire_rlp :: rlp where
  "wire_rlp = \<lparr>c_u64 = word_codec, c_u128 = word_codec, c_u256 = word_codec, c_b256 = wire_b256,
     c_bool = map_codec (\<lambda>b. if b then [()] else []) (\<lambda>xs. xs \<noteq> []) (list_codec unit_codec),
     c_address = wire_address,
     c_kind = map_codec (\<lambda>k. case k of Call a \<Rightarrow> [a] | Create \<Rightarrow> [])
       (\<lambda>to. case to of a # as \<Rightarrow> Call a | [] \<Rightarrow> Create) (list_codec word_codec),
     c_bytes = list_codec word_codec, c_calls = list_codec wire_call,
     c_access_list = list_codec (pair_codec word_codec (list_codec word_codec)),
     c_header = map_codec (\<lambda>h. (if header_list h then [()] else [], replicate (payload_length h) ()))
       (\<lambda>(l, n). \<lparr>header_list = (l \<noteq> []), payload_length = length n\<rparr>)
       (pair_codec (list_codec unit_codec) (list_codec unit_codec))\<rparr>"

lemmas codec_oks = word_codec_ok pair_codec_ok map_codec_ok list_codec_ok unit_codec_ok

lemma wire_call_ok: "codec_ok wire_call"
  unfolding wire_call_def by (intro codec_oks) (auto split: TxKind.split)

lemma wire_rlp_ok: "rlp_ok wire_rlp"
proof -
  have "codec_ok (c_header wire_rlp)"
    by (simp add: wire_rlp_def) (intro codec_oks, auto)
  moreover have "codec_ok (c_kind wire_rlp)" "codec_ok (c_bool wire_rlp)" "codec_ok (c_address wire_rlp)"
    by (simp_all add: wire_rlp_def wire_address_def) (intro codec_oks; auto split: TxKind.split)+
  moreover have "codec_ok (c_access_list wire_rlp)" "codec_ok (c_calls wire_rlp)" "codec_ok (c_bytes wire_rlp)"
    "codec_ok (c_u64 wire_rlp)" "codec_ok (c_u128 wire_rlp)" "codec_ok (c_u256 wire_rlp)" "codec_ok (c_b256 wire_rlp)"
    by (simp_all add: wire_rlp_def codec_oks wire_call_ok wire_b256_ok)
  moreover have "enc (c_address wire_rlp) a \<noteq> [] \<and> hd (enc (c_address wire_rlp) a) \<noteq> EMPTY_STRING_CODE" for a
    by (simp add: wire_rlp_def wire_address_def map_codec_def pair_codec_def list_codec_def list_enc_def EMPTY_STRING_CODE_def)
  ultimately show ?thesis by (simp add: rlp_ok_def codec_dec)
qed

definition wire_aa :: BaseAaTransaction where
  "wire_aa = \<lparr>at_chain_id = 42001, at_nonce = 7, at_max_priority_fee_per_gas = 1, at_max_fee_per_gas = 100,
     at_gas_limit = 50000, at_calls = [\<lparr>call_to = Call 9, call_value = 5, call_input = [1, 2]\<rparr>,
       \<lparr>call_to = Create, call_value = 0, call_input = []\<rparr>],
     at_access_list = [(3, [4])], at_fee_payer = None, at_root = Some 1\<rparr>"

theorem aa_wire_format_witness:
  "aa_rlp_decode_fields wire_rlp (aa_rlp_encode_fields wire_rlp wire_aa @ [7]) = Inr (wire_aa, [7])
    \<and> encode_for_signing wire_rlp wire_aa \<noteq> encode_for_signing wire_rlp (wire_aa\<lparr>at_root := Some 2\<rparr>)"
  using aa_wire_format [OF wire_rlp_ok, of wire_aa "[7]" "wire_aa\<lparr>at_root := Some 2\<rparr>"]
  by (simp add: wire_aa_def)

theorem deposit_wire_format_witness:
  "deposit_typed_decode wire_rlp 0x7E (tl (deposit_encode_2718 wire_rlp
     \<lparr>td_source_hash = 1, td_from = 2, td_to = Create, td_mint = 3, td_value = 4, td_gas_limit = 5,
      td_is_system_transaction = False, td_input = [6]\<rparr>) @ [9])
   = Inr (\<lparr>td_source_hash = 1, td_from = 2, td_to = Create, td_mint = 3, td_value = 4, td_gas_limit = 5,
      td_is_system_transaction = False, td_input = [6]\<rparr>, [9])"
  using deposit_wire_format [OF wire_rlp_ok, of "\<lparr>td_source_hash = 1, td_from = 2, td_to = Create, td_mint = 3, td_value = 4,
      td_gas_limit = 5, td_is_system_transaction = False, td_input = [6]\<rparr>" "0x7E" "[9]"]
  by (simp add: DEPOSIT_TRANSACTION_TYPE_def)

end
