(* ===== verification/Flz.thy ===== *)
theory Flz
  imports Sci_Prelude "HOL-Library.Monad_Syntax"
begin

text \<open>
  The FastLZ size estimate behind the L1 data fee (\<open>crates/common/flz/src/flz.rs\<close>). The functions work on
  machine integers and index the transaction bytes without checks of their own, so every addition, subtraction and
  access that could overflow or leave the input is an option here: \<open>None\<close> is the panic. The theorems show
  that no transaction makes the estimate panic and bound its result.

  The hash table is a fixed array of 8192 entries, indexed by 13-bit hashes, and is modelled as a function.
\<close>

section \<open>Checked arithmetic on \<open>u32\<close>\<close>

definition cadd :: "nat \<Rightarrow> nat \<Rightarrow> nat option" where
  "cadd a b = (if a + b < 2 ^ 32 then Some (a + b) else None)"

definition csub :: "nat \<Rightarrow> nat \<Rightarrow> nat option" where
  "csub a b = (if b \<le> a then Some (a - b) else None)"

definition cmul :: "nat \<Rightarrow> nat \<Rightarrow> nat option" where
  "cmul a b = (if a * b < 2 ^ 32 then Some (a * b) else None)"

definition byte_at :: "bytes \<Rightarrow> nat \<Rightarrow> nat option" where
  "byte_at input i = (if i < length input then Some (unat (input ! i)) else None)"

section \<open>The estimate\<close>

definition u24 :: "bytes \<Rightarrow> nat \<Rightarrow> nat option" where
  "u24 input idx = do {
     a \<leftarrow> byte_at input idx;
     i1 \<leftarrow> cadd idx 1;
     b \<leftarrow> byte_at input i1;
     i2 \<leftarrow> cadd idx 2;
     c \<leftarrow> byte_at input i2;
     Some (a + b * 2 ^ 8 + c * 2 ^ 16)
   }"

definition flz_hash :: "nat \<Rightarrow> nat" where
  "flz_hash v = (v * 2654435769) div 2 ^ 19 mod 2 ^ 16 mod 2 ^ 13"

definition set_next_hash :: "(nat \<Rightarrow> nat) \<Rightarrow> bytes \<Rightarrow> nat \<Rightarrow> ((nat \<Rightarrow> nat) \<times> nat) option" where
  "set_next_hash htab input idx = do {
     v \<leftarrow> u24 input idx;
     next \<leftarrow> cadd idx 1;
     Some (htab(flz_hash v := idx), next)
   }"

definition flz_match :: "nat \<Rightarrow> nat \<Rightarrow> nat option" where
  "flz_match l sz = do {
     l \<leftarrow> csub l 1;
     m \<leftarrow> cmul 3 (l div 262);
     sz \<leftarrow> cadd sz m;
     if l mod 262 \<ge> 6 then cadd sz 3 else cadd sz 2
   }"

text \<open>The loop of \<open>cmp\<close>: a mismatch sets the bound to zero, which ends the loop after counting it.\<close>

function cmp_loop :: "bytes \<Rightarrow> nat \<Rightarrow> nat \<Rightarrow> nat \<Rightarrow> nat \<Rightarrow> nat option" where
  "cmp_loop input p q r l =
     (if l < r then do {
        i \<leftarrow> cadd p l;
        a \<leftarrow> byte_at input i;
        j \<leftarrow> cadd q l;
        b \<leftarrow> byte_at input j;
        cmp_loop input p q (if a \<noteq> b then 0 else r) (l + 1)
      } else Some l)"
  by pat_completeness auto
termination by (relation "measure (\<lambda>(_, _, _, r, l). r - l)") auto

definition cmp :: "bytes \<Rightarrow> nat \<Rightarrow> nat \<Rightarrow> nat \<Rightarrow> nat option" where
  "cmp input p q r = do { r \<leftarrow> csub r q; cmp_loop input p q r 0 }"

definition literals :: "nat \<Rightarrow> nat \<Rightarrow> nat option" where
  "literals r sz = do {
     m \<leftarrow> cmul 0x21 (r div 0x20);
     sz \<leftarrow> cadd sz m;
     if r mod 0x20 \<noteq> 0 then do { s \<leftarrow> cadd sz (r mod 0x20); cadd s 1 } else Some sz
   }"

text \<open>The inner loop: advance until the three bytes at \<open>idx\<close> were seen before at \<open>r\<close>, or the limit
  is reached.\<close>

function seek :: "bytes \<Rightarrow> nat \<Rightarrow> (nat \<Rightarrow> nat) \<Rightarrow> nat \<Rightarrow> ((nat \<Rightarrow> nat) \<times> nat \<times> nat) option" where
  "seek input idx_limit htab idx = do {
     sq \<leftarrow> u24 input idx;
     let r = htab (flz_hash sq);
     let htab = htab(flz_hash sq := idx);
     distance \<leftarrow> csub idx r;
     if idx \<ge> idx_limit then Some (htab, idx, r)
     else if distance < 8192 then do {
       old \<leftarrow> u24 input r;
       if sq = old then Some (htab, idx + 1, r) else seek input idx_limit htab (idx + 1)
     }
     else seek input idx_limit htab (idx + 1)
   }"
  by pat_completeness auto
termination by (relation "measure (\<lambda>(_, idx_limit, _, idx). idx_limit - idx)") auto

declare cmp_loop.simps [simp del] seek.simps [simp del]

lemma seek_increases: "seek input lim htab idx = Some (htab', idx', r) \<Longrightarrow> idx \<le> idx' \<and> (idx' < lim \<longrightarrow> idx < idx')"
proof (induction input lim htab idx arbitrary: htab' idx' r rule: seek.induct)
  case (1 input lim htab idx)
  show ?case
    using "1.prems" "1.IH"
    by (subst (asm) (1) seek.simps) (fastforce simp: Let_def bind_eq_Some_conv split: if_splits)
qed

function flz_loop :: "bytes \<Rightarrow> nat \<Rightarrow> nat \<Rightarrow> nat \<Rightarrow> (nat \<Rightarrow> nat) \<Rightarrow> nat \<Rightarrow> (nat \<times> nat) option" where
  "flz_loop input idx_limit anchor sz htab idx =
     (if idx < idx_limit then do {
        (htab, idx, r) \<leftarrow> seek input idx_limit htab idx;
        if idx \<ge> idx_limit then Some (anchor, sz)
        else do {
          idx \<leftarrow> csub idx 1;
          sz \<leftarrow> (if idx > anchor then literals (idx - anchor) sz else Some sz);
          p \<leftarrow> cadd r 3;
          q \<leftarrow> cadd idx 3;
          bound \<leftarrow> cadd idx_limit 9;
          len \<leftarrow> cmp input p q bound;
          sz \<leftarrow> flz_match len sz;
          idx \<leftarrow> cadd idx len;
          (htab, idx) \<leftarrow> set_next_hash htab input idx;
          (htab, idx) \<leftarrow> set_next_hash htab input idx;
          flz_loop input idx_limit idx sz htab idx
        }
      } else Some (anchor, sz))"
  by pat_completeness auto
termination
  by (relation "measure (\<lambda>(_, idx_limit, _, _, _, idx). idx_limit - idx)")
    (auto simp: csub_def cadd_def set_next_hash_def bind_eq_Some_conv split: if_splits dest!: seek_increases)

declare flz_loop.simps [simp del]

definition flz_compress_len :: "bytes \<Rightarrow> nat option" where
  "flz_compress_len input =
     (let len = length input mod 2 ^ 32 in do {
        idx_limit \<leftarrow> (if length input < 13 then Some 0 else csub len 13);
        (anchor, sz) \<leftarrow> flz_loop input idx_limit 0 0 (\<lambda>_. 0) 2;
        n \<leftarrow> csub len anchor;
        literals n sz
      })"

definition L1_COST_FASTLZ_COEF :: u64 where "L1_COST_FASTLZ_COEF = 836500"
definition L1_COST_INTERCEPT :: u64 where "L1_COST_INTERCEPT = 42585600"
definition MIN_TX_SIZE_SCALED :: u64 where "MIN_TX_SIZE_SCALED = 100 * 1000000"
definition NON_ZERO_BYTE_COST :: u64 where "NON_ZERO_BYTE_COST = 16"

definition tx_estimated_size_fjord :: "bytes \<Rightarrow> u64 option" where
  "tx_estimated_size_fjord input = do {
     fastlz_size \<leftarrow> flz_compress_len input;
     Some (max (sat_sub (sat_mul (word_of_nat fastlz_size) L1_COST_FASTLZ_COEF) L1_COST_INTERCEPT) MIN_TX_SIZE_SCALED)
   }"

definition tx_estimated_size_fjord_bytes :: "bytes \<Rightarrow> u64 option" where
  "tx_estimated_size_fjord_bytes input = map_option (\<lambda>s. s div 1000000) (tx_estimated_size_fjord input)"

definition data_gas_fjord :: "bytes \<Rightarrow> u64 option" where
  "data_gas_fjord input =
     map_option (\<lambda>s. sat_mul s NON_ZERO_BYTE_COST div 1000000) (tx_estimated_size_fjord input)"

section \<open>No panic, and a bound\<close>

lemma u24_ok: "idx + 2 < length input \<Longrightarrow> length input < 2 ^ 31 \<Longrightarrow> \<exists>v. u24 input idx = Some v"
  by (simp add: u24_def byte_at_def cadd_def)

lemma set_next_hash_ok:
  assumes "idx + 2 < length input" "length input < 2 ^ 31" "\<forall>h. htab h \<le> idx"
  shows "\<exists>htab'. set_next_hash htab input idx = Some (htab', idx + 1) \<and> (\<forall>h. htab' h \<le> idx + 1)"
proof -
  have "htab h \<le> idx + 1" for h using spec [OF assms(3), of h] by simp
  then show ?thesis using u24_ok [OF assms(1,2)] assms(1,2) by (auto simp: set_next_hash_def cadd_def)
qed

lemma literals_ok:
  assumes "sz + r + r div 32 + 1 < 2 ^ 32"
  shows "\<exists>n. literals r sz = Some n \<and> n \<le> sz + r + r div 32 + 1"
proof -
  define d m where "d = r div 32" and "m = r mod 32"
  have "32 * d + m = r" by (simp add: d_def m_def)
  then show ?thesis using assms by (auto simp: literals_def cmul_def cadd_def d_def [symmetric] m_def [symmetric])
qed

lemma flz_match_ok:
  assumes "1 \<le> l" "sz + l + 1 < 2 ^ 32"
  shows "\<exists>n. flz_match l sz = Some n \<and> n \<le> sz + l + 1"
proof -
  define d m where "d = (l - 1) div 262" and "m = (l - 1) mod 262"
  have "262 * d + m = l - 1" by (simp add: d_def m_def)
  then have "l = 262 * d + m + 1" using assms(1) by simp
  then show ?thesis
    using assms(2) by (auto simp: flz_match_def csub_def cmul_def cadd_def d_def [symmetric] m_def [symmetric])
qed

lemma cmp_loop_ok:
  "p \<le> q \<Longrightarrow> q + r \<le> length input \<Longrightarrow> length input < 2 ^ 31 \<Longrightarrow>
   \<exists>n. cmp_loop input p q r l = Some n \<and> l \<le> n \<and> n \<le> max l r \<and> (l < r \<longrightarrow> l < n)"
proof (induction input p q r l rule: cmp_loop.induct)
  case (1 input p q r l)
  show ?case
  proof (cases "l < r")
    case True
    let ?a = "unat (input ! (p + l))" and ?b = "unat (input ! (q + l))"
    let ?r = "if ?a \<noteq> ?b then 0 else r"
    have at: "cadd p l = Some (p + l)" "byte_at input (p + l) = Some ?a" "cadd q l = Some (q + l)"
      "byte_at input (q + l) = Some ?b"
      using True "1.prems" by (simp_all add: cadd_def byte_at_def)
    have "\<exists>n. cmp_loop input p q ?r (l + 1) = Some n \<and> l + 1 \<le> n \<and> n \<le> max (l + 1) ?r"
      using "1.IH" [OF True at(1) at(2) at(3) at(4)] "1.prems" by auto
    then obtain n where n: "cmp_loop input p q ?r (l + 1) = Some n" "l + 1 \<le> n" "n \<le> max (l + 1) ?r" by blast
    have "cmp_loop input p q r l = Some n" using True at n(1) by (subst cmp_loop.simps) simp
    then show ?thesis using n True by (auto split: if_splits)
  qed (subst cmp_loop.simps, simp)
qed

lemma seek_ok:
  "\<forall>h. htab h \<le> idx \<Longrightarrow> idx \<le> lim \<Longrightarrow> lim + 13 = length input \<Longrightarrow> length input < 2 ^ 31 \<Longrightarrow>
   \<exists>htab' idx' r. seek input lim htab idx = Some (htab', idx', r) \<and> (\<forall>h. htab' h \<le> idx')
     \<and> idx' \<le> lim \<and> (idx' < lim \<longrightarrow> idx < idx' \<and> r < idx')"
proof (induction input lim htab idx rule: seek.induct)
  case (1 input lim htab idx)
  obtain v where v: "u24 input idx = Some v" using u24_ok "1.prems" by fastforce
  define htab1 where "htab1 = htab(flz_hash v := idx)"
  let ?r = "htab (flz_hash v)" and ?htab = htab1
  have r: "?r \<le> idx" using "1.prems"(1) by blast
  then obtain w where w: "u24 input ?r = Some w" using u24_ok "1.prems" by fastforce
  have d: "csub idx ?r = Some (idx - ?r)" using r by (simp add: csub_def)
  have h: "\<forall>h. htab1 h \<le> idx" "\<forall>h. htab1 h \<le> idx + 1" using "1.prems"(1) by (simp_all add: htab1_def le_SucI)
  show ?case
  proof (cases "idx \<ge> lim")
    case True
    then show ?thesis using v d h(1) "1.prems"(2) by (subst seek.simps) (simp add: Let_def htab1_def [symmetric] del: fun_upd_apply)
  next
    case False
    have rec: "\<exists>htab' idx' r. seek input lim ?htab (idx + 1) = Some (htab', idx', r) \<and> (\<forall>h. htab' h \<le> idx')
        \<and> idx' \<le> lim \<and> (idx' < lim \<longrightarrow> idx + 1 < idx' \<and> r < idx')"
      if "idx - ?r < 8192 \<longrightarrow> v \<noteq> w"
    proof (cases "idx - ?r < 8192")
      case True
      then show ?thesis
        using "1.IH"(1) [OF v refl refl d False True w, folded htab1_def] that h(2) "1.prems" False by (simp del: fun_upd_apply)
    next
      case far: False
      then show ?thesis
        using "1.IH"(2) [OF v refl refl d False far, folded htab1_def] h(2) "1.prems" False by (simp del: fun_upd_apply)
    qed
    show ?thesis
    proof (cases "idx - ?r < 8192 \<and> v = w")
      case True
      then have "seek input lim htab idx = Some (htab1, idx + 1, ?r)"
        using v d w False by (subst seek.simps) (auto simp: Let_def htab1_def)
      then show ?thesis using h(2) r False by (simp add: less_Suc_eq_le)
    next
      case nomatch: False
      then have "seek input lim htab idx = seek input lim ?htab (idx + 1)"
        using v d w False by (subst seek.simps) (auto simp: Let_def htab1_def)
      then show ?thesis using rec nomatch by (auto dest: Suc_lessD)
    qed
  qed
qed

lemma div_add_div_le: "a div n + b div n \<le> (a + b) div (n :: nat)"
  by (metis div_add1_eq le_add1)

lemma flz_step_ok:
  assumes "\<forall>h. htab h \<le> idx + 1" "r \<le> idx" "anchor \<le> idx" "idx < lim" "sz \<le> anchor + anchor div 32"
    "lim + 13 = length input" "length input < 2 ^ 31"
  obtains sz1 len sz2 htab1 htab2 where
    "(if idx > anchor then literals (idx - anchor) sz else Some sz) = Some sz1"
    "cadd r 3 = Some (r + 3)" "cadd idx 3 = Some (idx + 3)" "cadd lim 9 = Some (lim + 9)"
    "cmp input (r + 3) (idx + 3) (lim + 9) = Some len" "flz_match len sz1 = Some sz2"
    "cadd idx len = Some (idx + len)" "set_next_hash htab input (idx + len) = Some (htab1, idx + len + 1)"
    "set_next_hash htab1 input (idx + len + 1) = Some (htab2, idx + len + 2)"
    "\<forall>h. htab2 h \<le> idx + len + 2" "idx + len + 2 \<le> lim + 8"
    "sz2 \<le> (idx + len + 2) + (idx + len + 2) div 32"
proof -
  have "\<exists>s. (if idx > anchor then literals (idx - anchor) sz else Some sz) = Some s
      \<and> s \<le> idx + anchor div 32 + (idx - anchor) div 32 + 1"
  proof (cases "idx > anchor")
    case True
    have "anchor div 32 + (idx - anchor) div 32 \<le> idx"
      using div_add_div_le [of anchor 32 "idx - anchor"] div_le_dividend [of idx 32] assms(3) by simp
    then have "sz + (idx - anchor) + (idx - anchor) div 32 + 1 < 2 ^ 32" using True assms(4-7) by simp
    then obtain n where "literals (idx - anchor) sz = Some n" "n \<le> sz + (idx - anchor) + (idx - anchor) div 32 + 1"
      using literals_ok by blast
    then show ?thesis using True assms(5) by (intro exI [of _ n]) simp
  qed (use assms(3,5) in simp)
  then obtain sz1 where sz1: "(if idx > anchor then literals (idx - anchor) sz else Some sz) = Some sz1"
    "sz1 \<le> idx + anchor div 32 + (idx - anchor) div 32 + 1" by blast
  have "\<exists>n. cmp input (r + 3) (idx + 3) (lim + 9) = Some n \<and> 1 \<le> n \<and> n \<le> lim + 6 - idx"
    using cmp_loop_ok [of "r + 3" "idx + 3" "6 + lim - idx" input 0] assms by (auto simp: cmp_def csub_def)
  then obtain len where len: "cmp input (r + 3) (idx + 3) (lim + 9) = Some len" "1 \<le> len" "len \<le> lim + 6 - idx" by blast
  have "anchor div 32 + (idx - anchor) div 32 \<le> idx div 32" using assms(3) div_add_div_le [of anchor 32 "idx - anchor"] by simp
  with sz1(2) have le: "sz1 + len + 1 \<le> idx + len + 2 + idx div 32" by linarith
  have "idx div 32 \<le> idx" by (rule div_le_dividend)
  then have "sz1 + len + 1 < 2 ^ 32" using le len(3) assms(4,6,7) by simp
  then obtain sz2 where sz2: "flz_match len sz1 = Some sz2" "sz2 \<le> sz1 + len + 1"
    using flz_match_ok [OF len(2)] by blast
  have "\<forall>h. htab h \<le> idx + len" using assms(1) len(2) by (meson add_le_cancel_left le_trans)
  moreover have lt: "idx + len + 1 + 2 < length input" using len(3) assms(4,6) by simp
  ultimately obtain htab1 where h1: "set_next_hash htab input (idx + len) = Some (htab1, idx + len + 1)" "\<forall>h. htab1 h \<le> idx + len + 1"
    using set_next_hash_ok [of "idx + len" input htab] assms(7) by auto
  then obtain htab2 where h2: "set_next_hash htab1 input (idx + len + 1) = Some (htab2, idx + len + 2)" "\<forall>h. htab2 h \<le> idx + len + 2"
    using set_next_hash_ok [of "idx + len + 1" input htab1] lt assms(7) by auto
  have "idx div 32 \<le> (idx + len + 2) div 32" by (rule div_le_mono) simp
  then have "sz2 \<le> (idx + len + 2) + (idx + len + 2) div 32" using sz2(2) le by linarith
  then show ?thesis
    using sz1(1) len sz2(1) h1(1) h2 assms by (intro that) (auto simp: cadd_def)
qed

lemma flz_loop_ok:
  "\<forall>h. htab h \<le> idx \<Longrightarrow> anchor \<le> idx \<Longrightarrow> anchor \<le> lim + 8 \<Longrightarrow> sz \<le> anchor + anchor div 32 \<Longrightarrow>
   lim + 13 = length input \<Longrightarrow> length input < 2 ^ 31 \<Longrightarrow>
   \<exists>a n. flz_loop input lim anchor sz htab idx = Some (a, n) \<and> a \<le> lim + 8 \<and> n \<le> a + a div 32"
proof (induction input lim anchor sz htab idx rule: flz_loop.induct)
  case (1 input lim anchor sz htab idx)
  show ?case
  proof (cases "idx < lim")
    case True
    obtain htab1 idx1 r where sk: "seek input lim htab idx = Some (htab1, idx1, r)" "\<forall>h. htab1 h \<le> idx1"
      "idx1 \<le> lim" "idx1 < lim \<longrightarrow> idx < idx1 \<and> r < idx1"
      using seek_ok [OF "1.prems"(1) _ "1.prems"(5,6)] True by auto
    show ?thesis
    proof (cases "idx1 \<ge> lim")
      case True
      then show ?thesis using \<open>idx < lim\<close> sk(1) "1.prems"(3,4) by (subst flz_loop.simps) simp
    next
      case False
      then obtain i where i: "idx1 = i + 1" "idx \<le> i" using sk(4) by (cases idx1) auto
      then have c: "csub idx1 1 = Some i" "r \<le> i" "anchor \<le> i" "i < lim"
        using sk "1.prems"(2) False by (auto simp: csub_def)
      have "\<forall>h. htab1 h \<le> i + 1" using sk(2) i(1) by simp
      then show ?thesis
      proof (rule flz_step_ok [OF _ c(2-4) "1.prems"(4-6)])
        fix sz1 len sz2 htab2 htab3
        let ?i = "i + len + 2"
        assume st: "(if i > anchor then literals (i - anchor) sz else Some sz) = Some sz1"
          "cadd r 3 = Some (r + 3)" "cadd (i) 3 = Some (i + 3)" "cadd lim 9 = Some (lim + 9)"
          "cmp input (r + 3) (i + 3) (lim + 9) = Some len" "flz_match len sz1 = Some sz2"
          "cadd (i) len = Some (i + len)"
          "set_next_hash htab1 input (i + len) = Some (htab2, i + len + 1)"
          "set_next_hash htab2 input (i + len + 1) = Some (htab3, ?i)"
          and inv: "\<forall>h. htab3 h \<le> ?i" "?i \<le> lim + 8" "sz2 \<le> ?i + ?i div 32"
        have "flz_loop input lim anchor sz htab idx = flz_loop input lim ?i sz2 htab3 ?i"
          using True False sk(1) c(1) st by (subst flz_loop.simps) (simp only: if_True if_False Option.bind.simps prod.case)
        moreover have "\<exists>a n. flz_loop input lim ?i sz2 htab3 ?i = Some (a, n) \<and> a \<le> lim + 8 \<and> n \<le> a + a div 32"
          by (rule "1.IH" [OF True sk(1) refl refl False c(1) st(1-8) refl st(9) refl inv(1) _ inv(2,3) "1.prems"(5,6)]) simp
        ultimately show ?thesis by simp
      qed
    qed
  next
    case False
    then show ?thesis using "1.prems" by (subst flz_loop.simps) simp
  qed
qed

lemma flz_compress_len_ok:
  assumes "length input < 2 ^ 31"
  shows "\<exists>n. flz_compress_len input = Some n \<and> n \<le> length input + length input div 32 + 1"
proof -
  let ?len = "length input"
  have len: "?len mod 2 ^ 32 = ?len" using assms by simp
  have "\<exists>a n. flz_loop input (if ?len < 13 then 0 else ?len - 13) 0 0 (\<lambda>_. 0) 2 = Some (a, n) \<and> a \<le> ?len \<and> n \<le> a + a div 32"
  proof (cases "?len < 13")
    case True
    then show ?thesis by (subst flz_loop.simps) simp
  next
    case False
    then have "\<exists>a n. flz_loop input (?len - 13) 0 0 (\<lambda>_. 0) 2 = Some (a, n) \<and> a \<le> ?len - 13 + 8 \<and> n \<le> a + a div 32"
      using assms by (intro flz_loop_ok) simp_all
    then show ?thesis using False by auto
  qed
  then obtain a n where an: "flz_loop input (if ?len < 13 then 0 else ?len - 13) 0 0 (\<lambda>_. 0) 2 = Some (a, n)"
    "a \<le> ?len" "n \<le> a + a div 32" by blast
  have div: "a div 32 + (?len - a) div 32 \<le> ?len div 32" using div_add_div_le [of a 32 "?len - a"] an(2) by simp
  have "?len div 32 \<le> ?len" by (rule div_le_dividend)
  then have "n + (?len - a) + (?len - a) div 32 + 1 < 2 ^ 32" using an(2,3) div assms by simp
  then obtain m where m: "literals (?len - a) n = Some m" "m \<le> n + (?len - a) + (?len - a) div 32 + 1"
    using literals_ok by blast
  have "flz_compress_len input = Some m"
    unfolding flz_compress_len_def Let_def len using an(1,2) m(1) by (simp add: csub_def split: if_splits)
  then show ?thesis using m(2) an(2,3) div by (intro exI [of _ m]) simp
qed

lemma estimate_ok: "length input < 2 ^ 31 \<Longrightarrow> \<exists>sz. tx_estimated_size_fjord input = Some sz"
  using flz_compress_len_ok by (fastforce simp: tx_estimated_size_fjord_def)

text \<open>C31: no transaction makes the size estimate panic. For every input shorter than two gigabytes the FastLZ
  loop ends without an overflow or an access outside the input, its result is at most a thirty-second longer
  than the input, and the estimated size is between the minimum and the linear bound, without saturation.\<close>

theorem estimate_total_and_bounded:
  assumes "length input < 2 ^ 31"
  shows "\<exists>n sz. flz_compress_len input = Some n \<and> n \<le> length input + length input div 32 + 1
    \<and> tx_estimated_size_fjord input = Some sz \<and> unat sz = max (n * 836500 - 42585600) 100000000"
proof -
  obtain n where n: "flz_compress_len input = Some n" "n \<le> length input + length input div 32 + 1"
    using flz_compress_len_ok [OF assms] by blast
  have "length input div 32 \<le> length input" by (rule div_le_dividend)
  then have small: "n < 2 ^ 32" using n(2) assms by simp
  then have "unat (word_of_nat n :: u64) = n" by (simp add: unsigned_of_nat take_bit_nat_eq_self)
  moreover have "n * 836500 < 2 ^ 64" using small by simp
  ultimately have "unat (max (sat_sub (sat_mul (word_of_nat n) L1_COST_FASTLZ_COEF) L1_COST_INTERCEPT) MIN_TX_SIZE_SCALED :: u64)
      = max (n * 836500 - 42585600) 100000000"
    by (simp add: max_def word_le_nat_alt sat_unat L1_COST_FASTLZ_COEF_def L1_COST_INTERCEPT_def MIN_TX_SIZE_SCALED_def min_def)
  then show ?thesis using n by (simp add: tx_estimated_size_fjord_def)
qed

lemma flz_sample: "flz_compress_len (replicate 20 7) = Some 12"
  by (simp add: flz_compress_len_def flz_loop.simps seek.simps u24_def byte_at_def cadd_def csub_def cmul_def
      flz_hash_def literals_def cmp_def cmp_loop.simps flz_match_def set_next_hash_def Let_def)

lemma estimate_sample: "tx_estimated_size_fjord (replicate 20 7) = Some 100000000"
  by (simp add: tx_estimated_size_fjord_def flz_sample sat_mul_def sat_sub_def L1_COST_FASTLZ_COEF_def
      L1_COST_INTERCEPT_def MIN_TX_SIZE_SCALED_def)

theorem estimate_total_and_bounded_witness:
  "flz_compress_len (replicate 20 7) = Some 12
   \<and> (\<exists>sz. tx_estimated_size_fjord (replicate 20 7) = Some sz \<and> unat sz = 100000000)"
  using estimate_total_and_bounded [of "replicate 20 7"] flz_sample by simp

end
