(* ===== verification/L1_Block_Info.thy ===== *)
theory L1_Block_Info
  imports Flz
begin

text \<open>
  The L1 data fee and the operator fee (\<open>crates/common/evm/src/l1block.rs\<close>) with the upgrade ladder they
  depend on (\<open>crates/common/chains/src/upgrade.rs\<close>, \<open>crates/common/evm/src/spec.rs\<close>).

  The database is a parameter that answers or fails for each slot of the L1 block contract. The pre-Fjord count of
  calldata tokens and its two constants belong to revm and are parameters. A function whose result depends on the
  FastLZ estimate is an option, \<open>None\<close> being its panic; no input that fits a block reaches it.
\<close>

section \<open>Upgrades\<close>

datatype BaseUpgrade = Bedrock | Regolith | Canyon | Ecotone | Fjord | Granite | Holocene | Isthmus | Jovian
  | Azul | Beryl

primrec upgrade_idx :: "BaseUpgrade \<Rightarrow> nat" where
  "upgrade_idx Bedrock = 0"
| "upgrade_idx Regolith = 1"
| "upgrade_idx Canyon = 2"
| "upgrade_idx Ecotone = 3"
| "upgrade_idx Fjord = 4"
| "upgrade_idx Granite = 5"
| "upgrade_idx Holocene = 6"
| "upgrade_idx Isthmus = 7"
| "upgrade_idx Jovian = 8"
| "upgrade_idx Azul = 9"
| "upgrade_idx Beryl = 10"

definition is_enabled_in :: "BaseUpgrade \<Rightarrow> BaseUpgrade \<Rightarrow> bool" where
  "is_enabled_in spec_id other = (upgrade_idx other \<le> upgrade_idx spec_id)"

text \<open>The active upgrade at a time, from the activation times of the chain configuration.\<close>

definition upgrade_from_timestamp :: "(BaseUpgrade \<Rightarrow> u64 \<Rightarrow> bool) \<Rightarrow> u64 \<Rightarrow> BaseUpgrade" where
  "upgrade_from_timestamp active_at ts =
     (if active_at Beryl ts then Beryl
      else if active_at Azul ts then Azul
      else if active_at Jovian ts then Jovian
      else if active_at Isthmus ts then Isthmus
      else if active_at Holocene ts then Holocene
      else if active_at Granite ts then Granite
      else if active_at Fjord ts then Fjord
      else if active_at Ecotone ts then Ecotone
      else if active_at Canyon ts then Canyon
      else if active_at Regolith ts then Regolith
      else Bedrock)"

section \<open>The L1 block info\<close>

record L1BlockInfo =
  l2_block :: "u256 option"
  l1_base_fee :: u256
  l1_fee_overhead :: "u256 option"
  l1_base_fee_scalar :: u256
  l1_blob_base_fee :: "u256 option"
  l1_blob_base_fee_scalar :: "u256 option"
  operator_fee_scalar :: "u256 option"
  operator_fee_constant :: "u256 option"
  da_footprint_gas_scalar :: "16 word option"
  empty_ecotone_scalars :: bool
  tx_l1_cost :: "u256 option"

definition default_l1_info :: L1BlockInfo where
  "default_l1_info = \<lparr>l2_block = None, l1_base_fee = 0, l1_fee_overhead = None, l1_base_fee_scalar = 0,
     l1_blob_base_fee = None, l1_blob_base_fee_scalar = None, operator_fee_scalar = None, operator_fee_constant = None,
     da_footprint_gas_scalar = None, empty_ecotone_scalars = False, tx_l1_cost = None\<rparr>"

definition BASE_FEE_SCALAR_OFFSET :: nat where "BASE_FEE_SCALAR_OFFSET = 16"
definition BLOB_BASE_FEE_SCALAR_OFFSET :: nat where "BLOB_BASE_FEE_SCALAR_OFFSET = 20"
definition OPERATOR_FEE_SCALAR_OFFSET :: nat where "OPERATOR_FEE_SCALAR_OFFSET = 20"
definition OPERATOR_FEE_CONSTANT_OFFSET :: nat where "OPERATOR_FEE_CONSTANT_OFFSET = 24"
definition DA_FOOTPRINT_GAS_SCALAR_OFFSET :: nat where "DA_FOOTPRINT_GAS_SCALAR_OFFSET = 18"
definition OPERATOR_FEE_SCALAR_DECIMAL :: u256 where "OPERATOR_FEE_SCALAR_DECIMAL = 1000000"
definition OPERATOR_FEE_JOVIAN_MULTIPLIER :: u256 where "OPERATOR_FEE_JOVIAN_MULTIPLIER = 100"
definition L1_BASE_FEE_SLOT :: u256 where "L1_BASE_FEE_SLOT = 1"
definition L1_OVERHEAD_SLOT :: u256 where "L1_OVERHEAD_SLOT = 5"
definition L1_SCALAR_SLOT :: u256 where "L1_SCALAR_SLOT = 6"
definition ECOTONE_L1_BLOB_BASE_FEE_SLOT :: u256 where "ECOTONE_L1_BLOB_BASE_FEE_SLOT = 7"
definition ECOTONE_L1_FEE_SCALARS_SLOT :: u256 where "ECOTONE_L1_FEE_SCALARS_SLOT = 3"
definition OPERATOR_FEE_SCALARS_SLOT :: u256 where "OPERATOR_FEE_SCALARS_SLOT = 8"
definition DA_FOOTPRINT_GAS_SCALAR_SLOT :: u256 where "DA_FOOTPRINT_GAS_SCALAR_SLOT = 8"
definition EMPTY_SCALARS :: bytes where "EMPTY_SCALARS = replicate 8 0"

lemmas l1_constants = BASE_FEE_SCALAR_OFFSET_def BLOB_BASE_FEE_SCALAR_OFFSET_def OPERATOR_FEE_SCALAR_OFFSET_def
  OPERATOR_FEE_CONSTANT_OFFSET_def DA_FOOTPRINT_GAS_SCALAR_OFFSET_def L1_BASE_FEE_SLOT_def L1_OVERHEAD_SLOT_def
  L1_SCALAR_SLOT_def ECOTONE_L1_BLOB_BASE_FEE_SLOT_def ECOTONE_L1_FEE_SCALARS_SLOT_def OPERATOR_FEE_SCALARS_SLOT_def
  DA_FOOTPRINT_GAS_SCALAR_SLOT_def EMPTY_SCALARS_def

section \<open>Fetching\<close>

text \<open>The storage of the L1 block contract as the database answers it.\<close>

record 'e l1_db =
  db_basic :: "'e + unit"
  db_slot :: "u256 \<Rightarrow> 'e + u256"

definition sum_bind :: "'e + 'a \<Rightarrow> ('a \<Rightarrow> 'e + 'b) \<Rightarrow> 'e + 'b" where
  "sum_bind m f = (case m of Inl e \<Rightarrow> Inl e | Inr x \<Rightarrow> f x)"

lemma sum_bind_simps [simp]: "sum_bind (Inl e) f = Inl e" "sum_bind (Inr x) f = f x"
  by (simp_all add: sum_bind_def)

lemma sum_bind_Inr: "sum_bind m f = Inr y \<longleftrightarrow> (\<exists>x. m = Inr x \<and> f x = Inr y)"
  by (cases m) simp_all

definition fetch_da_footprint_gas_scalar :: "'e l1_db \<Rightarrow> 'e + 16 word" where
  "fetch_da_footprint_gas_scalar db = sum_bind (db_slot db DA_FOOTPRINT_GAS_SCALAR_SLOT) (\<lambda>w.
     Inr (be_word (byte_slice DA_FOOTPRINT_GAS_SCALAR_OFFSET 2 (be_bytes w))))"

definition try_fetch_jovian :: "L1BlockInfo \<Rightarrow> 'e l1_db \<Rightarrow> 'e + L1BlockInfo" where
  "try_fetch_jovian self db = sum_bind (fetch_da_footprint_gas_scalar db) (\<lambda>s.
     Inr (self\<lparr>da_footprint_gas_scalar := Some s\<rparr>))"

definition try_fetch_isthmus :: "L1BlockInfo \<Rightarrow> 'e l1_db \<Rightarrow> 'e + L1BlockInfo" where
  "try_fetch_isthmus self db = sum_bind (db_slot db OPERATOR_FEE_SCALARS_SLOT) (\<lambda>w.
     let operator_fee_scalars = be_bytes w in
     Inr (self\<lparr>operator_fee_scalar := Some (be_word (byte_slice OPERATOR_FEE_SCALAR_OFFSET 4 operator_fee_scalars)),
               operator_fee_constant := Some (be_word (byte_slice OPERATOR_FEE_CONSTANT_OFFSET 8 operator_fee_scalars))\<rparr>))"

definition try_fetch_ecotone :: "L1BlockInfo \<Rightarrow> 'e l1_db \<Rightarrow> 'e + L1BlockInfo" where
  "try_fetch_ecotone self db =
     sum_bind (db_slot db ECOTONE_L1_BLOB_BASE_FEE_SLOT) (\<lambda>blob_fee.
     sum_bind (db_slot db ECOTONE_L1_FEE_SCALARS_SLOT) (\<lambda>w.
     let l1_fee_scalars = be_bytes w;
         l1_blob_base_fee = be_word (byte_slice BLOB_BASE_FEE_SCALAR_OFFSET 4 l1_fee_scalars);
         empty = (l1_blob_base_fee = (0 :: u256)
           \<and> byte_slice BASE_FEE_SCALAR_OFFSET 8 l1_fee_scalars = EMPTY_SCALARS)
     in sum_bind (if empty then sum_bind (db_slot db L1_OVERHEAD_SLOT) (\<lambda>o'. Inr (Some o')) else Inr None) (\<lambda>overhead.
     Inr (self\<lparr>l1_blob_base_fee := Some blob_fee,
       l1_base_fee_scalar := be_word (byte_slice BASE_FEE_SCALAR_OFFSET 4 l1_fee_scalars),
       l1_blob_base_fee_scalar := Some l1_blob_base_fee,
       empty_ecotone_scalars := empty, l1_fee_overhead := overhead\<rparr>))))"

definition try_fetch :: "'e l1_db \<Rightarrow> u256 \<Rightarrow> BaseUpgrade \<Rightarrow> 'e + L1BlockInfo" where
  "try_fetch db block_number spec_id =
     sum_bind (db_basic db) (\<lambda>_.
     sum_bind (db_slot db L1_BASE_FEE_SLOT) (\<lambda>base_fee.
     let out = default_l1_info\<lparr>l2_block := Some block_number, l1_base_fee := base_fee\<rparr> in
     if \<not> is_enabled_in spec_id Ecotone then
       sum_bind (db_slot db L1_SCALAR_SLOT) (\<lambda>scalar.
       sum_bind (db_slot db L1_OVERHEAD_SLOT) (\<lambda>overhead.
       Inr (out\<lparr>l1_base_fee_scalar := scalar, l1_fee_overhead := Some overhead\<rparr>)))
     else sum_bind (try_fetch_ecotone out db) (\<lambda>out.
       sum_bind (if is_enabled_in spec_id Isthmus then try_fetch_isthmus out db else Inr out) (\<lambda>out.
       if is_enabled_in spec_id Jovian then try_fetch_jovian out db else Inr out))))"

section \<open>Operator fee\<close>

definition or_zero :: "u256 option \<Rightarrow> u256" where
  "or_zero x = (case x of Some v \<Rightarrow> v | None \<Rightarrow> 0)"

definition operator_fee_charge_inner :: "L1BlockInfo \<Rightarrow> u256 \<Rightarrow> BaseUpgrade \<Rightarrow> u256" where
  "operator_fee_charge_inner self gas spec_id =
     (let scalar = or_zero (operator_fee_scalar self);
          const = or_zero (operator_fee_constant self);
          product = (if is_enabled_in spec_id Jovian
            then sat_mul (sat_mul gas scalar) OPERATOR_FEE_JOVIAN_MULTIPLIER
            else sat_mul gas scalar div OPERATOR_FEE_SCALAR_DECIMAL)
      in sat_add product const)"

text \<open>Deposits and empty inputs carry no fee.\<close>

definition no_fee_input :: "bytes \<Rightarrow> bool" where
  "no_fee_input input = (input = [] \<or> hd input = 0x7E)"

definition operator_fee_charge :: "L1BlockInfo \<Rightarrow> bytes \<Rightarrow> u256 \<Rightarrow> BaseUpgrade \<Rightarrow> u256" where
  "operator_fee_charge self input gas_lim spec_id =
     (if no_fee_input input then 0 else operator_fee_charge_inner self gas_lim spec_id)"

text \<open>The gas of a finished frame, as revm reports it.\<close>

record Gas =
  frame_limit :: u64
  frame_remaining :: u64
  frame_refunded :: int

definition operator_fee_refund :: "L1BlockInfo \<Rightarrow> Gas \<Rightarrow> BaseUpgrade \<Rightarrow> u256" where
  "operator_fee_refund self g spec_id =
     (if \<not> is_enabled_in spec_id Isthmus then 0
      else let operator_cost_gas_limit = operator_fee_charge_inner self (ucast (frame_limit g)) spec_id;
               operator_cost_gas_used = operator_fee_charge_inner self
                 (ucast (frame_limit g - (frame_remaining g + word_of_int (frame_refunded g)))) spec_id
           in sat_sub operator_cost_gas_limit operator_cost_gas_used)"

section \<open>Data fee\<close>

text \<open>What revm contributes to the pre-Fjord fee.\<close>

record calldata_gas =
  tokens_in_calldata :: "bytes \<Rightarrow> u64"
  NON_ZERO_BYTE_MULTIPLIER_ISTANBUL :: u64
  STANDARD_TOKEN_COST :: u64

definition l1_tx_estimated_size_fjord :: "bytes \<Rightarrow> u256 option" where
  "l1_tx_estimated_size_fjord input = map_option ucast (tx_estimated_size_fjord input)"

definition data_gas :: "calldata_gas \<Rightarrow> bytes \<Rightarrow> BaseUpgrade \<Rightarrow> u256 option" where
  "data_gas cg input spec_id =
     (if is_enabled_in spec_id Fjord then
        map_option (\<lambda>estimated_size. sat_mul estimated_size (ucast NON_ZERO_BYTE_COST) div 1000000)
          (l1_tx_estimated_size_fjord input)
      else let tokens = tokens_in_calldata cg input;
               tokens = (if \<not> is_enabled_in spec_id Regolith then tokens + 68 * NON_ZERO_BYTE_MULTIPLIER_ISTANBUL cg else tokens)
           in Some (ucast (sat_mul tokens (STANDARD_TOKEN_COST cg))))"

definition calculate_tx_l1_cost_bedrock :: "calldata_gas \<Rightarrow> L1BlockInfo \<Rightarrow> bytes \<Rightarrow> BaseUpgrade \<Rightarrow> u256 option" where
  "calculate_tx_l1_cost_bedrock cg self input spec_id =
     map_option (\<lambda>rollup_data_gas_cost.
       sat_mul (sat_mul (sat_add rollup_data_gas_cost (or_zero (l1_fee_overhead self))) (l1_base_fee self))
         (l1_base_fee_scalar self) div 1000000)
     (data_gas cg input spec_id)"

definition calculate_l1_fee_scaled_ecotone :: "L1BlockInfo \<Rightarrow> u256" where
  "calculate_l1_fee_scaled_ecotone self =
     (let calldata_cost_per_byte = sat_mul (sat_mul (l1_base_fee self) (ucast NON_ZERO_BYTE_COST)) (l1_base_fee_scalar self);
          blob_cost_per_byte = sat_mul (or_zero (l1_blob_base_fee self)) (or_zero (l1_blob_base_fee_scalar self))
      in sat_add calldata_cost_per_byte blob_cost_per_byte)"

definition calculate_tx_l1_cost_ecotone :: "calldata_gas \<Rightarrow> L1BlockInfo \<Rightarrow> bytes \<Rightarrow> BaseUpgrade \<Rightarrow> u256 option" where
  "calculate_tx_l1_cost_ecotone cg self input spec_id =
     (if empty_ecotone_scalars self then calculate_tx_l1_cost_bedrock cg self input spec_id
      else map_option (\<lambda>rollup_data_gas_cost.
        sat_mul (calculate_l1_fee_scaled_ecotone self) rollup_data_gas_cost div (1000000 * ucast NON_ZERO_BYTE_COST))
        (data_gas cg input spec_id))"

definition calculate_tx_l1_cost_fjord :: "L1BlockInfo \<Rightarrow> bytes \<Rightarrow> u256 option" where
  "calculate_tx_l1_cost_fjord self input =
     (let l1_fee_scaled = calculate_l1_fee_scaled_ecotone self in
      if l1_fee_scaled = 0 then Some 0
      else map_option (\<lambda>estimated_size. sat_mul estimated_size l1_fee_scaled div 1000000000000)
        (l1_tx_estimated_size_fjord input))"

definition calculate_tx_l1_cost :: "calldata_gas \<Rightarrow> L1BlockInfo \<Rightarrow> bytes \<Rightarrow> BaseUpgrade \<Rightarrow> (u256 \<times> L1BlockInfo) option" where
  "calculate_tx_l1_cost cg self input spec_id =
     (case tx_l1_cost self of
        Some cached \<Rightarrow> Some (cached, self)
      | None \<Rightarrow>
        if no_fee_input input then Some (0, self)
        else map_option (\<lambda>cost. (cost, self\<lparr>tx_l1_cost := Some cost\<rparr>))
          (if is_enabled_in spec_id Fjord then calculate_tx_l1_cost_fjord self input
           else if is_enabled_in spec_id Ecotone then calculate_tx_l1_cost_ecotone cg self input spec_id
           else calculate_tx_l1_cost_bedrock cg self input spec_id))"

definition clear_tx_l1_cost :: "L1BlockInfo \<Rightarrow> L1BlockInfo" where
  "clear_tx_l1_cost self = self\<lparr>tx_l1_cost := None\<rparr>"

definition tx_cost :: "calldata_gas \<Rightarrow> L1BlockInfo \<Rightarrow> bytes \<Rightarrow> u256 \<Rightarrow> BaseUpgrade \<Rightarrow> (u256 \<times> L1BlockInfo) option" where
  "tx_cost cg self enveloped gas_lim spec_id =
     map_option (\<lambda>(additional_cost, self).
       (if is_enabled_in spec_id Isthmus
        then sat_add additional_cost (operator_fee_charge self enveloped gas_lim spec_id) else additional_cost, self))
     (calculate_tx_l1_cost cg self enveloped spec_id)"

text \<open>The outer option is a missing envelope, the inner one a panic.\<close>

definition tx_cost_with_tx :: "calldata_gas \<Rightarrow> L1BlockInfo \<Rightarrow> bytes option \<Rightarrow> u64 \<Rightarrow> BaseUpgrade \<Rightarrow>
    (u256 \<times> L1BlockInfo) option option" where
  "tx_cost_with_tx cg self enveloped_tx gas_lim spec_id =
     map_option (\<lambda>enveloped. tx_cost cg self enveloped (ucast gas_lim) spec_id) enveloped_tx"

section \<open>Facts\<close>

lemma word_div_mono: "a \<le> b \<Longrightarrow> a div c \<le> (b div c :: 'a::len word)"
  by (simp add: word_le_nat_alt unat_div_distrib div_le_mono)

lemma operator_fee_charge_inner_mono: "g \<le> g' \<Longrightarrow> operator_fee_charge_inner self g spec_id \<le> operator_fee_charge_inner self g' spec_id"
  by (simp add: operator_fee_charge_inner_def Let_def sat_add_mono sat_mul_mono word_div_mono)

text \<open>The gas of a finished frame is consistent: what is left and refunded is within the limit.\<close>

definition gas_ok :: "Gas \<Rightarrow> bool" where
  "gas_ok g \<longleftrightarrow> 0 \<le> frame_refunded g \<and> unat (frame_remaining g) + nat (frame_refunded g) \<le> unat (frame_limit g)"

definition net_gas :: "Gas \<Rightarrow> nat" where
  "net_gas g = unat (frame_limit g) - unat (frame_remaining g) - nat (frame_refunded g)"

lemma net_gas_word:
  assumes "gas_ok g"
  shows "unat (frame_limit g - (frame_remaining g + word_of_int (frame_refunded g))) = net_gas g"
proof -
  let ?rem = "unat (frame_remaining g)" and ?lim = "unat (frame_limit g)"
  obtain n where n: "frame_refunded g = int n" using assms by (auto simp: gas_ok_def intro: nonneg_int_cases)
  have le: "?rem + n \<le> ?lim" using assms by (simp add: gas_ok_def n)
  moreover have "?lim < 2 ^ 64" using unsigned_less [of "frame_limit g"] by simp
  ultimately have "unat (frame_remaining g + word_of_nat n) = ?rem + n"
    by (simp add: unat_word_ariths unsigned_of_nat take_bit_nat_eq_self take_bit_eq_mod [symmetric])
  then show ?thesis
    using le by (simp add: n net_gas_def unat_sub word_le_nat_alt)
qed

lemma unat_ucast_u64 [simp]: "unat (ucast (x :: u64) :: u256) = unat x"
  by (simp add: unsigned_ucast_eq take_bit_nat_eq_self unsigned_less [THEN less_trans])

text \<open>The operator fee is settled exactly: what is refunded and the fee for the gas really used add up to the fee
  charged in advance for the whole gas limit.\<close>

lemma operator_fee_split:
  assumes "is_enabled_in spec_id Isthmus" "gas_ok g" "unat used = net_gas g"
  shows "unat (operator_fee_refund self g spec_id) + unat (operator_fee_charge_inner self (ucast (used :: u64)) spec_id)
    = unat (operator_fee_charge_inner self (ucast (frame_limit g)) spec_id)"
proof -
  have used: "frame_limit g - (frame_remaining g + word_of_int (frame_refunded g)) = used"
    using net_gas_word [OF assms(2)] assms(3) by (simp add: word_unat_eq_iff)
  have "(ucast used :: u256) \<le> ucast (frame_limit g)"
    using assms(2,3) by (simp add: word_le_nat_alt net_gas_def gas_ok_def)
  then have "operator_fee_charge_inner self (ucast used) spec_id \<le> operator_fee_charge_inner self (ucast (frame_limit g)) spec_id"
    by (rule operator_fee_charge_inner_mono)
  then show ?thesis
    using assms(1) by (simp add: operator_fee_refund_def Let_def used unat_sat_sub word_le_nat_alt)
qed

text \<open>The fields of a fetched record.\<close>

lemma try_fetch_fjord:
  assumes "try_fetch db n spec_id = Inr info" "is_enabled_in spec_id Fjord"
  obtains base blob w where "db_slot db 1 = Inr base" "db_slot db 7 = Inr blob" "db_slot db 3 = Inr w"
    "l1_base_fee info = base" "l1_blob_base_fee info = Some blob" "tx_l1_cost info = None"
    "l1_base_fee_scalar info = take_bit 32 (drop_bit 96 w)" "l1_blob_base_fee_scalar info = Some (take_bit 32 (drop_bit 64 w))"
proof -
  have eco: "is_enabled_in spec_id Ecotone" using assms(2) by (simp add: is_enabled_in_def)
  have "be_word (byte_slice 16 4 (be_bytes w)) = take_bit 32 (drop_bit 96 w)"
    "be_word (byte_slice 20 4 (be_bytes w)) = take_bit 32 (drop_bit 64 w)" for w
    using be_word_slice [of 16 4 w] be_word_slice [of 20 4 w] by simp_all
  then show ?thesis
    using assms(1) eco that
    by (auto simp: try_fetch_def try_fetch_ecotone_def try_fetch_isthmus_def try_fetch_jovian_def sum_bind_Inr Let_def
        l1_constants default_l1_info_def split: if_splits)
qed

lemma try_fetch_total:
  assumes "db_basic db = Inr ()" "\<And>s. \<exists>w. db_slot db s = Inr w"
  shows "\<exists>info. try_fetch db n spec_id = Inr info"
proof -
  obtain f where f: "\<And>s. db_slot db s = Inr (f s)" using assms(2) by metis
  have "\<exists>i. try_fetch_ecotone info db = Inr i" for info by (simp add: try_fetch_ecotone_def f Let_def)
  moreover have "\<exists>i. try_fetch_isthmus info db = Inr i" for info by (simp add: try_fetch_isthmus_def f Let_def)
  moreover have "\<exists>i. try_fetch_jovian info db = Inr i" for info
    by (simp add: try_fetch_jovian_def fetch_da_footprint_gas_scalar_def f)
  ultimately obtain e i j where "\<And>info. try_fetch_ecotone info db = Inr (e info)"
    "\<And>info. try_fetch_isthmus info db = Inr (i info)" "\<And>info. try_fetch_jovian info db = Inr (j info)" by metis
  then show ?thesis
    by (cases "is_enabled_in spec_id Ecotone"; cases "is_enabled_in spec_id Isthmus"; cases "is_enabled_in spec_id Jovian")
      (simp_all add: try_fetch_def assms(1) f Let_def)
qed

lemma unat_take_bit_less: "n < LENGTH('a) \<Longrightarrow> unat (take_bit n (w :: 'a::len word)) < 2 ^ n"
  by (metis take_bit_nat_less_exp unsigned_take_bit_eq)

lemma sat_mul_exact: "unat a * unat b < 2 ^ LENGTH('a) \<Longrightarrow> unat (sat_mul a b :: 'a::len word) = unat a * unat b"
  by (simp add: unat_sat_mul)

lemma sat_add_exact: "unat a + unat b < 2 ^ LENGTH('a) \<Longrightarrow> unat (sat_add a b :: 'a::len word) = unat a + unat b"
  by (simp add: unat_sat_add)

text \<open>C30: the data fee is the specified one. From Fjord on, for block info fetched from the L1 block contract,
  the fee of a transaction is its estimated size times the scaled base and blob fee, over \<open>10^12\<close>, where
  the scalars are the two 32-bit fields of slot 3; with fees below \<open>2^128\<close> nothing saturates. The second and
  every later query for the transaction returns the same fee.\<close>

theorem data_fee_as_specified:
  assumes "try_fetch db n spec_id = Inr info" "is_enabled_in spec_id Fjord"
    and "db_slot db 1 = Inr base" "db_slot db 7 = Inr blob" "db_slot db 3 = Inr w" "unat base < 2 ^ 128" "unat blob < 2 ^ 128"
    and "\<not> no_fee_input input" "length input < 2 ^ 31"
  shows "\<exists>sz fee info'. tx_estimated_size_fjord input = Some sz \<and> calculate_tx_l1_cost cg info input spec_id = Some (fee, info')
    \<and> unat fee = unat sz * (16 * unat base * unat (take_bit 32 (drop_bit 96 w)) + unat blob * unat (take_bit 32 (drop_bit 64 w))) div 10 ^ 12
    \<and> (\<forall>input'. calculate_tx_l1_cost cg info' input' spec_id = Some (fee, info'))"
proof -
  obtain sz where sz: "tx_estimated_size_fjord input = Some sz"
    using estimate_ok [OF assms(9)] by blast
  define s1 s2 where "s1 = take_bit 32 (drop_bit 96 w)" and "s2 = take_bit 32 (drop_bit 64 w)"
  have info: "l1_base_fee info = base" "l1_blob_base_fee info = Some blob" "tx_l1_cost info = None"
    "l1_base_fee_scalar info = s1" "l1_blob_base_fee_scalar info = Some s2"
    using try_fetch_fjord [OF assms(1,2)] assms(3-5) by (auto simp: s1_def s2_def)
  have s: "unat s1 < 2 ^ 32" "unat s2 < 2 ^ 32" unfolding s1_def s2_def by (intro unat_take_bit_less; simp)+
  let ?scaled = "calculate_l1_fee_scaled_ecotone info"
  have p1: "16 * unat base < 2 ^ 132" using assms(6) by simp
  have p2: "16 * unat base * unat s1 < 2 ^ 132 * 2 ^ 32" by (rule mult_strict_mono) (use p1 s(1) in simp_all)
  have p3: "unat blob * unat s2 < 2 ^ 128 * 2 ^ 32" by (rule mult_strict_mono) (use assms(7) s(2) in simp_all)
  have sc: "unat ?scaled = 16 * unat base * unat s1 + unat blob * unat s2"
    using p1 p2 p3
  proof -
    have m1: "unat (sat_mul base (ucast NON_ZERO_BYTE_COST)) = 16 * unat base"
      using p1 by (subst sat_mul_exact) (simp_all add: NON_ZERO_BYTE_COST_def)
    have m2: "unat (sat_mul (sat_mul base (ucast NON_ZERO_BYTE_COST)) s1) = 16 * unat base * unat s1"
      using p2 by (subst sat_mul_exact) (simp_all add: m1)
    have m3: "unat (sat_mul blob s2) = unat blob * unat s2" using p3 by (subst sat_mul_exact) simp_all
    show ?thesis
      using p2 p3 by (simp add: calculate_l1_fee_scaled_ecotone_def info or_zero_def Let_def sat_add_exact m2 m3)
  qed
  have "unat sz * unat ?scaled < 2 ^ 64 * 2 ^ 165"
    by (rule mult_strict_mono) (use unsigned_less [of sz] sc p2 p3 in simp_all)
  then have fee: "unat (sat_mul (ucast sz) ?scaled div 1000000000000 :: u256) = unat sz * unat ?scaled div 10 ^ 12"
    by (simp add: unat_div_distrib sat_mul_exact)
  show ?thesis
  proof (cases "?scaled = 0")
    case True
    then show ?thesis
      using sc sz assms(2,8) unfolding s1_def [symmetric] s2_def [symmetric]
      by (simp add: calculate_tx_l1_cost_def info(3) calculate_tx_l1_cost_fjord_def Let_def sc [symmetric])
  next
    case False
    then show ?thesis
      using sc sz fee assms(2,8) unfolding s1_def s2_def
      by (simp add: calculate_tx_l1_cost_def info(3) calculate_tx_l1_cost_fjord_def l1_tx_estimated_size_fjord_def Let_def)
  qed
qed

definition sample_l1_db :: "string l1_db" where
  "sample_l1_db = \<lparr>db_basic = Inr (), db_slot = (\<lambda>s. Inr (if s = 1 then 1000000000 else if s = 7 then 10
     else if s = 3 then push_bit 96 5000 + push_bit 64 900000 else 0))\<rparr>"

definition sample_cg :: calldata_gas where
  "sample_cg = \<lparr>tokens_in_calldata = (\<lambda>bs. word_of_nat (length bs)), NON_ZERO_BYTE_MULTIPLIER_ISTANBUL = 4, STANDARD_TOKEN_COST = 4\<rparr>"

theorem data_fee_as_specified_witness:
  "\<exists>info fee info'. try_fetch sample_l1_db 12 Jovian = Inr info
    \<and> calculate_tx_l1_cost sample_cg info (replicate 20 7) Jovian = Some (fee, info') \<and> unat fee = 8000000900"
proof -
  let ?w = "push_bit 96 5000 + push_bit 64 900000 :: u256"
  have slots: "db_slot sample_l1_db 1 = Inr 1000000000" "db_slot sample_l1_db 7 = Inr 10" "db_slot sample_l1_db 3 = Inr ?w"
    by (simp_all add: sample_l1_db_def)
  have w: "take_bit 32 (drop_bit 96 ?w) = 5000" "take_bit 32 (drop_bit 64 ?w) = 900000" by code_simp+
  obtain info where info: "try_fetch sample_l1_db 12 Jovian = Inr info"
    using try_fetch_total [of sample_l1_db 12 Jovian] by (auto simp: sample_l1_db_def)
  have "\<not> no_fee_input (replicate 20 7)" by (simp add: no_fee_input_def)
  then show ?thesis
    using data_fee_as_specified [OF info _ slots, of "replicate 20 7" sample_cg] info
    by (auto simp: w estimate_sample is_enabled_in_def)
qed

end
