(* ===== verification/Base_Handler.thy ===== *)
theory Base_Handler
  imports Transactions L1_Block_Info
begin

text \<open>
  The transaction handler of the rollup (\<open>crates/common/evm/src/handler.rs\<close>): validation and the deduction
  of fees, gas normalization, reimbursement, rewards, the result and the treatment of failed deposits.

  The steps of revm that the handler calls are parameters (record \<open>revm\<close>): fee arithmetic of the mainnet handler,
  balance transfers, frame execution, the operations of \<open>Gas\<close>. The journal is the state itself: a checkpoint is a
  snapshot, reverting restores it, and committing a transaction clears the transient slots. An account load is an
  access that may fail.
\<close>

section \<open>Blocks and state\<close>

definition L1_FEE_VAULT :: address where "L1_FEE_VAULT = 0x420000000000000000000000000000000000001a"
definition BASE_FEE_VAULT :: address where "BASE_FEE_VAULT = 0x4200000000000000000000000000000000000019"
definition OPERATOR_FEE_VAULT :: address where "OPERATOR_FEE_VAULT = 0x420000000000000000000000000000000000001B"

record 'w journal =
  balance_of :: "address \<Rightarrow> u256"
  nonce_of :: "address \<Rightarrow> u64"
  sci :: sci_state
  world :: 'w

datatype ContextError = DbContext string | CustomContext string

record 'w evm =
  jnl :: "'w journal"
  tx_start :: "'w journal"
  l1_info :: L1BlockInfo
  ctx_error :: "ContextError option"

record block_env =
  block_number :: u256
  basefee :: u64
  beneficiary :: address
  blob_gasprice :: "u128 option"
  block_time :: u256
  cfg_spec :: BaseUpgrade
  fee_charge_disabled :: bool
  balance_check_disabled :: bool

datatype InstructionResult = Ok_result | Revert_result | Halt_result

record FrameResult =
  fr_result :: InstructionResult
  fr_gas :: Gas
  fr_output :: bytes

datatype HaltReason = BaseHalt string | FailedDeposit

datatype ExecutionResult = ExecSuccess Gas bytes | ExecRevert Gas bytes | ExecHalt HaltReason u64

text \<open>What revm and the node contribute.\<close>

record FrameInit =
  fi_caller :: address
  fi_to :: TxKind
  fi_code :: "address option"
  fi_value :: u256
  fi_input :: bytes
  fi_gas :: u64

datatype TransferError = OutOfFunds | OverflowPayment | CreateCollision

record 'w revm =
  keccak :: "bytes \<Rightarrow> b256"
  decoders :: token_abi
  map_order :: "(address \<times> u256) list \<Rightarrow> (address \<times> u256) list"
  l1_state :: "handler_error l1_db"
  calldata_cost :: calldata_gas
  mainnet_validate_env :: "BaseTransaction \<Rightarrow> block_env \<Rightarrow> InvalidTx option"
  validate_nonce_and_code :: "BaseTransaction \<Rightarrow> 'w journal \<Rightarrow> InvalidTx option"
  calculate_caller_fee :: "u256 \<Rightarrow> BaseTransaction \<Rightarrow> block_env \<Rightarrow> InvalidTx + u256"
  effective_balance_spending :: "BaseTransaction \<Rightarrow> u128 \<Rightarrow> u128 \<Rightarrow> u256 option"
  max_balance_spending :: "BaseTransaction \<Rightarrow> u256 option"
  bump_nonce :: "u64 \<Rightarrow> u64"
  gas_new_spent :: "u64 \<Rightarrow> Gas"
  gas_erase_cost :: "u64 \<Rightarrow> Gas \<Rightarrow> Gas"
  gas_record_refund :: "int \<Rightarrow> Gas \<Rightarrow> Gas"
  gas_set_final_refund :: "bool \<Rightarrow> Gas \<Rightarrow> Gas"
  gas_used_of :: "Gas \<Rightarrow> u64"
  journal_transfer :: "address \<Rightarrow> address \<Rightarrow> u256 \<Rightarrow> 'w journal \<Rightarrow> TransferError option \<times> 'w journal"
  balance_incr :: "address \<Rightarrow> u256 \<Rightarrow> 'w journal \<Rightarrow> 'w journal"
  mainnet_reimburse :: "BaseTransaction \<Rightarrow> block_env \<Rightarrow> Gas \<Rightarrow> u256 \<Rightarrow> 'w journal \<Rightarrow> 'w journal"
  mainnet_reward :: "BaseTransaction \<Rightarrow> block_env \<Rightarrow> Gas \<Rightarrow> 'w journal \<Rightarrow> 'w journal"
  delegate_of :: "'w journal \<Rightarrow> address \<Rightarrow> address option"
  first_frame_input :: "BaseTransaction \<Rightarrow> u64 \<Rightarrow> ('w evm, FrameInit) hrun"
  inspect_run_exec_loop :: "FrameInit \<Rightarrow> ('w evm, FrameResult) hrun"
  run_exec_loop :: "FrameInit \<Rightarrow> ('w evm, FrameResult) hrun"
  mainnet_execution :: "BaseTransaction \<Rightarrow> u64 \<Rightarrow> ('w evm, FrameResult) hrun"
  exec_output :: "FrameResult \<Rightarrow> ExecutionResult"

section \<open>Handler steps\<close>

definition h_return :: "'a \<Rightarrow> ('s, 'a) hrun" where
  "h_return x = (\<lambda>fs s. (Inr x, fs, s))"

definition h_throw :: "handler_error \<Rightarrow> ('s, 'a) hrun" where
  "h_throw e = (\<lambda>fs s. (Inl e, fs, s))"

definition h_get :: "('s \<Rightarrow> 'a) \<Rightarrow> ('s, 'a) hrun" where
  "h_get g = (\<lambda>fs s. (Inr (g s), fs, s))"

definition h_modify :: "('s \<Rightarrow> 's) \<Rightarrow> ('s, unit) hrun" where
  "h_modify u = (\<lambda>fs s. (Inr (), fs, u s))"

definition h_invalid :: "InvalidTx option \<Rightarrow> ('s, unit) hrun" where
  "h_invalid r = (case r of None \<Rightarrow> h_return () | Some e \<Rightarrow> h_throw (TransactionError e))"

text \<open>Loading an account reads the database.\<close>

definition load_account :: "address \<Rightarrow> ('s, unit) hrun" where
  "load_account a = (\<lambda>fs s. case next_access fs of
     (Done, fs') \<Rightarrow> (Inr (), fs', s)
   | (Fail e, fs') \<Rightarrow> (Inl (DatabaseError ''account''), fs', s)
   | (Late e, fs') \<Rightarrow> (Inl (DatabaseError ''account''), fs', s))"

definition on_sci :: "(sci_state, 'a) hrun \<Rightarrow> ('w evm, 'a) hrun" where
  "on_sci m = (\<lambda>fs s. case m fs (sci (jnl s)) of (r, fs', t) \<Rightarrow> (r, fs', s\<lparr>jnl := (jnl s)\<lparr>sci := t\<rparr>\<rparr>))"

definition set_balance :: "address \<Rightarrow> u256 \<Rightarrow> 'w evm \<Rightarrow> 'w evm" where
  "set_balance a b s = s\<lparr>jnl := (jnl s)\<lparr>balance_of := (balance_of (jnl s))(a := b)\<rparr>\<rparr>"

definition bump_nonce_if :: "'w revm \<Rightarrow> bool \<Rightarrow> address \<Rightarrow> 'w evm \<Rightarrow> 'w evm" where
  "bump_nonce_if R c a s =
     (if c then s\<lparr>jnl := (jnl s)\<lparr>nonce_of := (nonce_of (jnl s))(a := bump_nonce R (nonce_of (jnl s) a))\<rparr>\<rparr> else s)"

definition commit_tx :: "'w evm \<Rightarrow> 'w evm" where
  "commit_tx s = (let j = (jnl s)\<lparr>sci := (sci (jnl s))\<lparr>keychain := (keychain (sci (jnl s)))\<lparr>transaction_key := 0, tx_origin := 0\<rparr>\<rparr>\<rparr>
     in s\<lparr>jnl := j, tx_start := j\<rparr>)"

definition checked_sub :: "'a::len word \<Rightarrow> 'a word \<Rightarrow> 'a word option" where
  "checked_sub a b = (if b \<le> a then Some (a - b) else None)"

definition or_default :: "'a::zero option \<Rightarrow> 'a" where
  "or_default x = (case x of Some v \<Rightarrow> v | None \<Rightarrow> 0)"

section \<open>\<open>BaseHandler\<close>\<close>

definition is_tx_error :: "handler_error \<Rightarrow> bool" where
  "is_tx_error e = (case e of TransactionError t \<Rightarrow> True | CustomError m c \<Rightarrow> False | DatabaseError m \<Rightarrow> False
     | Panicked m \<Rightarrow> False)"

definition validate_env :: "'w revm \<Rightarrow> block_env \<Rightarrow> BaseTransaction \<Rightarrow> ('w evm, unit) hrun" where
  "validate_env R blk tx =
     (if is_deposit tx then
        if is_system_transaction (deposit tx) \<and> is_enabled_in (cfg_spec blk) Regolith
        then h_throw (TransactionError DepositSystemTxPostRegolith) else h_return ()
      else if enveloped_tx tx = None then h_throw (TransactionError MissingEnvelopedTx)
      else h_invalid (mainnet_validate_env R tx blk))"

definition deduct_deposit :: "'w revm \<Rightarrow> block_env \<Rightarrow> BaseTransaction \<Rightarrow> ('w evm, unit) hrun" where
  "deduct_deposit R blk tx =
     h_bind (load_account (tx_caller tx)) (\<lambda>_.
     case effective_balance_spending R tx (ucast (basefee blk)) (or_default (blob_gasprice blk)) of
       None \<Rightarrow> h_throw (Panicked ''Deposit transaction effective balance spending overflow'')
     | Some spending \<Rightarrow> h_bind (h_get (\<lambda>s. balance_of (jnl s) (tx_caller tx))) (\<lambda>balance.
         let effective_balance_spending = spending - tx_value tx;
             new_balance = sat_sub (sat_add balance (ucast (or_default (mint (deposit tx))))) effective_balance_spending;
             new_balance = (if balance_check_disabled blk then max new_balance (tx_value tx) else new_balance)
         in h_modify (\<lambda>s. bump_nonce_if R (is_call (tx_kind tx)) (tx_caller tx) (set_balance (tx_caller tx) new_balance s))))"

definition refresh_l1_info :: "'w revm \<Rightarrow> block_env \<Rightarrow> ('w evm, unit) hrun" where
  "refresh_l1_info R blk = (\<lambda>fs s.
     if l2_block (l1_info s) \<noteq> Some (block_number blk) then
       (case try_fetch (l1_state R) (block_number blk) (cfg_spec blk) of
          Inl e \<Rightarrow> (Inl e, fs, s)
        | Inr info \<Rightarrow> (Inr (), fs, s\<lparr>l1_info := info\<rparr>))
     else (Inr (), fs, s))"

text \<open>\<open>chain.tx_cost_with_tx(tx, spec)\<close>: \<open>None\<close> without an envelope; the cost is cached in the L1 info.\<close>

definition h_tx_cost :: "'w revm \<Rightarrow> block_env \<Rightarrow> BaseTransaction \<Rightarrow> ('w evm, u256 option) hrun" where
  "h_tx_cost R blk tx = (\<lambda>fs s.
     case tx_cost_with_tx (calldata_cost R) (l1_info s) (enveloped_tx tx) (tx_gas_limit tx) (cfg_spec blk) of
       None \<Rightarrow> (Inr None, fs, s)
     | Some None \<Rightarrow> (Inl (Panicked ''index out of bounds''), fs, s)
     | Some (Some (cost, info)) \<Rightarrow> (Inr (Some cost), fs, s\<lparr>l1_info := info\<rparr>))"

definition charge_additional_cost :: "'w revm \<Rightarrow> block_env \<Rightarrow> BaseTransaction \<Rightarrow> u256 \<Rightarrow> ('w evm, u256) hrun" where
  "charge_additional_cost R blk tx balance =
     (if fee_charge_disabled blk then h_return balance
      else h_bind (h_tx_cost R blk tx) (\<lambda>cost. case cost of
        None \<Rightarrow> h_throw (CustomError ''[OPTIMISM] Failed to load enveloped transaction.'' None)
      | Some additional_cost \<Rightarrow> (case checked_sub balance additional_cost of
          None \<Rightarrow> h_throw (TransactionError (LackOfFundForMaxFee additional_cost balance))
        | Some new_balance \<Rightarrow> h_return new_balance)))"

definition base_deduct_caller :: "'w revm \<Rightarrow> block_env \<Rightarrow> BaseTransaction \<Rightarrow> ('w evm, unit) hrun" where
  "base_deduct_caller R blk tx =
     (if is_deposit tx then deduct_deposit R blk tx
      else h_bind (refresh_l1_info R blk) (\<lambda>_.
        h_bind (load_account (tx_caller tx)) (\<lambda>_.
        h_bind (h_get jnl) (\<lambda>j.
        h_bind (h_invalid (validate_nonce_and_code R tx j)) (\<lambda>_.
        h_bind (charge_additional_cost R blk tx (balance_of j (tx_caller tx))) (\<lambda>balance.
        case calculate_caller_fee R balance tx blk of
          Inl e \<Rightarrow> h_throw (TransactionError e)
        | Inr balance \<Rightarrow> h_modify (\<lambda>s.
            bump_nonce_if R (is_call (tx_kind tx)) (tx_caller tx) (set_balance (tx_caller tx) balance s))))))))"

definition last_frame_result :: "'w revm \<Rightarrow> block_env \<Rightarrow> BaseTransaction \<Rightarrow> FrameResult \<Rightarrow> FrameResult" where
  "last_frame_result R blk tx fr =
     (let is_regolith = is_enabled_in (cfg_spec blk) Regolith;
          remaining = frame_remaining (fr_gas fr);
          refunded = frame_refunded (fr_gas fr);
          gas = gas_new_spent R (tx_gas_limit tx)
      in fr\<lparr>fr_gas := (case fr_result fr of
           Ok_result \<Rightarrow>
             if \<not> is_deposit tx \<or> is_regolith then gas_record_refund R refunded (gas_erase_cost R remaining gas)
             else if is_deposit tx \<and> is_system_transaction (deposit tx) then gas_erase_cost R (tx_gas_limit tx) gas
             else gas
         | Revert_result \<Rightarrow>
             if \<not> is_deposit tx \<or> is_regolith then gas_erase_cost R remaining gas else gas
         | Halt_result \<Rightarrow> gas)\<rparr>)"

definition base_reimburse_caller :: "'w revm \<Rightarrow> block_env \<Rightarrow> BaseTransaction \<Rightarrow> FrameResult \<Rightarrow> ('w evm, unit) hrun" where
  "base_reimburse_caller R blk tx fr =
     h_bind (h_get (\<lambda>s. if \<not> is_deposit tx \<and> \<not> fee_charge_disabled blk
       then operator_fee_refund (l1_info s) (fr_gas fr) (cfg_spec blk) else 0)) (\<lambda>additional_refund.
     h_bind (load_account (tx_caller tx)) (\<lambda>_.
     h_modify (\<lambda>s. s\<lparr>jnl := mainnet_reimburse R tx blk (fr_gas fr) additional_refund (jnl s)\<rparr>)))"

text \<open>Every upgrade of the chain maps to an execution specification after London.\<close>

definition base_refund :: "'w revm \<Rightarrow> block_env \<Rightarrow> BaseTransaction \<Rightarrow> FrameResult \<Rightarrow> int \<Rightarrow> FrameResult" where
  "base_refund R blk tx fr eip7702_refund =
     (let gas = gas_record_refund R eip7702_refund (fr_gas fr);
          is_gas_refund_disabled = (is_deposit tx \<and> \<not> is_enabled_in (cfg_spec blk) Regolith)
      in fr\<lparr>fr_gas := if is_gas_refund_disabled then gas else gas_set_final_refund R True gas\<rparr>)"

definition h_balance_incr :: "'w revm \<Rightarrow> address \<Rightarrow> u256 \<Rightarrow> ('w evm, unit) hrun" where
  "h_balance_incr R a amt = h_bind (load_account a) (\<lambda>_. h_modify (\<lambda>s. s\<lparr>jnl := balance_incr R a amt (jnl s)\<rparr>))"

definition h_l1_cost :: "'w revm \<Rightarrow> block_env \<Rightarrow> bytes \<Rightarrow> ('w evm, u256) hrun" where
  "h_l1_cost R blk enveloped = (\<lambda>fs s. case calculate_tx_l1_cost (calldata_cost R) (l1_info s) enveloped (cfg_spec blk) of
       None \<Rightarrow> (Inl (Panicked ''index out of bounds''), fs, s)
     | Some (cost, info) \<Rightarrow> (Inr cost, fs, s\<lparr>l1_info := info\<rparr>))"

definition reward_beneficiary :: "'w revm \<Rightarrow> block_env \<Rightarrow> BaseTransaction \<Rightarrow> FrameResult \<Rightarrow> ('w evm, unit) hrun" where
  "reward_beneficiary R blk tx fr =
     (if is_deposit tx then h_return ()
      else h_bind (load_account (beneficiary blk)) (\<lambda>_.
        h_bind (h_modify (\<lambda>s. s\<lparr>jnl := mainnet_reward R tx blk (fr_gas fr) (jnl s)\<rparr>)) (\<lambda>_.
        case enveloped_tx tx of
          None \<Rightarrow> h_throw (CustomError ''[OPTIMISM] Failed to load enveloped transaction.'' None)
        | Some enveloped \<Rightarrow>
          let used = gas_used_of R (fr_gas fr) in
          h_bind (h_l1_cost R blk enveloped) (\<lambda>l1_cost.
          h_bind (h_get (\<lambda>s. if is_enabled_in (cfg_spec blk) Isthmus
            then operator_fee_charge (l1_info s) enveloped (ucast used) (cfg_spec blk) else 0)) (\<lambda>operator_fee_cost.
          let base_fee_amount = ucast (sat_mul (ucast (basefee blk) :: u128) (ucast used)) in
          h_bind (h_balance_incr R L1_FEE_VAULT l1_cost) (\<lambda>_.
          h_bind (h_balance_incr R BASE_FEE_VAULT base_fee_amount) (\<lambda>_.
          h_balance_incr R OPERATOR_FEE_VAULT operator_fee_cost)))))))"

primrec is_halt :: "ExecutionResult \<Rightarrow> bool" where
  "is_halt (ExecSuccess g out) = False"
| "is_halt (ExecRevert g out) = False"
| "is_halt (ExecHalt reason g) = True"

definition clear_l1_cost :: "'w evm \<Rightarrow> 'w evm" where
  "clear_l1_cost s = s\<lparr>l1_info := clear_tx_l1_cost (l1_info s)\<rparr>"

definition take_context_error :: "('w evm, unit) hrun" where
  "take_context_error = (\<lambda>fs s. (case ctx_error s of
       None \<Rightarrow> Inr ()
     | Some (DbContext e) \<Rightarrow> Inl (DatabaseError e)
     | Some (CustomContext e) \<Rightarrow> Inl (CustomError e None), fs, s\<lparr>ctx_error := None\<rparr>))"

definition base_execution_result :: "'w revm \<Rightarrow> block_env \<Rightarrow> BaseTransaction \<Rightarrow> FrameResult \<Rightarrow> ('w evm, ExecutionResult) hrun" where
  "base_execution_result R blk tx fr =
     h_bind take_context_error (\<lambda>_.
     let exec_result = exec_output R fr in
     if is_halt exec_result \<and> is_deposit tx \<and> is_enabled_in (cfg_spec blk) Regolith
     then h_throw (TransactionError HaltedDepositPostRegolith)
     else h_bind (h_modify (\<lambda>s. clear_l1_cost (commit_tx s))) (\<lambda>_. h_return exec_result))"

definition catch_error :: "'w revm \<Rightarrow> block_env \<Rightarrow> BaseTransaction \<Rightarrow> handler_error \<Rightarrow> ('w evm, ExecutionResult) hrun" where
  "catch_error R blk tx err =
     (if is_tx_error err \<and> is_deposit tx then
        h_bind (h_modify (\<lambda>s. s\<lparr>jnl := tx_start s\<rparr>)) (\<lambda>_.
        h_bind (load_account (tx_caller tx)) (\<lambda>_.
        h_bind (h_modify (bump_nonce_if R True (tx_caller tx))) (\<lambda>_.
        h_bind (h_modify (\<lambda>s. s\<lparr>jnl := balance_incr R (tx_caller tx) (ucast (or_default (mint (deposit tx)))) (jnl s)\<rparr>)) (\<lambda>_.
        h_bind (h_modify (\<lambda>s. clear_l1_cost (commit_tx s))) (\<lambda>_.
        h_return (ExecHalt FailedDeposit
          (if is_enabled_in (cfg_spec blk) Regolith \<or> \<not> is_system_transaction (deposit tx)
           then tx_gas_limit tx else 0)))))))
      else h_bind (h_modify clear_l1_cost) (\<lambda>_. h_throw err))"

section \<open>Steps\<close>

lemmas h_simps = h_bind_def h_return_def h_throw_def h_get_def h_modify_def

lemma h_bind_Inr:
  "h_bind m k fs s = (Inr y, fs', s') \<longleftrightarrow> (\<exists>x fs1 s1. m fs s = (Inr x, fs1, s1) \<and> k x fs1 s1 = (Inr y, fs', s'))"
  by (auto simp: h_bind_def split: prod.split sum.split)

lemma h_invalid_Inr [simp]: "h_invalid r fs s = (Inr y, fs', s') \<longleftrightarrow> r = None \<and> fs' = fs \<and> s' = s"
  by (auto simp: h_invalid_def h_return_def h_throw_def split: option.split)

lemma load_account_Inr: "load_account a fs s = (Inr y, fs', s') \<longleftrightarrow> next_access fs = (Done, fs') \<and> s' = s"
  by (auto simp: load_account_def split: prod.split access.split)

lemma load_account_Nil [simp]: "load_account a [] s = (Inr (), [], s)"
  by (simp add: load_account_def)

lemma h_return_Inr [simp]: "h_return x fs s = (Inr y, fs', s') \<longleftrightarrow> y = x \<and> fs' = fs \<and> s' = s"
  by (auto simp: h_return_def)

lemma h_throw_Inr [simp]: "h_throw e fs s \<noteq> (Inr y, fs', s')"
  by (simp add: h_throw_def)

lemma h_get_Inr [simp]: "h_get g fs s = (Inr y, fs', s') \<longleftrightarrow> y = g s \<and> fs' = fs \<and> s' = s"
  by (auto simp: h_get_def)

lemma h_modify_Inr [simp]: "h_modify u fs s = (Inr y, fs', s') \<longleftrightarrow> fs' = fs \<and> s' = u s"
  by (auto simp: h_modify_def)

lemma checked_sub_Some [simp]: "checked_sub a b = Some c \<longleftrightarrow> b \<le> a \<and> c = a - b"
  by (auto simp: checked_sub_def)

lemma h_tx_cost_Inr:
  "h_tx_cost R blk tx fs s = (Inr (Some cost), fs', s') \<longleftrightarrow> fs' = fs \<and> (\<exists>info.
     tx_cost_with_tx (calldata_cost R) (l1_info s) (enveloped_tx tx) (tx_gas_limit tx) (cfg_spec blk) = Some (Some (cost, info))
     \<and> s' = s\<lparr>l1_info := info\<rparr>)"
  by (auto simp: h_tx_cost_def split: option.splits)

lemma refresh_l1_info_Inr:
  assumes "refresh_l1_info R blk fs s = (Inr y, fs', s')"
  obtains info where "fs' = fs" "s' = s\<lparr>l1_info := info\<rparr>" "l2_block info = Some (block_number blk) \<or> try_fetch (l1_state R) (block_number blk) (cfg_spec blk) = Inr info"
proof (cases "l2_block (l1_info s) = Some (block_number blk)")
  case True
  show thesis by (rule that [of "l1_info s"]) (use assms True in \<open>auto simp: refresh_l1_info_def\<close>)
next
  case False
  then show thesis using assms that by (auto simp: refresh_l1_info_def split: sum.splits)
qed

text \<open>What a successful deduction charges: the additional cost and then the caller fee.\<close>

lemma base_deduct_charges:
  assumes "\<not> is_deposit tx" "\<not> fee_charge_disabled blk" "base_deduct_caller R blk tx fs s = (Inr (), fs', s')"
  obtains i cost info b where
    "tx_cost_with_tx (calldata_cost R) i (enveloped_tx tx) (tx_gas_limit tx) (cfg_spec blk) = Some (Some (cost, info))"
    "cost \<le> balance_of (jnl s) (tx_caller tx)"
    "calculate_caller_fee R (balance_of (jnl s) (tx_caller tx) - cost) tx blk = Inr b"
    "s' = bump_nonce_if R (is_call (tx_kind tx)) (tx_caller tx) (set_balance (tx_caller tx) b (s\<lparr>l1_info := info\<rparr>))"
proof -
  from assms obtain fs1 s1 where fetch: "refresh_l1_info R blk fs s = (Inr (), fs1, s1)"
    and rest: "h_bind (load_account (tx_caller tx)) (\<lambda>_.
        h_bind (h_get jnl) (\<lambda>j.
        h_bind (h_invalid (validate_nonce_and_code R tx j)) (\<lambda>_.
        h_bind (charge_additional_cost R blk tx (balance_of j (tx_caller tx))) (\<lambda>balance.
        case calculate_caller_fee R balance tx blk of
          Inl e \<Rightarrow> h_throw (TransactionError e)
        | Inr balance \<Rightarrow> h_modify (\<lambda>s.
            bump_nonce_if R (is_call (tx_kind tx)) (tx_caller tx) (set_balance (tx_caller tx) balance s)))))) fs1 s1 = (Inr (), fs', s')"
    by (auto simp: base_deduct_caller_def h_bind_Inr)
  from fetch obtain i where s1: "s1 = s\<lparr>l1_info := i\<rparr>" by (rule refresh_l1_info_Inr) blast
  from rest obtain balance fs2 fs3 s2 where charge: "charge_additional_cost R blk tx (balance_of (jnl s1) (tx_caller tx)) fs2 s1 = (Inr balance, fs3, s2)"
    and fee: "(case calculate_caller_fee R balance tx blk of Inl e \<Rightarrow> h_throw (TransactionError e)
        | Inr balance \<Rightarrow> h_modify (\<lambda>s. bump_nonce_if R (is_call (tx_kind tx)) (tx_caller tx) (set_balance (tx_caller tx) balance s)))
        fs3 s2 = (Inr (), fs', s')"
    by (auto simp: h_bind_Inr load_account_Inr)
  from charge assms(2) obtain cost info where
    cost: "tx_cost_with_tx (calldata_cost R) i (enveloped_tx tx) (tx_gas_limit tx) (cfg_spec blk) = Some (Some (cost, info))"
    "cost \<le> balance_of (jnl s) (tx_caller tx)" "balance = balance_of (jnl s) (tx_caller tx) - cost" "s2 = s\<lparr>l1_info := info\<rparr>"
    by (auto simp: charge_additional_cost_def h_bind_Inr h_tx_cost_Inr s1 split: option.splits)
  from fee obtain b where "calculate_caller_fee R balance tx blk = Inr b"
    "s' = bump_nonce_if R (is_call (tx_kind tx)) (tx_caller tx) (set_balance (tx_caller tx) b s2)"
    by (auto split: sum.splits)
  then show thesis using cost(3,4) by (intro that [OF cost(1,2)]) simp_all
qed

section \<open>Fees\<close>

definition credit :: "address \<Rightarrow> u256 \<Rightarrow> 'w journal \<Rightarrow> 'w journal" where
  "credit a x j = j\<lparr>balance_of := (balance_of j)(a := balance_of j a + x)\<rparr>"

definition wealth :: "address set \<Rightarrow> 'w journal \<Rightarrow> nat" where
  "wealth S j = (\<Sum>a\<in>S. unat (balance_of j a))"

text \<open>What revm documents of its fee steps, at the effective gas price \<open>price\<close> of the transaction: the caller is
  charged for the whole gas limit, gets the unused gas back with the additional refund, the beneficiary gets the
  priority fee on the gas used, and crediting an account that does not overflow adds to its balance.\<close>

definition incr_contract :: "'w revm \<Rightarrow> bool" where
  "incr_contract R \<longleftrightarrow> (\<forall>a x j. unat (balance_of j a) + unat x < 2 ^ 256 \<longrightarrow> balance_incr R a x j = credit a x j)"

definition fee_contract :: "'w revm \<Rightarrow> BaseTransaction \<Rightarrow> block_env \<Rightarrow> nat \<Rightarrow> bool" where
  "fee_contract R tx blk price \<longleftrightarrow>
     incr_contract R \<and> unat (basefee blk) \<le> price
   \<and> (\<forall>g. gas_ok g \<longrightarrow> unat (gas_used_of R g) = net_gas g)
   \<and> (\<forall>b b'. calculate_caller_fee R b tx blk = Inr b' \<longrightarrow> unat b' + price * unat (tx_gas_limit tx) = unat b)
   \<and> (\<forall>g add j. gas_ok g \<longrightarrow>
        unat (balance_of j (tx_caller tx)) + price * (unat (frame_limit g) - net_gas g) + unat add < 2 ^ 256 \<longrightarrow>
        mainnet_reimburse R tx blk g add j = credit (tx_caller tx) (word_of_nat (price * (unat (frame_limit g) - net_gas g) + unat add)) j)
   \<and> (\<forall>g j. gas_ok g \<longrightarrow>
        unat (balance_of j (beneficiary blk)) + (price - unat (basefee blk)) * net_gas g < 2 ^ 256 \<longrightarrow>
        mainnet_reward R tx blk g j = credit (beneficiary blk) (word_of_nat ((price - unat (basefee blk)) * net_gas g)) j)"

lemma wealth_split: "finite S \<Longrightarrow> a \<in> S \<Longrightarrow> wealth S j = unat (balance_of j a) + (\<Sum>b\<in>S - {a}. unat (balance_of j b))"
  by (simp add: wealth_def sum.remove)

lemma balance_le_wealth: "finite S \<Longrightarrow> a \<in> S \<Longrightarrow> unat (balance_of j a) \<le> wealth S j"
  by (simp add: wealth_split)

lemma wealth_credit:
  assumes "finite S" "a \<in> S" "wealth S j + unat x < 2 ^ 256"
  shows "wealth S (credit a x j) = wealth S j + unat x"
proof -
  have "unat (balance_of j a) + unat x < 2 ^ 256" using balance_le_wealth [OF assms(1,2), of j] assms(3) by linarith
  then have "unat (balance_of j a + x) = unat (balance_of j a) + unat x" by (simp add: unat_word_ariths)
  then show ?thesis using assms(1,2) by (simp add: wealth_split [OF assms(1,2)] credit_def)
qed

lemma unat_word_of_nat_u256: "n < 2 ^ 256 \<Longrightarrow> unat (word_of_nat n :: u256) = n"
  by (simp add: unsigned_of_nat take_bit_nat_eq_self)

lemma wealth_credit_nat:
  assumes "finite S" "a \<in> S" "wealth S j + n < 2 ^ 256"
  shows "wealth S (credit a (word_of_nat n) j) = wealth S j + n"
  using wealth_credit [OF assms(1,2), of j "word_of_nat n"] assms(3) by (simp add: unat_word_of_nat_u256)

lemma wealth_balance_incr:
  assumes "fee_contract R tx blk price" "finite S" "a \<in> S" "wealth S j + unat x < 2 ^ 256"
  shows "wealth S (balance_incr R a x j) = wealth S j + unat x"
proof -
  have "unat (balance_of j a) + unat x < 2 ^ 256" using balance_le_wealth [OF assms(2,3), of j] assms(4) by linarith
  then have "balance_incr R a x j = credit a x j" using assms(1) by (simp add: fee_contract_def incr_contract_def)
  then show ?thesis using assms(2-4) by (simp add: wealth_credit)
qed

lemma wealth_reimburse:
  assumes "fee_contract R tx blk price" "finite S" "tx_caller tx \<in> S" "gas_ok g"
    "wealth S j + (price * (unat (frame_limit g) - net_gas g) + unat add) < 2 ^ 256"
  shows "wealth S (mainnet_reimburse R tx blk g add j) = wealth S j + (price * (unat (frame_limit g) - net_gas g) + unat add)"
proof -
  let ?x = "price * (unat (frame_limit g) - net_gas g) + unat add"
  have "unat (balance_of j (tx_caller tx)) + ?x < 2 ^ 256" using balance_le_wealth [OF assms(2,3), of j] assms(5) by linarith
  then have "mainnet_reimburse R tx blk g add j = credit (tx_caller tx) (word_of_nat ?x) j"
    using assms(1,4) unfolding fee_contract_def add.assoc by blast
  then show ?thesis using wealth_credit_nat [OF assms(2,3,5)] by (simp only:)
qed

lemma wealth_reward:
  assumes "fee_contract R tx blk price" "finite S" "beneficiary blk \<in> S" "gas_ok g"
    "wealth S j + (price - unat (basefee blk)) * net_gas g < 2 ^ 256"
  shows "wealth S (mainnet_reward R tx blk g j) = wealth S j + (price - unat (basefee blk)) * net_gas g"
proof -
  let ?x = "(price - unat (basefee blk)) * net_gas g"
  have "unat (balance_of j (beneficiary blk)) + ?x < 2 ^ 256" using balance_le_wealth [OF assms(2,3), of j] assms(5) by linarith
  then have "mainnet_reward R tx blk g j = credit (beneficiary blk) (word_of_nat ?x) j"
    using assms(1,4) unfolding fee_contract_def by blast
  then show ?thesis using wealth_credit_nat [OF assms(2,3,5)] by (simp only:)
qed

lemma l1_cost_cached:
  assumes "calculate_tx_l1_cost cg i enveloped spec_id = Some (l1, info)" "\<not> no_fee_input enveloped"
  shows "calculate_tx_l1_cost cg info enveloped spec_id = Some (l1, info)"
proof (cases "tx_l1_cost i")
  case None
  then have "tx_l1_cost info = Some l1" using assms by (auto simp: calculate_tx_l1_cost_def split: if_splits)
  then show ?thesis by (simp add: calculate_tx_l1_cost_def)
qed (use assms(1) in \<open>simp add: calculate_tx_l1_cost_def\<close>)

lemma reward_run:
  assumes "\<not> is_deposit tx" "enveloped_tx tx = Some enveloped"
    "calculate_tx_l1_cost (calldata_cost R) (l1_info s) enveloped (cfg_spec blk) = Some (l1, l1_info s)"
  shows "\<exists>s'. reward_beneficiary R blk tx fr [] s = (Inr (), [], s') \<and> jnl s' =
    balance_incr R OPERATOR_FEE_VAULT (if is_enabled_in (cfg_spec blk) Isthmus
        then operator_fee_charge (l1_info s) enveloped (ucast (gas_used_of R (fr_gas fr))) (cfg_spec blk) else 0)
     (balance_incr R BASE_FEE_VAULT (ucast (sat_mul (ucast (basefee blk) :: u128) (ucast (gas_used_of R (fr_gas fr)))))
     (balance_incr R L1_FEE_VAULT l1 (mainnet_reward R tx blk (fr_gas fr) (jnl s))))"
  using assms by (simp add: reward_beneficiary_def h_simps h_l1_cost_def h_balance_incr_def Let_def)

lemma unat_base_fee:
  "unat (ucast (sat_mul (ucast (b :: u64) :: u128) (ucast (u :: u64))) :: u256) = unat b * unat u"
proof -
  have small: "unat (ucast b :: u128) = unat b" "unat (ucast u :: u128) = unat u"
    by (simp_all add: unsigned_ucast_eq take_bit_nat_eq_self unsigned_less [THEN less_trans])
  have "unat b * unat u < 2 ^ 64 * 2 ^ 64" using unsigned_less [of b] unsigned_less [of u] by (intro mult_strict_mono') simp_all
  then have "unat (sat_mul (ucast b :: u128) (ucast u)) = unat b * unat u" by (simp add: unat_sat_mul small)
  moreover have "unat (ucast (w :: u128) :: u256) = unat w" for w
    by (simp add: unsigned_ucast_eq take_bit_nat_eq_self unsigned_less [THEN less_trans])
  ultimately show ?thesis by simp
qed
definition operator_fee :: "block_env \<Rightarrow> L1BlockInfo \<Rightarrow> u64 \<Rightarrow> nat" where
  "operator_fee blk info g =
     (if is_enabled_in (cfg_spec blk) Isthmus then unat (operator_fee_charge_inner info (ucast g) (cfg_spec blk)) else 0)"

lemma jnl_deducted:
  "jnl (bump_nonce_if R c a (set_balance a b (s\<lparr>l1_info := info\<rparr>))) =
    (jnl s)\<lparr>balance_of := (balance_of (jnl s))(a := b),
      nonce_of := if c then (nonce_of (jnl s))(a := bump_nonce R (nonce_of (jnl s) a)) else nonce_of (jnl s)\<rparr>"
  "l1_info (bump_nonce_if R c a (set_balance a b (s\<lparr>l1_info := info\<rparr>))) = info"
  by (simp_all add: bump_nonce_if_def set_balance_def)

lemma wealth_deducted:
  assumes "finite S" "a \<in> S" "unat (balance_of (jnl s) a) = unat b + n"
  shows "wealth S (jnl s) = wealth S (jnl (bump_nonce_if R c a (set_balance a b (s\<lparr>l1_info := info\<rparr>)))) + n"
  using assms by (simp add: jnl_deducted wealth_split [OF assms(1,2)])

text \<open>The envelope is charged in advance for the data, the whole gas limit and the operator.\<close>

lemma deduct_wealth:
  assumes tx: "\<not> is_deposit tx" "\<not> fee_charge_disabled blk" "enveloped_tx tx = Some enveloped" "\<not> no_fee_input enveloped"
    and C: "fee_contract R tx blk price" and S: "finite S" "tx_caller tx \<in> S" "wealth S (jnl s) < 2 ^ 256 - 1"
    and run: "base_deduct_caller R blk tx fs s = (Inr (), fs', s')"
  obtains l1 where "calculate_tx_l1_cost (calldata_cost R) (l1_info s') enveloped (cfg_spec blk) = Some (l1, l1_info s')"
    "wealth S (jnl s) = wealth S (jnl s') + (unat l1 + operator_fee blk (l1_info s') (tx_gas_limit tx) + price * unat (tx_gas_limit tx))"
proof -
  let ?a = "tx_caller tx"
  from run obtain i cost info b where
    cost: "tx_cost_with_tx (calldata_cost R) i (enveloped_tx tx) (tx_gas_limit tx) (cfg_spec blk) = Some (Some (cost, info))"
    and le: "cost \<le> balance_of (jnl s) ?a" and fee: "calculate_caller_fee R (balance_of (jnl s) ?a - cost) tx blk = Inr b"
    and s': "s' = bump_nonce_if R (is_call (tx_kind tx)) ?a (set_balance ?a b (s\<lparr>l1_info := info\<rparr>))"
    by (rule base_deduct_charges [OF tx(1,2)])
  from cost tx(3) obtain l1 where l1: "calculate_tx_l1_cost (calldata_cost R) i enveloped (cfg_spec blk) = Some (l1, info)"
    and cost_eq: "cost = (if is_enabled_in (cfg_spec blk) Isthmus
      then sat_add l1 (operator_fee_charge info enveloped (ucast (tx_gas_limit tx)) (cfg_spec blk)) else l1)"
    by (auto simp: tx_cost_with_tx_def tx_cost_def)
  have "unat cost < 2 ^ 256 - 1" using le balance_le_wealth [OF S(1,2), of "jnl s"] S(3) unfolding word_le_nat_alt by linarith
  then have "unat cost = unat l1 + operator_fee blk info (tx_gas_limit tx)"
    using tx(4) by (simp add: cost_eq operator_fee_def operator_fee_charge_def unat_sat_add min_def split: if_splits)
  moreover have "unat b + price * unat (tx_gas_limit tx) = unat (balance_of (jnl s) ?a) - unat cost"
    using C fee le by (auto simp: fee_contract_def unat_sub word_le_nat_alt)
  ultimately have "unat (balance_of (jnl s) ?a) = unat b + (unat l1 + operator_fee blk info (tx_gas_limit tx) + price * unat (tx_gas_limit tx))"
    using le unfolding word_le_nat_alt by linarith
  from wealth_deducted [OF S(1,2) this] show thesis
    using l1_cost_cached [OF l1 tx(4)] by (intro that [of l1]) (simp_all add: s' jnl_deducted(2))
qed

text \<open>What is paid out after execution: unused gas, priority fee, data fee, base fee, operator fee.\<close>

lemma payout_total:
  assumes "gas_ok g" "bf \<le> (price :: nat)"
  shows "price * (unat (frame_limit g) - net_gas g) + (price - bf) * net_gas g + bf * net_gas g = price * unat (frame_limit g)"
proof -
  have "net_gas g \<le> unat (frame_limit g)" by (simp add: net_gas_def)
  moreover have "(price - bf) * net_gas g + bf * net_gas g = price * net_gas g"
    using assms(2) by (metis add_mult_distrib le_add_diff_inverse2)
  ultimately show ?thesis by (metis add.assoc add_mult_distrib2 le_add_diff_inverse2)
qed

lemma operator_fee_parts:
  assumes "gas_ok g" "unat used = net_gas g"
  shows "unat (operator_fee_refund info g (cfg_spec blk)) + operator_fee blk info used = operator_fee blk info (frame_limit g)"
  using operator_fee_split [OF _ assms, of "cfg_spec blk" info]
  by (cases "is_enabled_in (cfg_spec blk) Isthmus") (simp_all add: operator_fee_def operator_fee_refund_def)

lemma payout_wealth:
  assumes C: "fee_contract R tx blk price" and fin: "finite S" and gas: "gas_ok g"
    and S: "tx_caller tx \<in> S" "beneficiary blk \<in> S" "L1_FEE_VAULT \<in> S" "BASE_FEE_VAULT \<in> S" "OPERATOR_FEE_VAULT \<in> S"
    and bound: "wealth S j + (price * (unat (frame_limit g) - net_gas g) + unat add + (price - unat (basefee blk)) * net_gas g
      + unat l1 + unat bf + unat opf) < 2 ^ 256"
  shows "wealth S (balance_incr R OPERATOR_FEE_VAULT opf (balance_incr R BASE_FEE_VAULT bf (balance_incr R L1_FEE_VAULT l1
      (mainnet_reward R tx blk g (mainnet_reimburse R tx blk g add j)))))
    = wealth S j + (price * (unat (frame_limit g) - net_gas g) + unat add + (price - unat (basefee blk)) * net_gas g
      + unat l1 + unat bf + unat opf)"
proof -
  define n1 where "n1 = price * (unat (frame_limit g) - net_gas g) + unat add"
  define n2 where "n2 = (price - unat (basefee blk)) * net_gas g"
  define j1 where "j1 = mainnet_reimburse R tx blk g add j"
  define j2 where "j2 = mainnet_reward R tx blk g j1"
  define j3 where "j3 = balance_incr R L1_FEE_VAULT l1 j2"
  define j4 where "j4 = balance_incr R BASE_FEE_VAULT bf j3"
  have total: "wealth S j + (n1 + n2 + unat l1 + unat bf + unat opf) < 2 ^ 256" using bound by (simp add: n1_def n2_def)
  have w1: "wealth S j1 = wealth S j + n1"
    unfolding j1_def n1_def by (rule wealth_reimburse [OF C fin S(1) gas]) (use total n1_def in linarith)
  have w2: "wealth S j2 = wealth S j1 + n2"
    unfolding j2_def n2_def by (rule wealth_reward [OF C fin S(2) gas]) (use total n2_def w1 in linarith)
  have w3: "wealth S j3 = wealth S j2 + unat l1"
    unfolding j3_def by (rule wealth_balance_incr [OF C fin S(3)]) (use total w1 w2 in linarith)
  have w4: "wealth S j4 = wealth S j3 + unat bf"
    unfolding j4_def by (rule wealth_balance_incr [OF C fin S(4)]) (use total w1 w2 w3 in linarith)
  have "wealth S (balance_incr R OPERATOR_FEE_VAULT opf j4) = wealth S j4 + unat opf"
    by (rule wealth_balance_incr [OF C fin S(5)]) (use total w1 w2 w3 w4 in linarith)
  then show ?thesis using w1 w2 w3 w4 unfolding j4_def j3_def j2_def j1_def n1_def n2_def by linarith
qed

text \<open>C5: no fee is created or lost. What the deduction takes from the caller for a transaction is what the
  reimbursement and the rewards pay out after execution: over any finite set of accounts with the caller, the beneficiary
  and the three vaults, the wealth lost before execution is the wealth gained after it. Both steps succeed when the
  database answers.\<close>

theorem fees_conserved:
  assumes tx: "\<not> is_deposit tx" "\<not> fee_charge_disabled blk" "enveloped_tx tx = Some enveloped" "\<not> no_fee_input enveloped"
    and C: "fee_contract R tx blk price" and fin: "finite S"
    and S: "{tx_caller tx, beneficiary blk, L1_FEE_VAULT, BASE_FEE_VAULT, OPERATOR_FEE_VAULT} \<subseteq> S"
    and cap: "wealth S (jnl s) < 2 ^ 256 - 1"
    and deduct: "base_deduct_caller R blk tx fs s = (Inr (), fs', s1)"
    and exec: "l1_info s2 = l1_info s1" "wealth S (jnl s2) \<le> wealth S (jnl s1)"
    and gas: "gas_ok (fr_gas fr)" "frame_limit (fr_gas fr) = tx_gas_limit tx"
  shows "\<exists>s3 s4. base_reimburse_caller R blk tx fr [] s2 = (Inr (), [], s3)
    \<and> reward_beneficiary R blk tx fr [] s3 = (Inr (), [], s4)
    \<and> wealth S (jnl s1) + wealth S (jnl s4) = wealth S (jnl s) + wealth S (jnl s2)"
proof -
  let ?g = "fr_gas fr" and ?used = "gas_used_of R (fr_gas fr)"
  have in_S: "tx_caller tx \<in> S" "beneficiary blk \<in> S" "L1_FEE_VAULT \<in> S" "BASE_FEE_VAULT \<in> S" "OPERATOR_FEE_VAULT \<in> S"
    using S by auto
  from deduct obtain l1 where l1: "calculate_tx_l1_cost (calldata_cost R) (l1_info s1) enveloped (cfg_spec blk) = Some (l1, l1_info s1)"
    and paid: "wealth S (jnl s) = wealth S (jnl s1) +
      (unat l1 + operator_fee blk (l1_info s1) (tx_gas_limit tx) + price * unat (tx_gas_limit tx))"
    by (rule deduct_wealth [OF tx C fin in_S(1) cap])
  have used: "unat ?used = net_gas ?g" and base: "unat (basefee blk) \<le> price"
    using C gas(1) by (simp_all add: fee_contract_def)
  let ?ref = "operator_fee_refund (l1_info s1) ?g (cfg_spec blk)"
  let ?bf = "ucast (sat_mul (ucast (basefee blk) :: u128) (ucast ?used)) :: u256"
  let ?op = "if is_enabled_in (cfg_spec blk) Isthmus
    then operator_fee_charge (l1_info s1) enveloped (ucast ?used) (cfg_spec blk) else 0"
  let ?j1 = "mainnet_reimburse R tx blk ?g ?ref (jnl s2)"
  let ?j5 = "balance_incr R OPERATOR_FEE_VAULT ?op (balance_incr R BASE_FEE_VAULT ?bf (balance_incr R L1_FEE_VAULT l1
    (mainnet_reward R tx blk ?g ?j1)))"
  have "base_reimburse_caller R blk tx fr [] s2 = (Inr (), [], s2\<lparr>jnl := ?j1\<rparr>)"
    using tx by (simp add: base_reimburse_caller_def h_simps exec(1))
  moreover obtain s4 where "reward_beneficiary R blk tx fr [] (s2\<lparr>jnl := ?j1\<rparr>) = (Inr (), [], s4)" "jnl s4 = ?j5"
    using reward_run [OF tx(1,3), of R "s2\<lparr>jnl := ?j1\<rparr>" blk l1 fr] l1 by (auto simp: exec(1))
  moreover have op: "unat ?op = operator_fee blk (l1_info s1) ?used"
    using tx(4) by (simp add: operator_fee_def operator_fee_charge_def)
  have sum: "price * (unat (frame_limit ?g) - net_gas ?g) + unat ?ref + (price - unat (basefee blk)) * net_gas ?g
      + unat l1 + unat ?bf + unat ?op
      = unat l1 + operator_fee blk (l1_info s1) (tx_gas_limit tx) + price * unat (tx_gas_limit tx)"
    using payout_total [OF gas(1) base] operator_fee_parts [OF gas(1) used, of "l1_info s1" blk]
    unfolding op unat_base_fee used gas(2) by linarith
  have "wealth S ?j5 = wealth S (jnl s2) + (unat l1 + operator_fee blk (l1_info s1) (tx_gas_limit tx) + price * unat (tx_gas_limit tx))"
    unfolding sum [symmetric] by (rule payout_wealth [OF C fin gas(1) in_S]) (use sum paid cap exec(2) in linarith)
  then have "wealth S (jnl s1) + wealth S ?j5 = wealth S (jnl s) + wealth S (jnl s2)" using paid by linarith
  ultimately show ?thesis by (intro exI [of _ "s2\<lparr>jnl := ?j1\<rparr>"] exI [of _ s4]) simp
qed

text \<open>C36: a deposit cannot fail. When a deposit ends in a transaction error, everything it did is discarded; the
  journal is the one before the transaction with the mint credited and the nonce of the sender bumped, and the result is a
  halt that uses the gas limit (nothing, for a system transaction before Regolith). Every other error is returned as it is.\<close>

theorem failed_deposit_keeps_mint:
  assumes "incr_contract R" "unat (balance_of (tx_start s) (tx_caller tx)) + unat (or_default (mint (deposit tx))) < 2 ^ 256"
  shows "catch_error R blk tx err [] s = (if is_tx_error err \<and> is_deposit tx
    then let j = tx_start s; c = tx_caller tx;
             j' = j\<lparr>balance_of := (balance_of j)(c := balance_of j c + ucast (or_default (mint (deposit tx)))),
                    nonce_of := (nonce_of j)(c := bump_nonce R (nonce_of j c)),
                    sci := (sci j)\<lparr>keychain := (keychain (sci j))\<lparr>transaction_key := 0, tx_origin := 0\<rparr>\<rparr>\<rparr>
         in (Inr (ExecHalt FailedDeposit
               (if is_enabled_in (cfg_spec blk) Regolith \<or> \<not> is_system_transaction (deposit tx) then tx_gas_limit tx else 0)),
             [], s\<lparr>jnl := j', tx_start := j', l1_info := clear_tx_l1_cost (l1_info s)\<rparr>)
    else (Inl err, [], s\<lparr>l1_info := clear_tx_l1_cost (l1_info s)\<rparr>))"
proof -
  let ?j = "tx_start s" and ?c = "tx_caller tx" and ?m = "ucast (or_default (mint (deposit tx))) :: u256"
  have "unat ?m = unat (or_default (mint (deposit tx)))"
    by (simp add: unsigned_ucast_eq take_bit_nat_eq_self unsigned_less [THEN less_trans])
  then have "balance_incr R ?c ?m (?j\<lparr>nonce_of := n\<rparr>) = credit ?c ?m (?j\<lparr>nonce_of := n\<rparr>)" for n
    using assms unfolding incr_contract_def by simp
  then show ?thesis
    by (simp add: catch_error_def h_simps bump_nonce_if_def clear_l1_cost_def commit_tx_def credit_def Let_def)
qed

section \<open>A concrete instance\<close>

definition sample_blk :: block_env where
  "sample_blk = \<lparr>block_number = 1, basefee = 7, beneficiary = 3, blob_gasprice = None, block_time = 1000, cfg_spec = Jovian,
     fee_charge_disabled = False, balance_check_disabled = False\<rparr>"

definition sample_tx :: BaseTransaction where
  "sample_tx = \<lparr>base = \<lparr>env_type = 2, env_caller = 5, env_gas_limit = 100, env_gas_price = 10, env_kind = Call 6,
     env_value = 0, env_data = [], env_nonce = 0\<rparr>, enveloped_tx = Some [2], deposit = default_deposit_parts, aa = None\<rparr>"

text \<open>The fee steps at the price 10; frames answer success and change nothing.\<close>

definition sample_revm :: "unit revm" where
  "sample_revm = \<lparr>keccak = be_word, decoders = sample_abi, map_order = (\<lambda>xs. xs),
     l1_state = \<lparr>db_basic = Inr (), db_slot = \<lambda>_. Inr 0\<rparr>, calldata_cost = sample_cg,
     mainnet_validate_env = \<lambda>_ _. None, validate_nonce_and_code = \<lambda>_ _. None,
     calculate_caller_fee = \<lambda>b tx _. if 10 * ucast (tx_gas_limit tx) \<le> b
       then Inr (b - 10 * ucast (tx_gas_limit tx)) else Inl (LackOfFundForMaxFee 0 b),
     effective_balance_spending = \<lambda>tx _ _. Some (tx_value tx),
     max_balance_spending = \<lambda>tx. Some (10 * ucast (tx_gas_limit tx)),
     bump_nonce = \<lambda>n. n + 1,
     gas_new_spent = \<lambda>l. \<lparr>frame_limit = l, frame_remaining = 0, frame_refunded = 0\<rparr>,
     gas_erase_cost = \<lambda>r g. g\<lparr>frame_remaining := frame_remaining g + r\<rparr>,
     gas_record_refund = \<lambda>r g. g\<lparr>frame_refunded := frame_refunded g + r\<rparr>,
     gas_set_final_refund = \<lambda>_ g. g, gas_used_of = \<lambda>g. word_of_nat (net_gas g),
     journal_transfer = \<lambda>a b x j. if x \<le> balance_of j a \<and> unat (balance_of j b) + unat x < 2 ^ 256
       then (None, credit b x (j\<lparr>balance_of := (balance_of j)(a := balance_of j a - x)\<rparr>)) else (Some OutOfFunds, j),
     balance_incr = credit,
     mainnet_reimburse = \<lambda>tx _ g add j.
       credit (tx_caller tx) (word_of_nat (10 * (unat (frame_limit g) - net_gas g) + unat add)) j,
     mainnet_reward = \<lambda>_ blk g j. credit (beneficiary blk) (word_of_nat ((10 - unat (basefee blk)) * net_gas g)) j,
     delegate_of = \<lambda>_ _. None,
     first_frame_input = \<lambda>tx g. h_return \<lparr>fi_caller = tx_caller tx, fi_to = tx_kind tx, fi_code = None, fi_value = tx_value tx,
       fi_input = env_data (base tx), fi_gas = g\<rparr>,
     inspect_run_exec_loop = \<lambda>i. h_return \<lparr>fr_result = Ok_result,
       fr_gas = \<lparr>frame_limit = fi_gas i, frame_remaining = fi_gas i, frame_refunded = 0\<rparr>, fr_output = []\<rparr>,
     run_exec_loop = \<lambda>i. h_return \<lparr>fr_result = Ok_result,
       fr_gas = \<lparr>frame_limit = fi_gas i, frame_remaining = fi_gas i, frame_refunded = 0\<rparr>, fr_output = []\<rparr>,
     mainnet_execution = \<lambda>tx g. h_return \<lparr>fr_result = Ok_result,
       fr_gas = \<lparr>frame_limit = g, frame_remaining = g, frame_refunded = 0\<rparr>, fr_output = []\<rparr>,
     exec_output = \<lambda>fr. ExecSuccess (fr_gas fr) (fr_output fr)\<rparr>"

definition sample_info :: L1BlockInfo where
  "sample_info = default_l1_info\<lparr>l2_block := Some 1, operator_fee_constant := Some 5\<rparr>"

definition sample_evm :: "unit evm" where
  "sample_evm = (let j = \<lparr>balance_of = \<lambda>a. if a = 5 then 100000 else 0, nonce_of = \<lambda>_. 0,
       sci = sample_state, world = ()\<rparr>
     in \<lparr>jnl = j, tx_start = j, l1_info = sample_info, ctx_error = None\<rparr>)"

lemma net_gas_u64: "unat (word_of_nat (net_gas g) :: u64) = net_gas g"
proof -
  have "unat (frame_limit g) < 2 ^ 64" using unsigned_less [of "frame_limit g"] by simp
  then have "net_gas g < 2 ^ 64" by (simp add: net_gas_def)
  then show ?thesis by (simp add: unsigned_of_nat take_bit_nat_eq_self)
qed

lemma unat_ten_gas: "unat (10 * ucast (g :: u64) :: u256) = 10 * unat g"
proof -
  have "unat g < 2 ^ 64" using unsigned_less [of g] by simp
  then show ?thesis by (simp add: unat_word_ariths)
qed

lemma sample_fee_contract: "fee_contract sample_revm tx sample_blk 10"
  by (auto simp: fee_contract_def incr_contract_def sample_revm_def sample_blk_def net_gas_u64 unat_sub word_le_nat_alt
      unat_ten_gas split: if_splits)

lemma sample_tx_cost:
  assumes "i = sample_info \<or> i = sample_info\<lparr>tx_l1_cost := Some 0\<rparr>"
  shows "tx_cost_with_tx sample_cg i (Some [2]) g Jovian = Some (Some (5, sample_info\<lparr>tx_l1_cost := Some 0\<rparr>))"
  using assms
  by (auto simp: tx_cost_with_tx_def tx_cost_def sample_info_def calculate_tx_l1_cost_def no_fee_input_def is_enabled_in_def
      calculate_tx_l1_cost_fjord_def calculate_l1_fee_scaled_ecotone_def default_l1_info_def or_zero_def sat_mul_def sat_add_def
      operator_fee_charge_def operator_fee_charge_inner_def OPERATOR_FEE_JOVIAN_MULTIPLIER_def)

lemma sample_base_deduct_frames:
  assumes "\<not> is_deposit tx" "enveloped_tx tx = Some [2]" "tx_gas_limit tx = 100" "1005 \<le> balance_of (jnl s) (tx_caller tx)"
    "l1_info s = sample_info \<or> l1_info s = sample_info\<lparr>tx_l1_cost := Some 0\<rparr>"
  shows "base_deduct_caller (sample_revm\<lparr>run_exec_loop := f\<rparr>) sample_blk tx [] s = (Inr (), [],
    bump_nonce_if (sample_revm\<lparr>run_exec_loop := f\<rparr>) (is_call (tx_kind tx)) (tx_caller tx) (set_balance (tx_caller tx) (balance_of (jnl s) (tx_caller tx) - 1005)
      (s\<lparr>l1_info := sample_info\<lparr>tx_l1_cost := Some 0\<rparr>\<rparr>)))"
proof -
  let ?b = "balance_of (jnl s) (tx_caller tx)"
  have "5 \<le> ?b" "1000 \<le> ?b - 5" "?b - 5 - 1000 = ?b - 1005"
    using assms(4) by (simp_all add: word_le_nat_alt unat_sub)
  moreover have "l2_block (l1_info s) = Some 1" using assms(5) by (auto simp: sample_info_def)
  ultimately show ?thesis
    using assms(1-3) sample_tx_cost [OF assms(5), of 100]
    by (simp add: base_deduct_caller_def h_simps refresh_l1_info_def charge_additional_cost_def h_tx_cost_def
        sample_revm_def sample_blk_def h_invalid_def checked_sub_def)
qed

lemma sample_base_deduct:
  assumes "\<not> is_deposit tx" "enveloped_tx tx = Some [2]" "tx_gas_limit tx = 100" "1005 \<le> balance_of (jnl s) (tx_caller tx)"
    "l1_info s = sample_info \<or> l1_info s = sample_info\<lparr>tx_l1_cost := Some 0\<rparr>"
  shows "base_deduct_caller sample_revm sample_blk tx [] s = (Inr (), [],
    bump_nonce_if sample_revm (is_call (tx_kind tx)) (tx_caller tx) (set_balance (tx_caller tx) (balance_of (jnl s) (tx_caller tx) - 1005)
      (s\<lparr>l1_info := sample_info\<lparr>tx_l1_cost := Some 0\<rparr>\<rparr>)))"
  using sample_base_deduct_frames [OF assms, of "run_exec_loop sample_revm"] by simp

lemma sample_tx_simps:
  "\<not> is_deposit sample_tx" "enveloped_tx sample_tx = Some [2]" "tx_gas_limit sample_tx = 100" "tx_caller sample_tx = 5"
  "\<not> fee_charge_disabled sample_blk" "cfg_spec sample_blk = Jovian" "beneficiary sample_blk = 3" "block_time sample_blk = 1000"
  by (simp_all add: sample_tx_def sample_blk_def tx_type_def default_deposit_parts_def DEPOSIT_TRANSACTION_TYPE_def)

theorem fees_conserved_witness:
  "\<exists>s1 s3 s4. base_deduct_caller sample_revm sample_blk sample_tx [] sample_evm = (Inr (), [], s1)
    \<and> base_reimburse_caller sample_revm sample_blk sample_tx
        \<lparr>fr_result = Ok_result, fr_gas = \<lparr>frame_limit = 100, frame_remaining = 40, frame_refunded = 0\<rparr>, fr_output = []\<rparr> [] s1 = (Inr (), [], s3)
    \<and> reward_beneficiary sample_revm sample_blk sample_tx
        \<lparr>fr_result = Ok_result, fr_gas = \<lparr>frame_limit = 100, frame_remaining = 40, frame_refunded = 0\<rparr>, fr_output = []\<rparr> [] s3 = (Inr (), [], s4)
    \<and> wealth {5, 3, L1_FEE_VAULT, BASE_FEE_VAULT, OPERATOR_FEE_VAULT} (jnl s4) = 100000"
proof -
  let ?S = "{5, 3, L1_FEE_VAULT, BASE_FEE_VAULT, OPERATOR_FEE_VAULT}"
  let ?fr = "\<lparr>fr_result = Ok_result, fr_gas = \<lparr>frame_limit = 100, frame_remaining = 40, frame_refunded = 0\<rparr>, fr_output = []\<rparr>"
  have w: "wealth ?S (jnl sample_evm) = 100000"
    by (simp add: wealth_def sample_evm_def Let_def L1_FEE_VAULT_def BASE_FEE_VAULT_def OPERATOR_FEE_VAULT_def)
  obtain s1 where s1: "base_deduct_caller sample_revm sample_blk sample_tx [] sample_evm = (Inr (), [], s1)"
    using sample_base_deduct [of sample_tx sample_evm] by (simp add: sample_tx_simps) (simp add: sample_evm_def Let_def)
  have "\<exists>s3 s4. base_reimburse_caller sample_revm sample_blk sample_tx ?fr [] s1 = (Inr (), [], s3)
    \<and> reward_beneficiary sample_revm sample_blk sample_tx ?fr [] s3 = (Inr (), [], s4)
    \<and> wealth ?S (jnl s1) + wealth ?S (jnl s4) = wealth ?S (jnl sample_evm) + wealth ?S (jnl s1)"
    by (rule fees_conserved [OF _ _ _ _ sample_fee_contract _ _ _ s1, of "[2]"])
      (simp_all add: w sample_tx_simps no_fee_input_def gas_ok_def)
  then show ?thesis using s1 w by auto
qed

theorem failed_deposit_keeps_mint_witness:
  "\<exists>s'. catch_error sample_revm sample_blk
     (sample_tx\<lparr>enveloped_tx := None, deposit := \<lparr>source_hash = 1, mint = Some 50, is_system_transaction = False\<rparr>\<rparr>)
     (TransactionError HaltedDepositPostRegolith) [] sample_evm = (Inr (ExecHalt FailedDeposit 100), [], s')
   \<and> balance_of (jnl s') 5 = 100050 \<and> nonce_of (jnl s') 5 = 1"
  using failed_deposit_keeps_mint [of sample_revm sample_evm
      "sample_tx\<lparr>enveloped_tx := None, deposit := \<lparr>source_hash = 1, mint = Some 50, is_system_transaction = False\<rparr>\<rparr>"
      sample_blk "TransactionError HaltedDepositPostRegolith"] sample_fee_contract
  by (simp add: fee_contract_def is_tx_error_def tx_type_def or_default_def Let_def)
    (simp add: sample_tx_def sample_blk_def sample_evm_def Let_def is_enabled_in_def sample_revm_def)

end
