(* ===== verification/Sci_Handler.thy ===== *)
theory Sci_Handler
  imports Base_Handler
begin

text \<open>
  The handler that runs agent transactions (\<open>crates/common/evm/src/sci_handler.rs\<close>): sponsored gas around the inner
  deduction, the keychain hook, the atomic batch, the refund of unused gas to the fee payer and the deductions from the
  spending limits. It calls the inner handler of \<open>Base_Handler\<close> and the hook of \<open>Hook\<close>.
\<close>

section \<open>Batches\<close>

definition finalize_batch_gas :: "'w revm \<Rightarrow> FrameResult \<Rightarrow> u64 \<Rightarrow> u64 \<Rightarrow> int \<Rightarrow> FrameResult" where
  "finalize_batch_gas R fr limit left refund =
     (let gas = gas_erase_cost R left (gas_new_spent R limit)
      in fr\<lparr>fr_gas := if refund > 0 then gas_record_refund R refund gas else gas\<rparr>)"

text \<open>The depth-0 frame of one call. The code that runs is the target's, or its delegate's.\<close>

definition call_frame :: "'w revm \<Rightarrow> address \<Rightarrow> u64 \<Rightarrow> AaCall \<Rightarrow> ('w evm, FrameInit) hrun" where
  "call_frame R caller remaining_gas c = (case call_to c of
     Call tgt \<Rightarrow>
       h_bind (load_account tgt) (\<lambda>_.
       h_bind (h_get (\<lambda>s. delegate_of R (jnl s) tgt)) (\<lambda>eip.
       h_bind (case eip of Some delegated \<Rightarrow> h_bind (load_account delegated) (\<lambda>_. h_return delegated)
               | None \<Rightarrow> h_return tgt) (\<lambda>code.
       h_return \<lparr>fi_caller = caller, fi_to = Call tgt, fi_code = Some code, fi_value = call_value c,
         fi_input = call_input c, fi_gas = remaining_gas\<rparr>)))
   | Create \<Rightarrow> h_return \<lparr>fi_caller = caller, fi_to = Create, fi_code = None, fi_value = call_value c,
         fi_input = call_input c, fi_gas = remaining_gas\<rparr>)"

fun run_calls :: "'w revm \<Rightarrow> (FrameInit \<Rightarrow> ('w evm, FrameResult) hrun) \<Rightarrow> u64 \<Rightarrow> address \<Rightarrow> 'w journal \<Rightarrow> AaCall list \<Rightarrow>
    u64 \<Rightarrow> int \<Rightarrow> FrameResult option \<Rightarrow> ('w evm, FrameResult) hrun" where
  "run_calls R run_frame limit caller checkpoint [] remaining_gas acc_refund final_result =
     (case final_result of
        None \<Rightarrow> h_throw (Panicked ''non-empty batch yields a result'')
      | Some fr \<Rightarrow> h_return (finalize_batch_gas R fr limit remaining_gas acc_refund))"
| "run_calls R run_frame limit caller checkpoint (c # cs) remaining_gas acc_refund final_result =
     h_bind (call_frame R caller remaining_gas c) (\<lambda>frame_init.
     h_bind (run_frame frame_init) (\<lambda>frame_result.
     if fr_result frame_result \<noteq> Ok_result then
       h_bind (h_modify (\<lambda>s. s\<lparr>jnl := checkpoint\<rparr>)) (\<lambda>_.
       h_return (finalize_batch_gas R frame_result limit
         (if fr_result frame_result = Revert_result then frame_remaining (fr_gas frame_result) else 0) 0))
     else run_calls R run_frame limit caller checkpoint cs (frame_remaining (fr_gas frame_result))
       (sat_add_i64 acc_refund (frame_refunded (fr_gas frame_result))) (Some frame_result)))"

definition execute_aa_batch :: "'w revm \<Rightarrow> BaseTransaction \<Rightarrow> u64 \<Rightarrow> AaTransactionParts \<Rightarrow>
    (FrameInit \<Rightarrow> ('w evm, FrameResult) hrun) \<Rightarrow> ('w evm, FrameResult) hrun" where
  "execute_aa_batch R tx initial_gas parts run_frame =
     (let signer = tx_caller tx;
          caller = (case aa_root parts of Some root \<Rightarrow> root | None \<Rightarrow> signer)
      in h_bind (load_account caller) (\<lambda>_.
         h_bind (h_get jnl) (\<lambda>checkpoint.
         run_calls R run_frame (tx_gas_limit tx) caller checkpoint (aa_calls parts)
           (sat_sub (tx_gas_limit tx) initial_gas) 0 None)))"

definition batch_of :: "BaseTransaction \<Rightarrow> AaTransactionParts option" where
  "batch_of tx = (case aa tx of Some parts \<Rightarrow> if aa_calls parts \<noteq> [] then Some parts else None | None \<Rightarrow> None)"

definition execution :: "'w revm \<Rightarrow> BaseTransaction \<Rightarrow> u64 \<Rightarrow> ('w evm, FrameResult) hrun" where
  "execution R tx initial_gas = (case batch_of tx of
     Some parts \<Rightarrow> execute_aa_batch R tx initial_gas parts (run_exec_loop R)
   | None \<Rightarrow> mainnet_execution R tx initial_gas)"

definition inspect_execution :: "'w revm \<Rightarrow> block_env \<Rightarrow> BaseTransaction \<Rightarrow> u64 \<Rightarrow> ('w evm, FrameResult) hrun" where
  "inspect_execution R blk tx initial_gas = (case batch_of tx of
     Some parts \<Rightarrow> execute_aa_batch R tx initial_gas parts (inspect_run_exec_loop R)
   | None \<Rightarrow> h_bind (first_frame_input R tx (tx_gas_limit tx - initial_gas)) (\<lambda>frame_input.
       h_bind (inspect_run_exec_loop R frame_input) (\<lambda>frame_result.
       h_return (last_frame_result R blk tx frame_result))))"

section \<open>Deduction\<close>

definition root_of :: "BaseTransaction \<Rightarrow> address option" where
  "root_of tx = Option.bind (aa tx) aa_root"

definition raw_fee_payer :: "BaseTransaction \<Rightarrow> address option" where
  "raw_fee_payer tx = Option.bind (aa tx) aa_fee_payer"

definition fee_payer :: "BaseTransaction \<Rightarrow> address option" where
  "fee_payer tx = (case raw_fee_payer tx of
     Some fp \<Rightarrow> if fp \<noteq> tx_caller tx then Some fp else None | None \<Rightarrow> None)"

definition calls_of :: "BaseTransaction \<Rightarrow> AaCall list" where
  "calls_of tx = (case aa tx of Some parts \<Rightarrow> aa_calls parts | None \<Rightarrow> [])"

definition h_transfer :: "'w revm \<Rightarrow> address \<Rightarrow> address \<Rightarrow> u256 \<Rightarrow> ('w evm, TransferError option) hrun" where
  "h_transfer R src dst amt =
     h_bind (load_account src) (\<lambda>_. h_bind (load_account dst) (\<lambda>_.
     (\<lambda>fs s. case journal_transfer R src dst amt (jnl s) of (err, j) \<Rightarrow> (Inr err, fs, s\<lparr>jnl := j\<rparr>))))"

definition h_transfer_or :: "string \<Rightarrow> 'w revm \<Rightarrow> address \<Rightarrow> address \<Rightarrow> u256 \<Rightarrow> ('w evm, unit) hrun" where
  "h_transfer_or msg R src dst amt = h_bind (h_transfer R src dst amt) (\<lambda>err.
     case err of Some e \<Rightarrow> h_throw (CustomError msg None) | None \<Rightarrow> h_return ())"

definition load_balance :: "address \<Rightarrow> ('w evm, u256) hrun" where
  "load_balance a = h_bind (load_account a) (\<lambda>_. h_get (\<lambda>s. balance_of (jnl s) a))"

definition gas_prefund :: "'w revm \<Rightarrow> block_env \<Rightarrow> BaseTransaction \<Rightarrow> ('w evm, u256) hrun" where
  "gas_prefund R blk tx =
     h_bind (refresh_l1_info R blk) (\<lambda>_.
     case max_balance_spending R tx of
       None \<Rightarrow> h_throw (CustomError ''max gas overflow'' None)
     | Some max_gas \<Rightarrow> h_bind (h_tx_cost R blk tx) (\<lambda>cost.
         h_return (sat_add max_gas (case cost of Some additional_cost \<Rightarrow> additional_cost | None \<Rightarrow> 0))))"

definition reconcile_signer :: "'w revm \<Rightarrow> address \<Rightarrow> address \<Rightarrow> u256 \<Rightarrow> ('w evm, unit) hrun" where
  "reconcile_signer R signer fp signer_before =
     h_bind (load_balance signer) (\<lambda>signer_after.
     let (src, dst, amt) = (if signer_after \<ge> signer_before then (signer, fp, signer_after - signer_before)
                            else (fp, signer, signer_before - signer_after))
     in if amt \<noteq> 0 then h_transfer_or ''fee_payer gas reconcile failed'' R src dst amt else h_return ())"

definition sponsored_deduct :: "'w revm \<Rightarrow> block_env \<Rightarrow> BaseTransaction \<Rightarrow> address \<Rightarrow> ('w evm, unit) hrun" where
  "sponsored_deduct R blk tx fp =
     (let signer = tx_caller tx in
      h_bind (gas_prefund R blk tx) (\<lambda>prefund.
      h_bind (load_balance signer) (\<lambda>signer_before.
      h_bind (h_transfer_or ''fee_payer cannot cover gas'' R fp signer prefund) (\<lambda>_.
      h_bind (base_deduct_caller R blk tx) (\<lambda>_.
      reconcile_signer R signer fp signer_before)))))"

definition seed_tx_origin :: "'w revm \<Rightarrow> block_env \<Rightarrow> BaseTransaction \<Rightarrow> ('w evm, unit) hrun" where
  "seed_tx_origin R blk tx = on_sci (set_keychain_tx_origin (keccak R) (block_time blk) (tx_caller tx))"

definition gas_reservation :: "BaseTransaction \<Rightarrow> address \<Rightarrow> u256" where
  "gas_reservation tx root = (if raw_fee_payer tx = Some root
     then sat_mul (ucast (tx_gas_limit tx)) (ucast (max_fee_per_gas tx)) else 0)"

definition keychain_gate :: "'w revm \<Rightarrow> block_env \<Rightarrow> BaseTransaction \<Rightarrow> address \<Rightarrow> ('w evm, unit) hrun" where
  "keychain_gate R blk tx root =
     h_bind (on_sci (run_aa_keychain_hook (decoders R) (map_order R) (keccak R) (block_time blk) root (tx_caller tx)
       (calls_of tx) (gas_reservation tx root))) (\<lambda>outcome.
     case outcome of Pass \<Rightarrow> h_return () | Reject err \<Rightarrow> h_throw err)"

definition sci_deduct_caller :: "'w revm \<Rightarrow> block_env \<Rightarrow> BaseTransaction \<Rightarrow> ('w evm, unit) hrun" where
  "sci_deduct_caller R blk tx =
     (if raw_fee_payer tx \<noteq> None \<and> raw_fee_payer tx \<noteq> root_of tx
      then h_throw (TransactionError (InvalidStr ''AA fee_payer must equal root'' None))
      else h_bind (case fee_payer tx of Some fp \<Rightarrow> sponsored_deduct R blk tx fp | None \<Rightarrow> base_deduct_caller R blk tx) (\<lambda>_.
        if is_deposit tx then seed_tx_origin R blk tx
        else case root_of tx of
          Some root \<Rightarrow> keychain_gate R blk tx root
        | None \<Rightarrow> seed_tx_origin R blk tx))"

section \<open>After execution\<close>

definition sci_reimburse_caller :: "'w revm \<Rightarrow> block_env \<Rightarrow> BaseTransaction \<Rightarrow> FrameResult \<Rightarrow> ('w evm, unit) hrun" where
  "sci_reimburse_caller R blk tx fr = (case fee_payer tx of
     None \<Rightarrow> base_reimburse_caller R blk tx fr
   | Some fp \<Rightarrow>
       h_bind (load_balance (tx_caller tx)) (\<lambda>before.
       h_bind (base_reimburse_caller R blk tx fr) (\<lambda>_.
       h_bind (load_balance (tx_caller tx)) (\<lambda>after.
       let refund = sat_sub after before in
       if refund \<noteq> 0 then h_transfer_or ''fee_payer refund failed'' R (tx_caller tx) fp refund else h_return ()))))"

definition gas_deduction :: "'w revm \<Rightarrow> BaseTransaction \<Rightarrow> address \<Rightarrow> FrameResult \<Rightarrow> u256" where
  "gas_deduction R tx root fr = (if raw_fee_payer tx = Some root
     then sat_mul (ucast (gas_used_of R (fr_gas fr))) (ucast (max_fee_per_gas tx)) else 0)"

definition apply_deductions :: "'w revm \<Rightarrow> block_env \<Rightarrow> BaseTransaction \<Rightarrow> FrameResult \<Rightarrow> address \<Rightarrow> ('w evm, unit) hrun" where
  "apply_deductions R blk tx fr root =
     (let body_ok = (fr_result fr = Ok_result);
          gas = gas_deduction R tx root fr;
          calls = (if body_ok then calls_of tx else [])
      in if body_ok \<or> gas \<noteq> 0
         then on_sci (apply_aa_post_execution_deductions (decoders R) (keccak R) (block_time blk) root (tx_caller tx) calls gas)
         else h_return ())"

definition sci_execution_result :: "'w revm \<Rightarrow> block_env \<Rightarrow> BaseTransaction \<Rightarrow> FrameResult \<Rightarrow> ('w evm, ExecutionResult) hrun" where
  "sci_execution_result R blk tx fr =
     h_bind (case root_of tx of Some root \<Rightarrow> apply_deductions R blk tx fr root | None \<Rightarrow> h_return ()) (\<lambda>_.
     base_execution_result R blk tx fr)"

section \<open>Batches are atomic\<close>

text \<open>A run of calls in which every frame succeeds, each as the given caller and with the gas the one before left.\<close>

inductive batch_runs :: "'w revm \<Rightarrow> (FrameInit \<Rightarrow> ('w evm, FrameResult) hrun) \<Rightarrow> address \<Rightarrow> AaCall list \<Rightarrow> u64 \<Rightarrow> access list \<Rightarrow>
    'w evm \<Rightarrow> u64 \<Rightarrow> access list \<Rightarrow> 'w evm \<Rightarrow> bool"
  for R run_frame caller where
  batch_done: "batch_runs R run_frame caller [] g fs s g fs s"
| batch_call: "call_frame R caller g c fs s = (Inr frame_init, fs1, s1) \<Longrightarrow> run_frame frame_init fs1 s1 = (Inr fr, fs2, s2) \<Longrightarrow>
    fr_result fr = Ok_result \<Longrightarrow> batch_runs R run_frame caller cs (frame_remaining (fr_gas fr)) fs2 s2 g' fs' s' \<Longrightarrow>
    batch_runs R run_frame caller (c # cs) g fs s g' fs' s'"

text \<open>The operations of \<open>Gas\<close> as revm documents them.\<close>

definition gas_contract :: "'w revm \<Rightarrow> bool" where
  "gas_contract R \<longleftrightarrow>
     (\<forall>l. gas_new_spent R l = \<lparr>frame_limit = l, frame_remaining = 0, frame_refunded = 0\<rparr>)
   \<and> (\<forall>r g. gas_erase_cost R r g = g\<lparr>frame_remaining := frame_remaining g + r\<rparr>)
   \<and> (\<forall>r g. gas_record_refund R r g = g\<lparr>frame_refunded := frame_refunded g + r\<rparr>)"

lemma finalize_batch_gas_result [simp]: "fr_result (finalize_batch_gas R fr l r ref) = fr_result fr"
  by (simp add: finalize_batch_gas_def Let_def)

lemma finalize_batch_gas_gas:
  "gas_contract R \<Longrightarrow> fr_gas (finalize_batch_gas R fr l r ref) = \<lparr>frame_limit = l, frame_remaining = r, frame_refunded = max 0 ref\<rparr>"
  by (simp add: finalize_batch_gas_def gas_contract_def Let_def)

lemma run_calls_atomic:
  assumes "run_calls R run_frame limit caller checkpoint cs g acc final fs s = (Inr fr, fs', s')"
    "gas_contract R" "case final of None \<Rightarrow> True | Some f \<Rightarrow> fr_result f = Ok_result"
  shows "frame_limit (fr_gas fr) = limit \<and>
    (if fr_result fr = Ok_result then batch_runs R run_frame caller cs g fs s (frame_remaining (fr_gas fr)) fs' s'
     else jnl s' = checkpoint \<and> (fr_result fr = Halt_result \<longrightarrow> frame_remaining (fr_gas fr) = 0))"
  using assms
proof (induction cs arbitrary: g acc final fs s)
  case Nil
  then show ?case by (auto simp: finalize_batch_gas_gas batch_done split: option.splits)
next
  case (Cons c cs)
  from Cons.prems(1) obtain init fs1 s1 f fs2 s2 where frame: "call_frame R caller g c fs s = (Inr init, fs1, s1)"
    "run_frame init fs1 s1 = (Inr f, fs2, s2)"
    and rest: "(if fr_result f \<noteq> Ok_result then
       h_bind (h_modify (\<lambda>s. s\<lparr>jnl := checkpoint\<rparr>)) (\<lambda>_.
       h_return (finalize_batch_gas R f limit (if fr_result f = Revert_result then frame_remaining (fr_gas f) else 0) 0))
     else run_calls R run_frame limit caller checkpoint cs (frame_remaining (fr_gas f))
       (sat_add_i64 acc (frame_refunded (fr_gas f))) (Some f)) fs2 s2 = (Inr fr, fs', s')"
    by (auto simp: h_bind_Inr)
  show ?case
  proof (cases "fr_result f = Ok_result")
    case True
    with rest Cons.IH [OF _ Cons.prems(2)] have "frame_limit (fr_gas fr) = limit \<and>
      (if fr_result fr = Ok_result then batch_runs R run_frame caller cs (frame_remaining (fr_gas f)) fs2 s2 (frame_remaining (fr_gas fr)) fs' s'
       else jnl s' = checkpoint \<and> (fr_result fr = Halt_result \<longrightarrow> frame_remaining (fr_gas fr) = 0))" by simp
    then show ?thesis using batch_call [where run_frame = run_frame, OF frame True] by (simp split: if_splits)
  next
    case False
    then show ?thesis using rest Cons.prems(2) by (auto simp: h_bind_Inr finalize_batch_gas_gas)
  qed
qed

lemma batch_atomic:
  assumes "execute_aa_batch R tx initial_gas parts run_frame fs s = (Inr fr, fs', s')" "gas_contract R"
  shows "frame_limit (fr_gas fr) = tx_gas_limit tx \<and>
    (if fr_result fr = Ok_result
     then \<exists>fs1. batch_runs R run_frame (case aa_root parts of Some root \<Rightarrow> root | None \<Rightarrow> tx_caller tx) (aa_calls parts)
       (sat_sub (tx_gas_limit tx) initial_gas) fs1 s (frame_remaining (fr_gas fr)) fs' s'
     else jnl s' = jnl s \<and> (fr_result fr = Halt_result \<longrightarrow> frame_remaining (fr_gas fr) = 0))"
proof -
  let ?caller = "case aa_root parts of Some root \<Rightarrow> root | None \<Rightarrow> tx_caller tx"
  from assms(1) obtain fs1 where
    "run_calls R run_frame (tx_gas_limit tx) ?caller (jnl s) (aa_calls parts) (sat_sub (tx_gas_limit tx) initial_gas) 0 None fs1 s
      = (Inr fr, fs', s')"
    by (auto simp: execute_aa_batch_def Let_def h_bind_Inr load_account_Inr)
  from run_calls_atomic [OF this assms(2)] show ?thesis by (auto split: if_splits)
qed

text \<open>C4: a batch is all or nothing. If the result is a success, every call ran as its own successful frame, in order,
  as the root (the signer when there is no root), each with the gas the one before left, and the final gas is what the last
  frame left. Otherwise the journal is the one before the batch, and a halt leaves no gas. The result always reports the
  gas limit of the transaction.\<close>

theorem batch_all_or_nothing:
  assumes "execute_aa_batch R tx initial_gas parts run_frame fs s = (Inr fr, fs', s')" "gas_contract R"
  shows "frame_limit (fr_gas fr) = tx_gas_limit tx \<and>
    (if fr_result fr = Ok_result
     then \<exists>fs1. batch_runs R run_frame (case aa_root parts of Some root \<Rightarrow> root | None \<Rightarrow> tx_caller tx) (aa_calls parts)
       (sat_sub (tx_gas_limit tx) initial_gas) fs1 s (frame_remaining (fr_gas fr)) fs' s'
     else jnl s' = jnl s \<and> (fr_result fr = Halt_result \<longrightarrow> frame_remaining (fr_gas fr) = 0))"
  using assms by (rule batch_atomic)

section \<open>Sponsored gas\<close>

definition move :: "address \<Rightarrow> address \<Rightarrow> u256 \<Rightarrow> 'w journal \<Rightarrow> 'w journal" where
  "move a b x j = credit b x (j\<lparr>balance_of := (balance_of j)(a := balance_of j a - x)\<rparr>)"

text \<open>A transfer between two accounts succeeds exactly when the sender has the funds and the receiver does not overflow,
  and then moves the amount.\<close>

definition transfer_contract :: "'w revm \<Rightarrow> bool" where
  "transfer_contract R \<longleftrightarrow> (\<forall>a b x j j'. a \<noteq> b \<longrightarrow> (journal_transfer R a b x j = (None, j') \<longleftrightarrow>
     x \<le> balance_of j a \<and> unat (balance_of j b) + unat x < 2 ^ 256 \<and> j' = move a b x j))"

lemma move_balance:
  assumes "a \<noteq> b" "x \<le> balance_of j a" "unat (balance_of j b) + unat x < 2 ^ 256"
  shows "unat (balance_of (move a b x j) a) = unat (balance_of j a) - unat x"
    "unat (balance_of (move a b x j) b) = unat (balance_of j b) + unat x"
    "c \<noteq> a \<Longrightarrow> c \<noteq> b \<Longrightarrow> balance_of (move a b x j) c = balance_of j c"
  using assms by (simp_all add: move_def credit_def unat_sub word_le_nat_alt unat_word_ariths)

lemma move_keeps [simp]: "sci (move a b x j) = sci j" "nonce_of (move a b x j) = nonce_of j"
  by (simp_all add: move_def credit_def)

lemma h_transfer_or_Inr:
  assumes "h_transfer_or msg R a b x fs s = (Inr (), fs', s')" "transfer_contract R" "a \<noteq> b"
  shows "x \<le> balance_of (jnl s) a" "unat (balance_of (jnl s) b) + unat x < 2 ^ 256" "s' = s\<lparr>jnl := move a b x (jnl s)\<rparr>"
proof -
  from assms(1) have "journal_transfer R a b x (jnl s) = (None, jnl s')" "s' = s\<lparr>jnl := jnl s'\<rparr>"
    by (cases "journal_transfer R a b x (jnl s)";
        auto simp: h_transfer_or_def h_transfer_def h_bind_Inr load_account_Inr split: option.splits)+
  then show "x \<le> balance_of (jnl s) a" "unat (balance_of (jnl s) b) + unat x < 2 ^ 256" "s' = s\<lparr>jnl := move a b x (jnl s)\<rparr>"
    using assms(2,3) by (auto simp: transfer_contract_def)
qed

lemma h_transfer_or_run:
  assumes "transfer_contract R" "a \<noteq> b" "x \<le> balance_of (jnl s) a" "unat (balance_of (jnl s) b) + unat x < 2 ^ 256"
  shows "h_transfer_or msg R a b x [] s = (Inr (), [], s\<lparr>jnl := move a b x (jnl s)\<rparr>)"
proof -
  have "journal_transfer R a b x (jnl s) = (None, move a b x (jnl s))" using assms by (simp add: transfer_contract_def)
  then show ?thesis by (simp add: h_transfer_or_def h_transfer_def h_simps)
qed

lemma load_balance_Inr: "load_balance a fs s = (Inr b, fs', s') \<longleftrightarrow> next_access fs = (Done, fs') \<and> s' = s \<and> b = balance_of (jnl s) a"
  by (auto simp: load_balance_def h_bind_Inr load_account_Inr)

lemma load_balance_Nil [simp]: "load_balance a [] s = (Inr (balance_of (jnl s) a), [], s)"
  by (simp add: load_balance_def h_simps)

lemma gas_prefund_Inr:
  assumes "gas_prefund R blk tx fs s = (Inr p, fs', s')"
  obtains info where "s' = s\<lparr>l1_info := info\<rparr>"
proof -
  from assms obtain fs1 s1 where "refresh_l1_info R blk fs s = (Inr (), fs1, s1)"
    and rest: "(case max_balance_spending R tx of None \<Rightarrow> h_throw (CustomError ''max gas overflow'' None)
     | Some max_gas \<Rightarrow> h_bind (h_tx_cost R blk tx) (\<lambda>cost.
         h_return (sat_add max_gas (case cost of Some additional_cost \<Rightarrow> additional_cost | None \<Rightarrow> 0)))) fs1 s1 = (Inr p, fs', s')"
    by (auto simp: gas_prefund_def h_bind_Inr)
  then obtain i where s1: "s1 = s\<lparr>l1_info := i\<rparr>" by (blast elim: refresh_l1_info_Inr)
  from rest have "\<exists>info. s' = s1\<lparr>l1_info := info\<rparr>"
    by (auto simp: h_bind_Inr h_tx_cost_def split: option.splits intro: exI [of _ "l1_info s1"])
  then show thesis using that by (auto simp: s1)
qed

lemma reconcile_signer_balances:
  assumes T: "transfer_contract R" and ne: "fp \<noteq> a" and run: "reconcile_signer R a fp before fs s = (Inr (), fs', s')"
  shows "balance_of (jnl s') a = before \<and> unat (balance_of (jnl s') fp) + unat before = unat (balance_of (jnl s) fp) + unat (balance_of (jnl s) a)
    \<and> (\<forall>c. c \<noteq> fp \<longrightarrow> c \<noteq> a \<longrightarrow> balance_of (jnl s') c = balance_of (jnl s) c)
    \<and> sci (jnl s') = sci (jnl s) \<and> nonce_of (jnl s') = nonce_of (jnl s) \<and> l1_info s' = l1_info s"
proof -
  let ?b = "balance_of (jnl s) a"
  consider (same) "?b = before" "s' = s"
    | (excess) fs1 where "before < ?b" "h_transfer_or ''fee_payer gas reconcile failed'' R a fp (?b - before) fs1 s = (Inr (), fs', s')"
    | (cover) fs1 where "?b < before" "h_transfer_or ''fee_payer gas reconcile failed'' R fp a (before - ?b) fs1 s = (Inr (), fs', s')"
    using run by (cases "before = ?b"; cases "before < ?b") (auto simp: reconcile_signer_def Let_def h_bind_Inr load_balance_Inr split: if_splits)
  then show ?thesis
  proof cases
    case excess
    note m = h_transfer_or_Inr [OF excess(2) T ne [symmetric]]
    have "unat (?b - before) = unat ?b - unat before" "unat before < unat ?b"
      using excess(1) by (simp_all add: unat_sub word_less_nat_alt word_le_nat_alt)
    then show ?thesis using move_balance [OF ne [symmetric] m(1,2)] by (auto simp: m(3) intro: word_eq_unatI)
  next
    case cover
    note m = h_transfer_or_Inr [OF cover(2) T ne]
    have "unat (before - ?b) = unat before - unat ?b" "unat ?b < unat before"
      using cover(1) by (simp_all add: unat_sub word_less_nat_alt word_le_nat_alt)
    then show ?thesis using move_balance [OF ne m(1,2)] m(1) by (auto simp: m(3) word_le_nat_alt intro: word_eq_unatI)
  qed simp
qed

lemma fee_contract_charge:
  "fee_contract R tx blk price \<Longrightarrow> calculate_caller_fee R b tx blk = Inr b' \<Longrightarrow> unat b' + price * unat (tx_gas_limit tx) = unat b"
  by (simp add: fee_contract_def)

text \<open>The accounts of the signer and the sponsor over a sponsored deduction.\<close>

lemma sponsored_deduct_balances:
  assumes T: "transfer_contract R" and C: "fee_contract R tx blk price" and tx: "\<not> is_deposit tx" "\<not> fee_charge_disabled blk"
    and ne: "fp \<noteq> tx_caller tx" and run: "sponsored_deduct R blk tx fp fs s = (Inr (), fs', s')"
  obtains i cost where
    "tx_cost_with_tx (calldata_cost R) i (enveloped_tx tx) (tx_gas_limit tx) (cfg_spec blk) = Some (Some (cost, l1_info s'))"
    "balance_of (jnl s') (tx_caller tx) = balance_of (jnl s) (tx_caller tx)"
    "unat (balance_of (jnl s') fp) + (unat cost + price * unat (tx_gas_limit tx)) = unat (balance_of (jnl s) fp)"
    "\<forall>a. a \<noteq> fp \<longrightarrow> a \<noteq> tx_caller tx \<longrightarrow> balance_of (jnl s') a = balance_of (jnl s) a"
proof -
  let ?a = "tx_caller tx"
  from run obtain p fs1 s1 fs2 fs3 s3 fs4 s4 where pre: "gas_prefund R blk tx fs s = (Inr p, fs1, s1)"
    and t1: "h_transfer_or ''fee_payer cannot cover gas'' R fp ?a p fs2 s1 = (Inr (), fs3, s3)"
    and inner: "base_deduct_caller R blk tx fs3 s3 = (Inr (), fs4, s4)"
    and t2: "reconcile_signer R ?a fp (balance_of (jnl s1) ?a) fs4 s4 = (Inr (), fs', s')"
    by (auto simp: sponsored_deduct_def Let_def h_bind_Inr load_balance_Inr)
  from pre obtain i0 where s1: "s1 = s\<lparr>l1_info := i0\<rparr>" by (rule gas_prefund_Inr)
  note m1 = h_transfer_or_Inr [OF t1 T ne]
  from inner obtain i cost info b where
    cost: "tx_cost_with_tx (calldata_cost R) i (enveloped_tx tx) (tx_gas_limit tx) (cfg_spec blk) = Some (Some (cost, info))"
    and le: "cost \<le> balance_of (jnl s3) ?a" and fee: "calculate_caller_fee R (balance_of (jnl s3) ?a - cost) tx blk = Inr b"
    and s4: "s4 = bump_nonce_if R (is_call (tx_kind tx)) ?a (set_balance ?a b (s3\<lparr>l1_info := info\<rparr>))"
    by (rule base_deduct_charges [OF tx])
  have b3: "unat (balance_of (jnl s3) ?a) = unat (balance_of (jnl s) ?a) + unat p"
    "unat (balance_of (jnl s3) fp) + unat p = unat (balance_of (jnl s) fp)"
    "\<And>a. a \<noteq> fp \<Longrightarrow> a \<noteq> ?a \<Longrightarrow> balance_of (jnl s3) a = balance_of (jnl s) a"
    using m1 move_balance [OF ne m1(1,2)] by (simp_all add: s1 word_le_nat_alt)
  have "unat b + price * unat (tx_gas_limit tx) + unat cost = unat (balance_of (jnl s3) ?a)"
    using fee_contract_charge [OF C fee] le by (simp add: unat_sub word_le_nat_alt)
  moreover have "jnl s4 = (jnl s4)\<lparr>balance_of := (balance_of (jnl s3))(?a := b)\<rparr>" "l1_info s4 = info"
    by (simp_all add: s4 jnl_deducted)
  ultimately show thesis
    using reconcile_signer_balances [OF T ne t2] b3 cost ne
    by (intro that [of i cost]) (auto simp: s4 jnl_deducted s1)
qed

lemma on_sci_Inr:
  "on_sci m fs s = (Inr x, fs', s') \<longleftrightarrow> (\<exists>t. m fs (sci (jnl s)) = (Inr x, fs', t) \<and> s' = s\<lparr>jnl := (jnl s)\<lparr>sci := t\<rparr>\<rparr>)"
  by (auto simp: on_sci_def split: prod.splits)

lemma outcome_Inr:
  "(case outcome of Pass \<Rightarrow> h_return () | Reject err \<Rightarrow> h_throw err) fs s = (Inr (), fs', s') \<longleftrightarrow> outcome = Pass \<and> fs' = fs \<and> s' = s"
  by (cases outcome) auto

lemma sci_deduct_Inr:
  assumes "sci_deduct_caller R blk tx fs s = (Inr (), fs', s')"
  obtains fs1 s1 t where "raw_fee_payer tx = None \<or> raw_fee_payer tx = root_of tx"
    "(case fee_payer tx of Some fp \<Rightarrow> sponsored_deduct R blk tx fp | None \<Rightarrow> base_deduct_caller R blk tx) fs s = (Inr (), fs1, s1)"
    "s' = s1\<lparr>jnl := (jnl s1)\<lparr>sci := t\<rparr>\<rparr>"
    "\<not> is_deposit tx \<Longrightarrow> root_of tx = Some root \<Longrightarrow>
      run_aa_keychain_hook (decoders R) (map_order R) (keccak R) (block_time blk) root (tx_caller tx)
        (calls_of tx) (gas_reservation tx root) fs1 (sci (jnl s1)) = (Inr Pass, fs', t)"
proof -
  let ?inner = "case fee_payer tx of Some fp \<Rightarrow> sponsored_deduct R blk tx fp | None \<Rightarrow> base_deduct_caller R blk tx"
  from assms have ok: "raw_fee_payer tx = None \<or> raw_fee_payer tx = root_of tx"
    by (auto simp: sci_deduct_caller_def split: if_splits)
  with assms obtain fs1 s1 where inner: "?inner fs s = (Inr (), fs1, s1)"
    and gate: "(if is_deposit tx then seed_tx_origin R blk tx
        else case root_of tx of Some root \<Rightarrow> keychain_gate R blk tx root | None \<Rightarrow> seed_tx_origin R blk tx) fs1 s1 = (Inr (), fs', s')"
    by (auto simp: sci_deduct_caller_def h_bind_Inr)
  from gate obtain t where "s' = s1\<lparr>jnl := (jnl s1)\<lparr>sci := t\<rparr>\<rparr>"
    "\<not> is_deposit tx \<Longrightarrow> root_of tx = Some root \<Longrightarrow>
      run_aa_keychain_hook (decoders R) (map_order R) (keccak R) (block_time blk) root (tx_caller tx)
        (calls_of tx) (gas_reservation tx root) fs1 (sci (jnl s1)) = (Inr Pass, fs', t)"
    by (auto simp: seed_tx_origin_def keychain_gate_def h_bind_Inr on_sci_Inr outcome_Inr split: if_splits option.splits)
  with ok inner show thesis by (rule that)
qed

lemma tx_cost_cached:
  assumes "tx_cost_with_tx cg i enveloped g spec_id = Some (Some (cost, info))"
  shows "tx_cost_with_tx cg info enveloped g spec_id = Some (Some (cost, info))"
proof -
  have "calculate_tx_l1_cost cg info e spec_id = Some (l1, info)" if "calculate_tx_l1_cost cg i e spec_id = Some (l1, info)" for e l1
  proof (cases "no_fee_input e")
    case True
    with that show ?thesis by (auto simp: calculate_tx_l1_cost_def split: option.splits)
  qed (rule l1_cost_cached [OF that])
  with assms show ?thesis by (auto simp: tx_cost_with_tx_def tx_cost_def)
qed

lemma sponsored_refund:
  assumes T: "transfer_contract R" and C: "fee_contract R tx blk price" and tx: "\<not> is_deposit tx" "\<not> fee_charge_disabled blk"
    and fp: "fee_payer tx = Some fp" and gas: "gas_ok (fr_gas fr)"
    and U: "U = price * (unat (frame_limit (fr_gas fr)) - net_gas (fr_gas fr)) + unat (operator_fee_refund (l1_info s) (fr_gas fr) (cfg_spec blk))"
    and cap: "unat (balance_of (jnl s) (tx_caller tx)) + U < 2 ^ 256" "unat (balance_of (jnl s) fp) + U < 2 ^ 256"
  shows "\<exists>s'. sci_reimburse_caller R blk tx fr [] s = (Inr (), [], s')
    \<and> balance_of (jnl s') (tx_caller tx) = balance_of (jnl s) (tx_caller tx)
    \<and> unat (balance_of (jnl s') fp) = unat (balance_of (jnl s) fp) + U
    \<and> (\<forall>a. a \<noteq> fp \<longrightarrow> a \<noteq> tx_caller tx \<longrightarrow> balance_of (jnl s') a = balance_of (jnl s) a)"
proof -
  let ?a = "tx_caller tx" and ?u = "word_of_nat U :: u256"
  have ne: "?a \<noteq> fp" using fp by (auto simp: fee_payer_def split: option.splits if_splits)
  have u: "unat ?u = U" using cap(1) by (intro unat_word_of_nat_u256) linarith
  let ?s1 = "s\<lparr>jnl := credit ?a ?u (jnl s)\<rparr>"
  have pay: "mainnet_reimburse R tx blk (fr_gas fr) (operator_fee_refund (l1_info s) (fr_gas fr) (cfg_spec blk)) (jnl s) = credit ?a ?u (jnl s)"
    using C gas cap(1) unfolding fee_contract_def U add.assoc by blast
  have inner: "base_reimburse_caller R blk tx fr [] s = (Inr (), [], ?s1)"
    using tx by (simp add: base_reimburse_caller_def h_simps pay)
  have a1: "unat (balance_of (jnl ?s1) ?a) = unat (balance_of (jnl s) ?a) + U"
    using cap(1) u by (simp add: credit_def unat_word_ariths)
  have ref: "sat_sub (balance_of (jnl ?s1) ?a) (balance_of (jnl s) ?a) = ?u"
    using a1 u by (intro word_eq_unatI) (simp add: unat_sat_sub)
  show ?thesis
  proof (cases "U = 0")
    case True
    then show ?thesis
      using fp inner ref by (auto simp: sci_reimburse_caller_def h_simps Let_def credit_def)
  next
    case False
    then have nz: "?u \<noteq> 0" using u by auto
    have fpb: "balance_of (jnl ?s1) fp = balance_of (jnl s) fp" using ne by (simp add: credit_def)
    have le: "?u \<le> balance_of (jnl ?s1) ?a" using a1 u by (simp add: word_le_nat_alt)
    have room: "unat (balance_of (jnl ?s1) fp) + unat ?u < 2 ^ 256" using cap(2) u fpb by simp
    let ?s2 = "?s1\<lparr>jnl := move ?a fp ?u (jnl ?s1)\<rparr>"
    have "sci_reimburse_caller R blk tx fr [] s = (Inr (), [], ?s2)"
      using fp inner ref nz h_transfer_or_run [OF T ne le room]
      by (simp add: sci_reimburse_caller_def h_bind_def)
    moreover have "unat (balance_of (jnl ?s2) ?a) = unat (balance_of (jnl s) ?a)"
      "unat (balance_of (jnl ?s2) fp) = unat (balance_of (jnl s) fp) + U"
      using move_balance(1,2) [OF ne le room] a1 u fpb by (simp_all)
    moreover have "balance_of (jnl ?s2) a = balance_of (jnl s) a" if "a \<noteq> fp" "a \<noteq> ?a" for a
      using that by (simp add: move_def credit_def)
    ultimately show ?thesis by (intro exI [of _ ?s2]) (auto intro: word_eq_unatI)
  qed
qed

text \<open>C3: sponsored gas is paid by the root, to the wei. When a transaction that names a fee payer other than its signer
  passes validation, the fee payer is the root; the signer's balance is what it was; the root has paid exactly the data and
  operator cost and the caller fee of the whole gas limit; no other account is touched. After execution the reimbursement
  succeeds, leaves the signer as it is and gives the unused gas and the operator refund to the root.\<close>

theorem sponsored_gas_paid_by_root:
  assumes T: "transfer_contract R" and C: "fee_contract R tx blk price" and tx: "\<not> is_deposit tx" "\<not> fee_charge_disabled blk"
    and fp: "raw_fee_payer tx = Some fp" "fp \<noteq> tx_caller tx" and run: "sci_deduct_caller R blk tx fs s = (Inr (), fs', s1)"
    and gas: "gas_ok (fr_gas fr)"
    and U: "U = price * (unat (frame_limit (fr_gas fr)) - net_gas (fr_gas fr)) + unat (operator_fee_refund (l1_info s2) (fr_gas fr) (cfg_spec blk))"
    and cap: "unat (balance_of (jnl s2) (tx_caller tx)) + U < 2 ^ 256" "unat (balance_of (jnl s2) fp) + U < 2 ^ 256"
  shows "root_of tx = Some fp
    \<and> balance_of (jnl s1) (tx_caller tx) = balance_of (jnl s) (tx_caller tx)
    \<and> (\<exists>cost. tx_cost_with_tx (calldata_cost R) (l1_info s1) (enveloped_tx tx) (tx_gas_limit tx) (cfg_spec blk) = Some (Some (cost, l1_info s1))
        \<and> unat (balance_of (jnl s1) fp) + (unat cost + price * unat (tx_gas_limit tx)) = unat (balance_of (jnl s) fp))
    \<and> (\<forall>a. a \<noteq> fp \<longrightarrow> a \<noteq> tx_caller tx \<longrightarrow> balance_of (jnl s1) a = balance_of (jnl s) a)
    \<and> (\<exists>s3. sci_reimburse_caller R blk tx fr [] s2 = (Inr (), [], s3)
        \<and> balance_of (jnl s3) (tx_caller tx) = balance_of (jnl s2) (tx_caller tx)
        \<and> unat (balance_of (jnl s3) fp) = unat (balance_of (jnl s2) fp) + U
        \<and> (\<forall>a. a \<noteq> fp \<longrightarrow> a \<noteq> tx_caller tx \<longrightarrow> balance_of (jnl s3) a = balance_of (jnl s2) a))"
proof -
  have payer: "fee_payer tx = Some fp" using fp by (simp add: fee_payer_def)
  from run obtain fs0 s0 t where root: "raw_fee_payer tx = None \<or> raw_fee_payer tx = root_of tx"
    and ded: "sponsored_deduct R blk tx fp fs s = (Inr (), fs0, s0)" and s1: "s1 = s0\<lparr>jnl := (jnl s0)\<lparr>sci := t\<rparr>\<rparr>"
    by (rule sci_deduct_Inr) (use payer in auto)
  from ded obtain i cost where
    "tx_cost_with_tx (calldata_cost R) i (enveloped_tx tx) (tx_gas_limit tx) (cfg_spec blk) = Some (Some (cost, l1_info s0))"
    "balance_of (jnl s0) (tx_caller tx) = balance_of (jnl s) (tx_caller tx)"
    "unat (balance_of (jnl s0) fp) + (unat cost + price * unat (tx_gas_limit tx)) = unat (balance_of (jnl s) fp)"
    "\<forall>a. a \<noteq> fp \<longrightarrow> a \<noteq> tx_caller tx \<longrightarrow> balance_of (jnl s0) a = balance_of (jnl s) a"
    by (rule sponsored_deduct_balances [OF T C tx fp(2)])
  with root fp(1) sponsored_refund [OF T C tx payer gas U cap] show ?thesis
    by (auto simp: s1 dest: tx_cost_cached)
qed

section \<open>What the deduction leaves alone\<close>

lemma refresh_jnl: "refresh_l1_info R blk fs s = (r, fs', s') \<Longrightarrow> jnl s' = jnl s"
  by (auto simp: refresh_l1_info_def split: if_splits sum.splits)

lemma h_tx_cost_jnl: "h_tx_cost R blk tx fs s = (r, fs', s') \<Longrightarrow> jnl s' = jnl s"
  by (auto simp: h_tx_cost_def split: option.splits)

lemma charge_jnl: "charge_additional_cost R blk tx b fs s = (Inr c, fs', s') \<Longrightarrow> jnl s' = jnl s"
  by (auto simp: charge_additional_cost_def h_bind_Inr dest: h_tx_cost_jnl split: if_splits option.splits)

definition bumped :: "'w revm \<Rightarrow> BaseTransaction \<Rightarrow> (address \<Rightarrow> u64) \<Rightarrow> address \<Rightarrow> u64" where
  "bumped R tx n = (if is_call (tx_kind tx) then n(tx_caller tx := bump_nonce R (n (tx_caller tx))) else n)"

lemma base_deduct_keeps:
  assumes "base_deduct_caller R blk tx fs s = (Inr (), fs', s')" "\<not> is_deposit tx"
  shows "sci (jnl s') = sci (jnl s) \<and> nonce_of (jnl s') = bumped R tx (nonce_of (jnl s))"
proof -
  from assms obtain fs1 s1 fs2 fs3 b s2 where "refresh_l1_info R blk fs s = (Inr (), fs1, s1)"
    "charge_additional_cost R blk tx (balance_of (jnl s1) (tx_caller tx)) fs2 s1 = (Inr b, fs3, s2)"
    and fee: "(case calculate_caller_fee R b tx blk of Inl e \<Rightarrow> h_throw (TransactionError e)
        | Inr balance \<Rightarrow> h_modify (\<lambda>s. bump_nonce_if R (is_call (tx_kind tx)) (tx_caller tx) (set_balance (tx_caller tx) balance s)))
        fs3 s2 = (Inr (), fs', s')"
    by (auto simp: base_deduct_caller_def h_bind_Inr load_account_Inr)
  then have "jnl s2 = jnl s" by (simp add: refresh_jnl charge_jnl)
  with fee show ?thesis by (auto simp: bump_nonce_if_def set_balance_def bumped_def split: sum.splits)
qed

lemma sponsored_deduct_keeps:
  assumes "sponsored_deduct R blk tx fp fs s = (Inr (), fs', s')" "transfer_contract R" "fp \<noteq> tx_caller tx" "\<not> is_deposit tx"
  shows "sci (jnl s') = sci (jnl s) \<and> nonce_of (jnl s') = bumped R tx (nonce_of (jnl s))"
proof -
  let ?a = "tx_caller tx"
  from assms(1) obtain p fs1 s1 fs2 fs3 s3 fs4 s4 where pre: "gas_prefund R blk tx fs s = (Inr p, fs1, s1)"
    and t1: "h_transfer_or ''fee_payer cannot cover gas'' R fp ?a p fs2 s1 = (Inr (), fs3, s3)"
    and inner: "base_deduct_caller R blk tx fs3 s3 = (Inr (), fs4, s4)"
    and t2: "reconcile_signer R ?a fp (balance_of (jnl s1) ?a) fs4 s4 = (Inr (), fs', s')"
    by (auto simp: sponsored_deduct_def Let_def h_bind_Inr load_balance_Inr)
  from pre obtain i where "s1 = s\<lparr>l1_info := i\<rparr>" by (rule gas_prefund_Inr)
  then show ?thesis
    using h_transfer_or_Inr(3) [OF t1 assms(2,3)] base_deduct_keeps [OF inner assms(4)] reconcile_signer_balances [OF assms(2,3) t2] by simp
qed

lemma sci_deduct_passes:
  assumes "sci_deduct_caller R blk tx fs s = (Inr (), fs', s')" "transfer_contract R" "\<not> is_deposit tx"
  obtains fs1 t where "nonce_of (jnl s') = bumped R tx (nonce_of (jnl s))" "sci (jnl s') = t"
    "\<forall>root. root_of tx = Some root \<longrightarrow>
      run_aa_keychain_hook (decoders R) (map_order R) (keccak R) (block_time blk) root (tx_caller tx)
        (calls_of tx) (gas_reservation tx root) fs1 (sci (jnl s)) = (Inr Pass, fs', t)"
proof -
  from assms(1) obtain fs1 s1 t where
    ded: "(case fee_payer tx of Some fp \<Rightarrow> sponsored_deduct R blk tx fp | None \<Rightarrow> base_deduct_caller R blk tx) fs s = (Inr (), fs1, s1)"
    and s': "s' = s1\<lparr>jnl := (jnl s1)\<lparr>sci := t\<rparr>\<rparr>"
    and hook: "\<forall>root. root_of tx = Some root \<longrightarrow> run_aa_keychain_hook (decoders R) (map_order R) (keccak R) (block_time blk) root (tx_caller tx)
        (calls_of tx) (gas_reservation tx root) fs1 (sci (jnl s1)) = (Inr Pass, fs', t)"
    using assms(3) by (cases "root_of tx") (blast elim: sci_deduct_Inr | fastforce elim: sci_deduct_Inr)+
  have "sci (jnl s1) = sci (jnl s) \<and> nonce_of (jnl s1) = bumped R tx (nonce_of (jnl s))"
  proof (cases "fee_payer tx")
    case None
    then show ?thesis using ded base_deduct_keeps [OF _ assms(3)] by simp
  next
    case (Some fp)
    then have "fp \<noteq> tx_caller tx" by (auto simp: fee_payer_def split: option.splits if_splits)
    then show ?thesis using ded Some sponsored_deduct_keeps [OF _ assms(2) _ assms(3)] by simp
  qed
  with hook show thesis by (intro that [of t fs1]) (auto simp: s')
qed

section \<open>Agent transactions\<close>

lemma gas_deduction_reserved:
  assumes "gas_used_of R (fr_gas fr) \<le> tx_gas_limit tx"
  shows "gas_deduction R tx root fr \<le> gas_reservation tx root"
proof -
  have "(ucast (gas_used_of R (fr_gas fr)) :: u256) \<le> ucast (tx_gas_limit tx)"
    using assms by (simp add: word_le_nat_alt)
  then show ?thesis by (auto simp: gas_deduction_def gas_reservation_def intro: sat_mul_mono)
qed

lemma no_deductions: "apply_aa_post_execution_deductions abi K ts root k [] 0 [] s = (Inr (), [], s)"
  by (simp add: apply_aa_post_execution_deductions_def enter_keychain_storage_def on_keychain_def pc_zoom_run or_custom_def)

lemma base_execution_result_run:
  assumes "\<not> is_deposit tx" "ctx_error s = None"
  shows "base_execution_result R blk tx fr [] s = (Inr (exec_output R fr), [], clear_l1_cost (commit_tx s))"
  using assms by (cases s) (simp add: base_execution_result_def take_context_error_def h_simps Let_def)

text \<open>C2: an agent transaction that passed validation is always settled. Whatever the frames of its batch did to the
  keychain, the result step succeeds; and for a key with limits, every token has lost exactly what the transaction spends
  on it: its calls if the body succeeded, none of them otherwise, and in both cases the sponsored gas really used. So
  a batch that fails or runs out of gas still costs the key the gas its root paid.\<close>

theorem agent_transaction_settles:
  assumes reach: "kc_steps (keccak R) empty_keychain (keychain (sci (jnl s)))" and order: "order_ok (map_order R)"
    and T: "transfer_contract R" and tx: "\<not> is_deposit tx" "tx_caller tx \<noteq> 0" "root_of tx = Some root"
    and run: "sci_deduct_caller R blk tx fs s = (Inr (), fs', s1)"
    and batch: "(kc_frame_step (launch_host (keccak R) (block_time blk)))\<^sup>*\<^sup>* (keychain (sci (jnl s1))) (keychain (sci (jnl s2)))"
    and res: "gas_used_of R (fr_gas fr) \<le> tx_gas_limit tx" "ctx_error s2 = None"
  shows "\<exists>s3. sci_execution_result R blk tx fr [] s2 = (Inr (exec_output R fr), [], s3)
    \<and> (enforce_limits (keys (keychain (sci (jnl s))) root (tx_caller tx)) \<longrightarrow> (\<forall>tok.
         unat (remaining (roll_over (limit_of (launch_host (keccak R) (block_time blk)) root (tx_caller tx) tok (keychain (sci (jnl s3)))) (saturating_to_u64 (block_time blk))))
           + total_on tok (batch_spends (decoders R) root (if fr_result fr = Ok_result then calls_of tx else []) (gas_deduction R tx root fr))
         = unat (remaining (roll_over (limit_of (launch_host (keccak R) (block_time blk)) root (tx_caller tx) tok (keychain (sci (jnl s)))) (saturating_to_u64 (block_time blk))))))"
proof -
  let ?calls = "if fr_result fr = Ok_result then calls_of tx else []" and ?gas = "gas_deduction R tx root fr"
  let ?apply = "apply_aa_post_execution_deductions (decoders R) (keccak R) (block_time blk) root (tx_caller tx)"
  from run obtain fs1 t where t: "sci (jnl s1) = t" and
    pass: "run_aa_keychain_hook (decoders R) (map_order R) (keccak R) (block_time blk) root (tx_caller tx)
      (calls_of tx) (gas_reservation tx root) fs1 (sci (jnl s)) = (Inr Pass, fs', t)"
    by (rule sci_deduct_passes [OF _ T tx(1)]) (use tx(3) in auto)
  have outcome: "?calls = calls_of tx \<or> ?calls = []" by simp
  obtain t3 where t3: "?apply ?calls ?gas [] (sci (jnl s2)) = (Inr (), [], t3)"
    and spent: "enforce_limits (keys (keychain (sci (jnl s))) root (tx_caller tx)) \<longrightarrow> (\<forall>tok.
         unat (remaining (roll_over (limit_of (launch_host (keccak R) (block_time blk)) root (tx_caller tx) tok (keychain t3)) (saturating_to_u64 (block_time blk))))
           + total_on tok (batch_spends (decoders R) root ?calls ?gas)
         = unat (remaining (roll_over (limit_of (launch_host (keccak R) (block_time blk)) root (tx_caller tx) tok (keychain (sci (jnl s)))) (saturating_to_u64 (block_time blk)))))"
    using deductions_settle [OF reach order tx(2) pass batch [unfolded t] outcome gas_deduction_reserved [OF res(1)]] by blast
  let ?s = "s2\<lparr>jnl := (jnl s2)\<lparr>sci := t3\<rparr>\<rparr>"
  have "apply_deductions R blk tx fr root [] s2 = (Inr (), [], ?s)"
    using t3 no_deductions [of "decoders R" "keccak R" "block_time blk" root "tx_caller tx" "sci (jnl s2)"]
    by (auto simp: apply_deductions_def Let_def on_sci_def h_return_def split: if_splits)
  then have "sci_execution_result R blk tx fr [] s2 = (Inr (exec_output R fr), [], clear_l1_cost (commit_tx ?s))"
    using base_execution_result_run [OF tx(1), of ?s] res(2) tx(3) by (simp add: sci_execution_result_def h_bind_def)
  moreover have "limit_of h root k tok (keychain (sci (jnl (clear_l1_cost (commit_tx ?s))))) = limit_of h root k tok (keychain t3)" for h k tok
    by (simp add: clear_l1_cost_def commit_tx_def Let_def)
  ultimately show ?thesis using spent by auto
qed

text \<open>What the conversion of an EIP-1559 transaction to an environment documents.\<close>

definition conv_ok :: "('l, 'a, 'b) env_conv \<Rightarrow> bool" where
  "conv_ok C \<longleftrightarrow> (\<forall>t a. env_type (from_eip1559 C t a) = 2 \<and> env_caller (from_eip1559 C t a) = a
     \<and> env_kind (from_eip1559 C t a) = te_to t)"

text \<open>C39: the nonce of a failed batch. A plain batch (no root) whose execution fails has its journal reverted to the one
  after the deduction, so the signer's nonce has advanced only if the first call is not a contract creation: when it is
  one, the fee is charged and the nonce is what it was before the transaction.\<close>

theorem failed_batch_nonce:
  assumes conv: "conv_ok C" and tx: "tx = from_encoded_tx C (Aa t) signer encoded" "at_calls t = c # cs" "at_root t = None"
    and R: "gas_contract R" "transfer_contract R"
    and deduct: "sci_deduct_caller R blk tx fs s = (Inr (), fs1, s1)"
    and exec: "execution R tx initial_gas fs1 s1 = (Inr fr, fs2, s2)" "fr_result fr \<noteq> Ok_result"
  shows "jnl s2 = jnl s1 \<and> nonce_of (jnl s2) signer =
    (if call_to c = Create then nonce_of (jnl s) signer else bump_nonce R (nonce_of (jnl s) signer))"
proof -
  have parts: "aa tx = Some \<lparr>aa_calls = c # cs, aa_root = None, aa_fee_payer = at_fee_payer t\<rparr>"
    "tx_caller tx = signer" "tx_kind tx = call_to c" "\<not> is_deposit tx"
    using conv tx by (simp_all add: from_encoded_tx_def conv_ok_def to_eip1559_first_call_def tx_type_def default_deposit_parts_def
        DEPOSIT_TRANSACTION_TYPE_def)
  from deduct have "nonce_of (jnl s1) = bumped R tx (nonce_of (jnl s))"
    by (rule sci_deduct_passes [OF _ R(2) parts(4)])
  moreover have "jnl s2 = jnl s1"
    using exec parts(1) batch_atomic [OF _ R(1)] by (fastforce simp: execution_def batch_of_def)
  ultimately show ?thesis using parts(2,3) by (cases "call_to c") (auto simp: bumped_def)
qed

section \<open>Concrete instances\<close>

lemma sample_contracts: "gas_contract sample_revm" "transfer_contract sample_revm" "order_ok (map_order sample_revm)"
  by (auto simp: gas_contract_def sample_revm_def transfer_contract_def move_def order_ok_def split: if_splits)

lemma sample_revm_simps:
  "decoders sample_revm = sample_abi" "map_order sample_revm = (\<lambda>xs. xs)" "keccak sample_revm = be_word"
  "calldata_cost sample_revm = sample_cg" "delegate_of sample_revm j a = None" "bump_nonce sample_revm n = n + 1"
  "exec_output sample_revm fr = ExecSuccess (fr_gas fr) (fr_output fr)" "gas_used_of sample_revm g = word_of_nat (net_gas g)"
  "max_balance_spending sample_revm tx = Some (10 * ucast (tx_gas_limit tx))"
  by (simp_all add: sample_revm_def)

text \<open>A frame runner whose frames write the nonces; the frame to account 8 reverts.\<close>

definition sample_frames :: "FrameInit \<Rightarrow> (unit evm, FrameResult) hrun" where
  "sample_frames i = (\<lambda>fs s. (Inr \<lparr>fr_result = (if fi_to i = Call 8 then Revert_result else Ok_result),
     fr_gas = \<lparr>frame_limit = fi_gas i, frame_remaining = fi_gas i - 10, frame_refunded = 0\<rparr>, fr_output = []\<rparr>, fs,
     s\<lparr>jnl := (jnl s)\<lparr>nonce_of := \<lambda>_. 7\<rparr>\<rparr>))"

definition plain_call :: "address \<Rightarrow> AaCall" where
  "plain_call a = \<lparr>call_to = Call a, call_value = 0, call_input = []\<rparr>"

theorem batch_all_or_nothing_witness:
  "\<exists>fr s'. execute_aa_batch sample_revm sample_tx 20 \<lparr>aa_calls = [plain_call 9, plain_call 8], aa_root = Some 1, aa_fee_payer = None\<rparr>
      sample_frames [] sample_evm = (Inr fr, [], s')
    \<and> fr_result fr = Revert_result \<and> frame_remaining (fr_gas fr) = 60 \<and> jnl s' = jnl sample_evm"
proof -
  let ?parts = "\<lparr>aa_calls = [plain_call 9, plain_call 8], aa_root = Some 1, aa_fee_payer = None\<rparr>"
  have "\<exists>fr s'. execute_aa_batch sample_revm sample_tx 20 ?parts sample_frames [] sample_evm = (Inr fr, [], s')
      \<and> fr_result fr = Revert_result \<and> frame_remaining (fr_gas fr) = 60"
    by (simp add: execute_aa_batch_def sample_tx_simps Let_def h_simps call_frame_def plain_call_def sample_frames_def
        sat_sub_def sat_add_i64_def sample_revm_simps finalize_batch_gas_gas [OF sample_contracts(1)])
  then obtain fr s' where run: "execute_aa_batch sample_revm sample_tx 20 ?parts sample_frames [] sample_evm = (Inr fr, [], s')"
    "fr_result fr = Revert_result" "frame_remaining (fr_gas fr) = 60" by blast
  with batch_all_or_nothing [OF run(1) sample_contracts(1)] show ?thesis by auto
qed

text \<open>Account 2 is a session key of account 1, without limits and with no sponsored transfer left out.\<close>

definition open_state :: sci_state where
  "open_state = sample_state\<lparr>keychain := empty_keychain\<lparr>keys := (\<lambda>_ _. default_key)(1 := (\<lambda>_. default_key)(2 :=
     \<lparr>signature_type = 0, expiry = 5000, enforce_limits = False, is_revoked = False\<rparr>))\<rparr>\<rparr>"

definition agent_tx :: "AaCall list \<Rightarrow> address option \<Rightarrow> BaseTransaction" where
  "agent_tx calls fp = sample_tx\<lparr>base := (base sample_tx)\<lparr>env_caller := 2\<rparr>,
     aa := Some \<lparr>aa_calls = calls, aa_root = Some 1, aa_fee_payer = fp\<rparr>\<rparr>"

definition agent_evm :: "sci_state \<Rightarrow> (address \<Rightarrow> u256) \<Rightarrow> unit evm" where
  "agent_evm t b = sample_evm\<lparr>jnl := (jnl sample_evm)\<lparr>sci := t, balance_of := b\<rparr>\<rparr>"

lemma agent_simps [simp]:
  "tx_caller (agent_tx calls fp) = 2" "root_of (agent_tx calls fp) = Some 1" "raw_fee_payer (agent_tx calls fp) = fp"
  "calls_of (agent_tx calls fp) = calls" "\<not> is_deposit (agent_tx calls fp)" "tx_gas_limit (agent_tx calls fp) = 100"
  "enveloped_tx (agent_tx calls fp) = Some [2]" "max_fee_per_gas (agent_tx calls fp) = 10" "is_call (tx_kind (agent_tx calls fp))"
  "balance_of (jnl (agent_evm t b)) = b" "sci (jnl (agent_evm t b)) = t" "ctx_error (agent_evm t b) = None"
  "l1_info (agent_evm t b) = sample_info"
  by (simp_all add: agent_tx_def sample_tx_def tx_type_def default_deposit_parts_def DEPOSIT_TRANSACTION_TYPE_def root_of_def
      raw_fee_payer_def calls_of_def agent_evm_def sample_evm_def Let_def)

lemma sci_deduct_run:
  assumes "raw_fee_payer tx = None \<or> raw_fee_payer tx = Some root" "root_of tx = Some root" "\<not> is_deposit tx"
    "(case fee_payer tx of Some fp \<Rightarrow> sponsored_deduct R blk tx fp | None \<Rightarrow> base_deduct_caller R blk tx) fs s = (Inr (), fs1, s1)"
    "run_aa_keychain_hook (decoders R) (map_order R) (keccak R) (block_time blk) root (tx_caller tx)
        (calls_of tx) (gas_reservation tx root) fs1 (sci (jnl s1)) = (Inr Pass, fs2, t)"
  shows "sci_deduct_caller R blk tx fs s = (Inr (), fs2, s1\<lparr>jnl := (jnl s1)\<lparr>sci := t\<rparr>\<rparr>)"
proof -
  have "keychain_gate R blk tx root fs1 s1 = (Inr (), fs2, s1\<lparr>jnl := (jnl s1)\<lparr>sci := t\<rparr>\<rparr>)"
    by (simp only: keychain_gate_def h_bind_def on_sci_def assms(5)) (simp add: h_return_def)
  then show ?thesis using assms(1-3) by (auto simp: sci_deduct_caller_def h_bind_def assms(4))
qed

lemma sample_agent_deduct:
  assumes hook: "run_aa_keychain_hook sample_abi (\<lambda>xs. xs) be_word 1000 1 2 calls 0 [] t = (Inr Pass, [], t')" and b: "1005 \<le> b 2"
  shows "\<exists>s1. sci_deduct_caller sample_revm sample_blk (agent_tx calls None) [] (agent_evm t b) = (Inr (), [], s1)
    \<and> sci (jnl s1) = t' \<and> ctx_error s1 = None"
proof -
  let ?tx = "agent_tx calls None"
  let ?s = "bump_nonce_if sample_revm True 2 (set_balance 2 (b 2 - 1005) ((agent_evm t b)\<lparr>l1_info := sample_info\<lparr>tx_l1_cost := Some 0\<rparr>\<rparr>))"
  have inner: "base_deduct_caller sample_revm sample_blk ?tx [] (agent_evm t b) = (Inr (), [], ?s)"
    using sample_base_deduct [of ?tx "agent_evm t b"] b by (simp only: agent_simps simp_thms)
  have "sci (jnl ?s) = t" "ctx_error ?s = None" by (simp_all add: bump_nonce_if_def set_balance_def)
  then show ?thesis
    using sci_deduct_run [of ?tx 1 sample_revm sample_blk "[]" "agent_evm t b" "[]" ?s "[]" t'] inner hook
    by (simp add: fee_payer_def gas_reservation_def sample_revm_simps sample_tx_simps)
qed

theorem agent_transaction_settles_witness:
  "\<exists>t s1 s3. sci_deduct_caller sample_revm sample_blk (agent_tx [transfer_call 40] None) [] (agent_evm t (\<lambda>_. 2000)) = (Inr (), [], s1)
    \<and> sci_execution_result sample_revm sample_blk (agent_tx [transfer_call 40] None)
        \<lparr>fr_result = Ok_result, fr_gas = \<lparr>frame_limit = 100, frame_remaining = 40, frame_refunded = 0\<rparr>, fr_output = []\<rparr> [] s1
        = (Inr (ExecSuccess \<lparr>frame_limit = 100, frame_remaining = 40, frame_refunded = 0\<rparr> []), [], s3)
    \<and> remaining (roll_over (limit_of (launch_host be_word 1000) 1 2 9 (keychain (sci (jnl s3)))) 1000) = 60"
proof -
  let ?tx = "agent_tx [transfer_call 40] None" and ?h = "launch_host be_word 1000"
  let ?fr = "\<lparr>fr_result = Ok_result, fr_gas = \<lparr>frame_limit = 100, frame_remaining = 40, frame_refunded = 0\<rparr>, fr_output = []\<rparr>"
  obtain t where t: "kc_steps be_word empty_keychain (keychain t)" "enforce_limits (keys (keychain t) 1 2)"
    "unat (remaining (roll_over (limit_of ?h 1 2 9 (keychain t)) 1000)) = 100"
    "run_aa_keychain_hook sample_abi (\<lambda>xs. xs) be_word 1000 1 2 [transfer_call 40] 0 [] t = (Inr Pass, [], set_identity 2 2 t)"
    by (rule sample_pass [of "\<lambda>xs. xs"]) (simp add: order_ok_def)
  obtain s1 where s1: "sci_deduct_caller sample_revm sample_blk ?tx [] (agent_evm t (\<lambda>_. 2000)) = (Inr (), [], s1)" "ctx_error s1 = None"
    using sample_agent_deduct [OF t(4), of "\<lambda>_. 2000"] by auto
  have used: "gas_used_of sample_revm (fr_gas ?fr) \<le> tx_gas_limit ?tx" by (simp add: sample_revm_simps net_gas_def)
  have gas: "gas_deduction sample_revm ?tx 1 ?fr = 0" by (simp add: gas_deduction_def)
  have now: "saturating_to_u64 1000 = 1000" by (simp add: saturating_to_u64_def)
  obtain s3 where s3: "sci_execution_result sample_revm sample_blk ?tx ?fr [] s1 = (Inr (exec_output sample_revm ?fr), [], s3)"
    "unat (remaining (roll_over (limit_of ?h 1 2 9 (keychain (sci (jnl s3)))) 1000)) + 40 = 100"
    using agent_transaction_settles [OF _ sample_contracts(3,2) _ _ _ s1(1) rtranclp.rtrancl_refl used s1(2), of 1] t(1-3)
    by (auto simp: sample_revm_simps(1-7) sample_tx_simps transfer_call_facts now gas dest!: spec [of _ 9])
  then have "remaining (roll_over (limit_of ?h 1 2 9 (keychain (sci (jnl s3)))) 1000) = 60" by (intro word_eq_unatI) simp
  then show ?thesis using s1(1) s3(1) by (auto simp: sample_revm_simps)
qed

lemma open_state_admits:
  "run_aa_keychain_hook sample_abi (\<lambda>xs. xs) be_word 1000 1 2 [plain_call 7] g [] open_state = (Inr Pass, [], set_identity 2 2 open_state)"
proof -
  have "hook_admits sample_abi (launch_host be_word 1000) 1 2 [plain_call 7] g open_state"
    by (auto simp: hook_admits_def open_state_def sample_state_def key_active_def plain_call_def call_permitted_def scope_view_def
        empty_keychain_def default_key_scope_def saturating_to_u64_def)
  moreover have "scopes_wf (keychain open_state)"
    using empty_keychain_ok by (simp add: open_state_def scopes_wf_def)
  ultimately show ?thesis using hook_run [of "\<lambda>xs. xs" 2 open_state sample_abi be_word 1000 1 "[plain_call 7]" g] by (simp add: order_ok_def)
qed

definition sponsor_evm :: "unit evm" where
  "sponsor_evm = agent_evm open_state (\<lambda>a. if a = 1 then 5000 else 0)"

lemma sample_sponsored_deduct:
  "\<exists>s1. sponsored_deduct sample_revm sample_blk (agent_tx calls (Some 1)) 1 [] sponsor_evm = (Inr (), [], s1)
    \<and> sci (jnl s1) = open_state \<and> l1_info s1 = sample_info\<lparr>tx_l1_cost := Some 0\<rparr>
    \<and> balance_of (jnl s1) 1 = 3995 \<and> balance_of (jnl s1) 2 = 0"
proof -
  let ?tx = "agent_tx calls (Some 1)" and ?i = "sample_info\<lparr>tx_l1_cost := Some 0\<rparr>" and ?s = "sponsor_evm"
  let ?s1 = "sponsor_evm\<lparr>l1_info := ?i\<rparr>"
  let ?s3 = "?s1\<lparr>jnl := move 1 2 1005 (jnl ?s1)\<rparr>"
  let ?s4 = "bump_nonce_if sample_revm True 2 (set_balance 2 (balance_of (jnl ?s3) 2 - 1005) (?s3\<lparr>l1_info := ?i\<rparr>))"
  have info: "l1_info sponsor_evm = sample_info" "balance_of (jnl sponsor_evm) 1 = 5000" "balance_of (jnl sponsor_evm) 2 = 0"
    "sci (jnl sponsor_evm) = open_state" by (simp_all add: sponsor_evm_def)
  have "gas_prefund sample_revm sample_blk ?tx [] ?s = (Inr 1005, [], ?s1)"
    using sample_tx_cost [of sample_info 100]
    by (simp add: gas_prefund_def h_simps refresh_l1_info_def info h_tx_cost_def sample_revm_simps sample_tx_simps sat_add_def)
      (simp add: sample_info_def sample_blk_def)
  moreover have t: "h_transfer_or msg sample_revm 1 2 1005 [] ?s1 = (Inr (), [], ?s3)" for msg
    by (rule h_transfer_or_run [OF sample_contracts(2)]) (simp_all add: info)
  moreover have b3: "balance_of (jnl ?s3) 2 = 1005" by (simp add: move_def credit_def info)
  have i3: "l1_info ?s3 = ?i" by simp
  have "base_deduct_caller sample_revm sample_blk ?tx [] ?s3 = (Inr (), [], ?s4)"
    using sample_base_deduct [of ?tx ?s3] b3 i3 by (simp only: agent_simps simp_thms order_refl)
  moreover have "reconcile_signer sample_revm 2 1 0 [] ?s4 = (Inr (), [], ?s4)"
    by (simp add: reconcile_signer_def h_bind_def h_return_def jnl_deducted(1) b3 [simplified])
  ultimately have "sponsored_deduct sample_revm sample_blk ?tx 1 [] ?s = (Inr (), [], ?s4)"
    by (simp add: sponsored_deduct_def h_bind_def info)
  then show ?thesis by (intro exI [of _ ?s4]) (simp add: jnl_deducted info move_def credit_def)
qed

theorem sponsored_gas_paid_by_root_witness:
  "\<exists>s1 s3. sci_deduct_caller sample_revm sample_blk (agent_tx [plain_call 7] (Some 1)) [] sponsor_evm = (Inr (), [], s1)
    \<and> balance_of (jnl s1) 2 = 0 \<and> unat (balance_of (jnl s1) 1) = 3995
    \<and> sci_reimburse_caller sample_revm sample_blk (agent_tx [plain_call 7] (Some 1))
        \<lparr>fr_result = Ok_result, fr_gas = \<lparr>frame_limit = 100, frame_remaining = 40, frame_refunded = 0\<rparr>, fr_output = []\<rparr> [] s1 = (Inr (), [], s3)
    \<and> balance_of (jnl s3) 2 = 0 \<and> unat (balance_of (jnl s3) 1) = 4395"
proof -
  let ?tx = "agent_tx [plain_call 7] (Some 1)" and ?i = "sample_info\<lparr>tx_l1_cost := Some 0\<rparr>"
  let ?fr = "\<lparr>fr_result = Ok_result, fr_gas = \<lparr>frame_limit = 100, frame_remaining = 40, frame_refunded = 0\<rparr>, fr_output = []\<rparr>"
  obtain s0 where s0: "sponsored_deduct sample_revm sample_blk ?tx 1 [] sponsor_evm = (Inr (), [], s0)"
    "sci (jnl s0) = open_state" "l1_info s0 = ?i" "balance_of (jnl s0) 1 = 3995" "balance_of (jnl s0) 2 = 0"
    using sample_sponsored_deduct by blast
  define s1 where "s1 = s0\<lparr>jnl := (jnl s0)\<lparr>sci := set_identity 2 2 open_state\<rparr>\<rparr>"
  have hook: "run_aa_keychain_hook (decoders sample_revm) (map_order sample_revm) (keccak sample_revm) (block_time sample_blk) 1
      (tx_caller ?tx) (calls_of ?tx) (gas_reservation ?tx 1) [] (sci (jnl s0)) = (Inr Pass, [], set_identity 2 2 open_state)"
    unfolding sample_revm_simps sample_tx_simps agent_simps s0 by (rule open_state_admits)
  have run: "sci_deduct_caller sample_revm sample_blk ?tx [] sponsor_evm = (Inr (), [], s1)"
    unfolding s1_def by (rule sci_deduct_run [OF _ _ _ _ hook]) (simp_all add: fee_payer_def s0)
  have i1: "l1_info s1 = ?i" by (simp add: s1_def s0(3))
  have ref: "operator_fee_refund (l1_info s1) (fr_gas ?fr) (cfg_spec sample_blk) = 0"
    by (simp add: i1 operator_fee_refund_def sample_tx_simps is_enabled_in_def operator_fee_charge_inner_def sample_info_def
        default_l1_info_def or_zero_def sat_mul_def sat_add_def sat_sub_def)
  have "root_of ?tx = Some 1 \<and> (\<exists>s3. sci_reimburse_caller sample_revm sample_blk ?tx ?fr [] s1 = (Inr (), [], s3)
      \<and> balance_of (jnl s3) (tx_caller ?tx) = balance_of (jnl s1) (tx_caller ?tx)
      \<and> unat (balance_of (jnl s3) 1) = unat (balance_of (jnl s1) 1) + 400)"
    using sponsored_gas_paid_by_root [OF sample_contracts(2) sample_fee_contract _ _ _ _ run, of 1 ?fr 400 s1] ref
    by (auto simp: sample_tx_simps gas_ok_def net_gas_def) (auto simp: s1_def s0)
  then show ?thesis using run by (auto simp: s1_def s0)
qed

definition sample_conv :: "(unit, unit, unit) env_conv" where
  "sample_conv = (let e = (\<lambda>t a. \<lparr>env_type = 2, env_caller = a, env_gas_limit = te_gas_limit t, env_gas_price = te_max_fee_per_gas t,
       env_kind = te_to t, env_value = te_value t, env_data = te_input t, env_nonce = te_nonce t\<rparr>);
       d = (\<lambda>_ a. \<lparr>env_type = 0, env_caller = a, env_gas_limit = 0, env_gas_price = 0, env_kind = Create, env_value = 0,
         env_data = [], env_nonce = 0\<rparr>)
     in \<lparr>from_legacy = d, from_eip2930 = d, from_eip1559 = e, from_eip7702 = d\<rparr>)"

definition create_batch :: BaseAaTransaction where
  "create_batch = \<lparr>at_chain_id = 1, at_nonce = 0, at_max_priority_fee_per_gas = 1, at_max_fee_per_gas = 10, at_gas_limit = 100,
     at_calls = [\<lparr>call_to = Create, call_value = 0, call_input = []\<rparr>], at_access_list = [], at_fee_payer = None, at_root = None\<rparr>"

definition create_tx :: BaseTransaction where
  "create_tx = from_encoded_tx sample_conv (Aa create_batch) 5 [2]"

lemma create_tx_simps:
  "\<not> is_deposit create_tx" "enveloped_tx create_tx = Some [2]" "tx_gas_limit create_tx = 100" "tx_caller create_tx = 5"
  "tx_kind create_tx = Create" "raw_fee_payer create_tx = None" "root_of create_tx = None"
  "batch_of create_tx = Some \<lparr>aa_calls = [\<lparr>call_to = Create, call_value = 0, call_input = []\<rparr>], aa_root = None, aa_fee_payer = None\<rparr>"
  by (simp_all add: create_tx_def from_encoded_tx_def sample_conv_def create_batch_def to_eip1559_first_call_def tx_type_def Let_def
      default_deposit_parts_def DEPOSIT_TRANSACTION_TYPE_def raw_fee_payer_def root_of_def batch_of_def)

text \<open>Every frame reverts.\<close>

definition reverting_revm :: "unit revm" where
  "reverting_revm = sample_revm\<lparr>run_exec_loop := \<lambda>i. h_return \<lparr>fr_result = Revert_result,
     fr_gas = \<lparr>frame_limit = fi_gas i, frame_remaining = 0, frame_refunded = 0\<rparr>, fr_output = []\<rparr>\<rparr>"

theorem failed_batch_nonce_witness:
  "\<exists>fr s1 s2. sci_deduct_caller reverting_revm sample_blk create_tx [] sample_evm = (Inr (), [], s1)
    \<and> execution reverting_revm create_tx 20 [] s1 = (Inr fr, [], s2)
    \<and> nonce_of (jnl s2) 5 = 0 \<and> balance_of (jnl s2) 5 = 98995"
proof -
  define s0 where "s0 = set_balance 5 98995 (sample_evm\<lparr>l1_info := sample_info\<lparr>tx_l1_cost := Some 0\<rparr>\<rparr>)"
  define s1 where "s1 = s0\<lparr>jnl := (jnl s0)\<lparr>sci := set_identity 5 0 (sci (jnl s0))\<rparr>\<rparr>"
  have start: "l1_info sample_evm = sample_info" "balance_of (jnl sample_evm) 5 = 100000" "nonce_of (jnl sample_evm) 5 = 0"
    "1005 \<le> (100000 :: u256)" "100000 - 1005 = (98995 :: u256)"
    by (simp_all add: sample_evm_def Let_def)
  have "base_deduct_caller reverting_revm sample_blk create_tx [] sample_evm = (Inr (), [], s0)"
    using sample_base_deduct_frames [of create_tx sample_evm] start(4)
    unfolding s0_def reverting_revm_def
    by (simp only: create_tx_simps start simp_thms is_call.simps bump_nonce_if_def if_False)
  then have deduct: "sci_deduct_caller reverting_revm sample_blk create_tx [] sample_evm = (Inr (), [], s1)"
    by (simp add: sci_deduct_caller_def create_tx_simps fee_payer_def h_bind_def seed_tx_origin_def on_sci_def
        set_keychain_tx_origin_def or_custom_def enter_keychain_storage_def seed_run s1_def)
  obtain fr s2 where exec: "execution reverting_revm create_tx 20 [] s1 = (Inr fr, [], s2)" "fr_result fr = Revert_result"
    by (simp add: execution_def create_tx_simps execute_aa_batch_def Let_def h_simps call_frame_def reverting_revm_def)
  have R: "gas_contract reverting_revm" "transfer_contract reverting_revm" "conv_ok sample_conv"
    using sample_contracts(1,2) by (simp_all add: reverting_revm_def gas_contract_def transfer_contract_def conv_ok_def sample_conv_def Let_def)
  have "jnl s2 = jnl s1 \<and> nonce_of (jnl s2) 5 = 0"
    using failed_batch_nonce [OF R(3) create_tx_def _ _ R(1,2) deduct exec(1)] exec(2) start(3) by (auto simp: create_batch_def)
  then show ?thesis using deduct exec(1) by (auto simp: s1_def s0_def set_balance_def)
qed

end
