(* ===== verification/Packing.thy ===== *)
theory Packing
  imports Pc_Monad
begin

text \<open>
  Packing of values into storage slots (\<open>sci/crates/precompiles/src/storage/packing.rs\<close>,
  \<open>storage/types/mod.rs\<close>) and the slot assignment of the \<open>Storable\<close> and \<open>contract\<close>
  macros (\<open>sci/crates/precompiles-macros/src/packing.rs\<close>): a field is a byte range of a word, fields
  of one layout do not collide, and array elements do not either.

  Slots are relative to the base of the struct or contract and kept as natural numbers; that a slot constant
  compiles means it lies below the end of the address space.
\<close>

section \<open>Words\<close>

definition create_element_mask :: "nat \<Rightarrow> u256" where
  "create_element_mask byte_count =
     (if byte_count \<ge> 32 then - 1 else push_bit (byte_count * 8) 1 - 1)"

definition span_error :: TempoPrecompileError where
  "span_error = Fatal ''value would span slot boundary''"

definition extract_from_word :: "(u256 \<Rightarrow> TempoPrecompileError + 'a) \<Rightarrow> u256 \<Rightarrow> nat \<Rightarrow> nat \<Rightarrow> TempoPrecompileError + 'a" where
  "extract_from_word from_word slot_value offset bytes =
     (if offset + bytes > 32 then Inl span_error
      else from_word (drop_bit (offset * 8) slot_value AND create_element_mask bytes))"

definition insert_into_word :: "u256 \<Rightarrow> u256 \<Rightarrow> nat \<Rightarrow> nat \<Rightarrow> TempoPrecompileError + u256" where
  "insert_into_word current field_value offset bytes =
     (if offset + bytes > 32 then Inl span_error
      else let shift_bits = offset * 8; mask = create_element_mask bytes;
               cleared = current AND NOT (push_bit shift_bits mask);
               positioned = push_bit shift_bits (field_value AND mask)
           in Inr (cleared OR positioned))"

definition delete_from_word :: "u256 \<Rightarrow> nat \<Rightarrow> nat \<Rightarrow> TempoPrecompileError + u256" where
  "delete_from_word current offset bytes =
     (if offset + bytes > 32 then Inl span_error
      else Inr (current AND NOT (push_bit (offset * 8) (create_element_mask bytes))))"

definition calc_element_slot :: "nat \<Rightarrow> nat \<Rightarrow> nat" where
  "calc_element_slot idx elem_bytes = idx div (32 div elem_bytes)"

definition calc_element_offset :: "nat \<Rightarrow> nat \<Rightarrow> nat" where
  "calc_element_offset idx elem_bytes = idx mod (32 div elem_bytes) * elem_bytes"

record FieldLocation =
  offset_slots :: nat
  offset_bytes :: nat
  loc_size :: nat

definition calc_element_loc :: "nat \<Rightarrow> nat \<Rightarrow> FieldLocation" where
  "calc_element_loc idx elem_bytes = \<lparr>offset_slots = calc_element_slot idx elem_bytes,
     offset_bytes = calc_element_offset idx elem_bytes, loc_size = elem_bytes\<rparr>"

lemma create_element_mask_eq: "create_element_mask n = mask (8 * n)"
proof (cases "32 \<le> n")
  case True
  then have "mask (8 * n) = (- 1 :: u256)" by (intro bit_word_eqI) (simp add: bit_mask_iff)
  then show ?thesis using True by (simp add: create_element_mask_def)
qed (simp add: create_element_mask_def mask_eq_exp_minus_1 push_bit_eq_mult mult.commute)

text \<open>The field of \<open>n\<close> bytes at byte \<open>off\<close> of a word.\<close>

definition field_of :: "nat \<Rightarrow> nat \<Rightarrow> u256 \<Rightarrow> u256" where
  "field_of off n w = take_bit (8 * n) (drop_bit (8 * off) w)"

lemma extract_field:
  "off + n \<le> 32 \<Longrightarrow> extract_from_word fw w off n = fw (field_of off n w)"
  by (simp add: extract_from_word_def field_of_def create_element_mask_eq take_bit_eq_mask mult.commute)

lemma bit_field_of: "bit (field_of off n w) i \<longleftrightarrow> i < 8 * n \<and> bit w (8 * off + i)"
  by (simp add: field_of_def bit_take_bit_iff bit_drop_bit_eq)

lemma bit_insert:
  assumes "insert_into_word cur v off n = Inr w"
  shows "bit w i \<longleftrightarrow> (if 8 * off \<le> i \<and> i < 8 * (off + n) then bit v (i - 8 * off) \<and> i < 256 else bit cur i)"
proof -
  have w: "w = (cur AND NOT (push_bit (8 * off) (mask (8 * n)))) OR push_bit (8 * off) (v AND mask (8 * n))"
    using assms by (simp add: insert_into_word_def Let_def create_element_mask_eq mult.commute split: if_splits)
  have "bit cur i \<Longrightarrow> i < 256" using bit_imp_le_length [of cur i] by simp
  then show ?thesis
    by (auto simp: w bit_or_iff bit_and_iff bit_not_iff bit_push_bit_iff bit_mask_iff)
qed

lemma insert_into_word_ok: "off + n \<le> 32 \<Longrightarrow> \<exists>w. insert_into_word cur v off n = Inr w"
  by (simp add: insert_into_word_def Let_def)

lemma insert_same_field:
  assumes "insert_into_word cur v off n = Inr w" "take_bit (8 * n) v = v"
  shows "field_of off n w = v"
proof (rule bit_word_eqI)
  fix i
  assume "i < LENGTH(256)"
  have "off + n \<le> 32" using assms(1) by (simp add: insert_into_word_def split: if_splits)
  moreover have "bit v i \<longleftrightarrow> bit v i \<and> i < 8 * n" by (metis assms(2) bit_take_bit_iff)
  ultimately show "bit (field_of off n w) i = bit v i"
    by (auto simp: bit_field_of bit_insert [OF assms(1)])
qed

lemma insert_other_field:
  assumes "insert_into_word cur v off n = Inr w" "off' + n' \<le> off \<or> off + n \<le> off'"
  shows "field_of off' n' w = field_of off' n' cur"
  using assms(2) by (intro bit_word_eqI) (auto simp: bit_field_of bit_insert [OF assms(1)])

lemma bit_delete:
  assumes "delete_from_word cur off n = Inr w"
  shows "bit w i \<longleftrightarrow> bit cur i \<and> \<not> (8 * off \<le> i \<and> i < 8 * (off + n))"
proof -
  have w: "w = cur AND NOT (push_bit (8 * off) (mask (8 * n)))"
    using assms by (simp add: delete_from_word_def create_element_mask_eq mult.commute split: if_splits)
  have "bit cur i \<Longrightarrow> i < 256" using bit_imp_le_length [of cur i] by simp
  then show ?thesis by (auto simp: w bit_and_iff bit_not_iff bit_push_bit_iff bit_mask_iff)
qed

text \<open>C27: elements of a packed array do not share bytes. Elements of at most 32 bytes at different indices
  either lie in different slots or in disjoint byte ranges of one slot, and no element crosses the end of its
  slot.\<close>

theorem packed_elements_disjoint:
  assumes "0 < n" "n \<le> 32" "i \<noteq> j"
  shows "calc_element_offset i n + n \<le> 32
    \<and> (calc_element_slot i n \<noteq> calc_element_slot j n
       \<or> calc_element_offset i n + n \<le> calc_element_offset j n
       \<or> calc_element_offset j n + n \<le> calc_element_offset i n)"
proof -
  define e where "e = 32 div n"
  have e: "0 < e" "e * n \<le> 32" using assms(1,2) by (simp_all add: e_def div_greater_zero_iff)
  have apart: "x * n + n \<le> y * n" if "x < y" for x y :: nat
    using mult_le_mono1 [of "Suc x" y n] that by simp
  have "(i mod e) * n + n \<le> e * n" using apart [of "i mod e" e] e(1) by simp
  moreover have "i mod e \<noteq> j mod e" if "i div e = j div e"
    using that assms(3) div_mult_mod_eq [of i e] div_mult_mod_eq [of j e] by metis
  ultimately show ?thesis
    using e(2) apart unfolding calc_element_offset_def calc_element_slot_def e_def [symmetric]
    by (metis le_trans linorder_neqE_nat)
qed

theorem packed_elements_disjoint_witness:
  "calc_element_slot 2 10 = 0 \<and> calc_element_slot 3 10 = 1
   \<and> calc_element_offset 1 10 + 10 \<le> 32 \<and> calc_element_offset 1 10 + 10 \<le> calc_element_offset 2 10"
  using packed_elements_disjoint [of 10 1 2] by (simp add: calc_element_slot_def calc_element_offset_def)

section \<open>Layouts\<close>

datatype Layout = Bytes nat | Slots nat

primrec is_packable :: "Layout \<Rightarrow> bool" where
  "is_packable (Bytes n) = (n < 32)"
| "is_packable (Slots n) = False"

primrec slots :: "Layout \<Rightarrow> nat" where
  "slots (Bytes n) = 1"
| "slots (Slots n) = n"

primrec bytes_of_slots :: "nat \<Rightarrow> nat" where
  "bytes_of_slots 0 = 0"
| "bytes_of_slots (Suc n) = bytes_of_slots n + 32"

primrec layout_bytes :: "Layout \<Rightarrow> nat" where
  "layout_bytes (Bytes n) = n"
| "layout_bytes (Slots n) = bytes_of_slots n"

lemma bytes_of_slots_eq: "bytes_of_slots n = 32 * n"
  by (induction n) simp_all

text \<open>Where a field lies: its slot, relative to the base, and its byte in the slot.\<close>

definition next_loc :: "Layout \<Rightarrow> Layout \<Rightarrow> nat \<times> nat \<Rightarrow> nat \<times> nat" where
  "next_loc pl l loc = (case loc of (prev_slot, prev_offset) \<Rightarrow>
     if prev_offset + layout_bytes pl + layout_bytes l \<le> 32
     then (prev_slot, prev_offset + layout_bytes pl)
     else (prev_slot + slots pl, 0))"

datatype SlotAssignment = Manual nat | Auto nat

primrec ref_slot :: "SlotAssignment \<Rightarrow> nat" where
  "ref_slot (Manual s) = s"
| "ref_slot (Auto s) = s"

record FieldInfo =
  field_layout :: Layout
  field_slot :: "nat option"
  field_base_slot :: "nat option"

fun allocate_slots_from :: "nat \<Rightarrow> FieldInfo list \<Rightarrow> (Layout \<times> SlotAssignment) list" where
  "allocate_slots_from base [] = []"
| "allocate_slots_from base (f # fs) = (case field_slot f of
     Some explicit \<Rightarrow> (field_layout f, Manual explicit) # allocate_slots_from base fs
   | None \<Rightarrow> (case field_base_slot f of
       Some new_base \<Rightarrow> (field_layout f, Auto new_base) # allocate_slots_from new_base fs
     | None \<Rightarrow> (field_layout f, Auto base) # allocate_slots_from base fs))"

definition allocate_slots :: "FieldInfo list \<Rightarrow> (Layout \<times> SlotAssignment) list" where
  "allocate_slots fs = allocate_slots_from 0 fs"

text \<open>The constants generated for a layout. The slot of a field must leave room for the whole field below
  the end of the address space, or the generated constant does not compile.\<close>

definition slot_fits :: "Layout \<Rightarrow> nat \<Rightarrow> nat option" where
  "slot_fits l s = (if s + (slots l - 1) < 2 ^ 256 then Some s else None)"

fun gen_constants_from :: "(Layout \<times> nat \<times> (nat \<times> nat)) option \<Rightarrow> (Layout \<times> SlotAssignment) list \<Rightarrow>
    (nat \<times> nat) list option" where
  "gen_constants_from current [] = Some []"
| "gen_constants_from current ((l, Manual s) # fs) = (case slot_fits l s of
     None \<Rightarrow> None
   | Some s' \<Rightarrow> map_option (Cons (s', 0)) (gen_constants_from current fs))"
| "gen_constants_from current ((l, Auto base) # fs) =
     (let loc = (case current of
        Some (pl, pbase, ploc) \<Rightarrow> if pbase = base then next_loc pl l ploc else (base, 0)
      | None \<Rightarrow> (base, 0)) in
      case slot_fits l (fst loc) of
        None \<Rightarrow> None
      | Some _ \<Rightarrow> map_option (Cons loc) (gen_constants_from (Some (l, base, loc)) fs))"

definition gen_constants :: "(Layout \<times> SlotAssignment) list \<Rightarrow> (nat \<times> nat) list option" where
  "gen_constants fs = gen_constants_from None fs"

text \<open>The collision check between two fields that debug builds run: \<open>None\<close> is its panic on a slot range that ends
  outside the address space.\<close>

definition no_overlap :: "Layout \<Rightarrow> nat \<times> nat \<Rightarrow> Layout \<Rightarrow> nat \<times> nat \<Rightarrow> bool" where
  "no_overlap l loc l' loc' =
     (if fst loc = fst loc'
      then snd loc + layout_bytes l \<le> snd loc' \<or> snd loc' + layout_bytes l' \<le> snd loc
      else fst loc + slots l \<le> fst loc' \<or> fst loc' + slots l' \<le> fst loc)"

definition collision_check :: "Layout \<Rightarrow> nat \<times> nat \<Rightarrow> Layout \<Rightarrow> nat \<times> nat \<Rightarrow> bool option" where
  "collision_check l loc l' loc' =
     (if fst loc + slots l \<ge> 2 ^ 256 then None
      else if fst loc' + slots l' \<ge> 2 ^ 256 then None
      else Some (no_overlap l loc l' loc'))"

section \<open>Layouts do not collide\<close>

text \<open>A field lies before another: in an earlier slot, or in earlier bytes of a slot they share.\<close>

definition layout_wf :: "Layout \<Rightarrow> bool" where
  "layout_wf l = (case l of Bytes n \<Rightarrow> 1 \<le> n \<and> n \<le> 32 | Slots n \<Rightarrow> 1 \<le> n)"

definition loc_ok :: "Layout \<Rightarrow> nat \<times> nat \<Rightarrow> bool" where
  "loc_ok l loc = (case l of Bytes n \<Rightarrow> snd loc + n \<le> 32 | Slots n \<Rightarrow> snd loc = 0)"

definition field_before :: "Layout \<times> nat \<times> nat \<Rightarrow> Layout \<times> nat \<times> nat \<Rightarrow> bool" where
  "field_before x y = (case (x, y) of ((l, s, off), (l', s', off')) \<Rightarrow>
     s + slots l \<le> s' \<or> s = s' \<and> is_packable l \<and> is_packable l' \<and> off + layout_bytes l \<le> off')"

lemma slots_pos: "layout_wf l \<Longrightarrow> 1 \<le> slots l"
  by (cases l) (simp_all add: layout_wf_def)

lemma next_loc_before:
  assumes "layout_wf pl" "layout_wf l" "loc_ok pl ploc"
  shows "field_before (pl, ploc) (l, next_loc pl l ploc)" "loc_ok l (next_loc pl l ploc)"
  using assms
  by (auto simp: field_before_def next_loc_def loc_ok_def layout_wf_def bytes_of_slots_eq split: Layout.splits prod.splits)

lemma field_before_trans:
  assumes "field_before x y" "field_before y z" "layout_wf (fst y)"
  shows "field_before x z"
proof -
  obtain l s off l' s' off' l'' s'' off'' where
    xyz: "x = (l, s, off)" "y = (l', s', off')" "z = (l'', s'', off'')" by (cases x, cases y, cases z)
  have "slots l = 1" if "is_packable l" using that by (cases l) simp_all
  moreover have "slots l' = 1" if "is_packable l'" using that by (cases l') simp_all
  moreover have "1 \<le> slots l'" using assms(3) slots_pos by (simp add: xyz)
  ultimately show ?thesis using assms(1,2) by (auto simp: field_before_def xyz)
qed

lemma gen_constants_sorted:
  assumes "gen_constants_from current (map (\<lambda>l. (l, Auto base)) ls) = Some locs"
    and "\<forall>l \<in> set ls. layout_wf l"
    and "\<And>pl pb ploc. current = Some (pl, pb, ploc) \<Longrightarrow> pb = base \<and> layout_wf pl \<and> loc_ok pl ploc"
  shows "length locs = length ls \<and> sorted_wrt field_before (zip ls locs)
    \<and> (\<forall>(l, loc) \<in> set (zip ls locs). loc_ok l loc \<and> fst loc + slots l \<le> 2 ^ 256)
    \<and> (\<forall>pl pb ploc. current = Some (pl, pb, ploc) \<longrightarrow> (\<forall>x \<in> set (zip ls locs). field_before (pl, ploc) x))"
  using assms
proof (induction ls arbitrary: current locs)
  case (Cons l ls)
  define loc where "loc = (case current of
        Some (pl, pbase, ploc) \<Rightarrow> if pbase = base then next_loc pl l ploc else (base, 0) | None \<Rightarrow> (base, 0))"
  obtain locs' where locs: "gen_constants_from (Some (l, base, loc)) (map (\<lambda>l. (l, Auto base)) ls) = Some locs'"
    "locs = loc # locs'" and fits: "fst loc + (slots l - 1) < 2 ^ 256"
    using Cons.prems(1) by (auto simp: loc_def [symmetric] Let_def slot_fits_def split: option.splits if_splits)
  have wf: "layout_wf l" "\<forall>l \<in> set ls. layout_wf l" using Cons.prems(2) by simp_all
  have ok: "loc_ok l loc"
  proof (cases current)
    case None
    then show ?thesis using wf(1) by (cases l) (simp_all add: loc_def loc_ok_def layout_wf_def)
  next
    case (Some c)
    obtain pl pb ploc where c: "c = (pl, pb, ploc)" by (cases c)
    then show ?thesis using Cons.prems(3) [of pl pb ploc] Some next_loc_before(2) [OF _ wf(1)] by (simp add: loc_def)
  qed
  have first: "field_before (pl, ploc) (l, loc)" if "current = Some (pl, pb, ploc)" for pl pb ploc
    using Cons.prems(3) [OF that] next_loc_before(1) wf(1) that by (simp add: loc_def)
  note IH = Cons.IH [OF locs(1) wf(2)]
  have rest: "length locs' = length ls" "sorted_wrt field_before (zip ls locs')"
    "\<forall>(l, loc) \<in> set (zip ls locs'). loc_ok l loc \<and> fst loc + slots l \<le> 2 ^ 256"
    "\<forall>x \<in> set (zip ls locs'). field_before (l, loc) x"
    using IH wf(1) ok by (cases loc, auto)+
  have "fst loc + slots l \<le> 2 ^ 256" using fits slots_pos [OF wf(1)] by simp
  then show ?case
    using rest first ok field_before_trans [of _ "(l, loc)"] wf(1) by (auto simp: locs(2))
qed simp

lemma field_before_no_overlap:
  "field_before (l, loc) (l', loc') \<Longrightarrow> layout_wf l \<Longrightarrow> layout_wf l' \<Longrightarrow> no_overlap l loc l' loc' \<and> no_overlap l' loc' l loc"
  using slots_pos [of l] slots_pos [of l'] by (auto simp: field_before_def no_overlap_def)

text \<open>C26: storage layouts do not collide. Whenever the layout of a struct's fields compiles, no field crosses
  the end of its slot, later fields lie after earlier ones, and the condition of the generated collision
  check holds for every pair, in both orders; so the check accepts the pair unless a slot range ends at the very end of the
  address space, where it panics.\<close>

theorem struct_layout_sound:
  assumes "\<forall>f \<in> set fs. layout_wf (field_layout f) \<and> field_slot f = None \<and> field_base_slot f = None"
    and "gen_constants (allocate_slots fs) = Some locs" "i < j" "j < length fs"
  shows "length locs = length fs
    \<and> (\<forall>n. field_layout (fs ! i) = Bytes n \<longrightarrow> snd (locs ! i) + n \<le> 32)
    \<and> (fst (locs ! i) < fst (locs ! j) \<or> fst (locs ! i) = fst (locs ! j) \<and> snd (locs ! i) < snd (locs ! j))
    \<and> no_overlap (field_layout (fs ! i)) (locs ! i) (field_layout (fs ! j)) (locs ! j)
    \<and> no_overlap (field_layout (fs ! j)) (locs ! j) (field_layout (fs ! i)) (locs ! i)
    \<and> collision_check (field_layout (fs ! i)) (locs ! i) (field_layout (fs ! j)) (locs ! j)
      = (if fst (locs ! i) + slots (field_layout (fs ! i)) < 2 ^ 256 \<and> fst (locs ! j) + slots (field_layout (fs ! j)) < 2 ^ 256
         then Some True else None)"
proof -
  let ?ls = "map field_layout fs"
  have "allocate_slots_from b gs = map (\<lambda>l. (l, Auto b)) (map field_layout gs)" if "set gs \<subseteq> set fs" for b gs
    using that assms(1) by (induction gs) auto
  then have "gen_constants_from None (map (\<lambda>l. (l, Auto 0)) ?ls) = Some locs"
    using assms(2) by (simp add: gen_constants_def allocate_slots_def)
  moreover have wf: "\<forall>l \<in> set ?ls. layout_wf l" using assms(1) by simp
  ultimately have s: "length locs = length ?ls" "sorted_wrt field_before (zip ?ls locs)"
      "\<forall>(l, loc) \<in> set (zip ?ls locs). loc_ok l loc \<and> fst loc + slots l \<le> 2 ^ 256"
    using gen_constants_sorted [of None 0 ?ls locs] by simp_all
  have bef: "field_before (field_layout (fs ! i), locs ! i) (field_layout (fs ! j), locs ! j)"
    using s(1) assms(3,4) sorted_wrt_nth_less [OF s(2), of i j] by simp
  have ok: "loc_ok (field_layout (fs ! i)) (locs ! i)"
  proof -
    have "i < length (zip ?ls locs)" using s(1) assms(3,4) by simp
    from nth_mem [OF this] s(3) show ?thesis using s(1) assms(3,4) by auto
  qed
  have wfs: "layout_wf (field_layout (fs ! i))" "layout_wf (field_layout (fs ! j))"
    using wf assms(3,4) by simp_all
  have "1 \<le> layout_bytes (field_layout (fs ! i))"
    using wfs(1) by (cases "field_layout (fs ! i)") (simp_all add: layout_wf_def bytes_of_slots_eq)
  then show ?thesis
    using s(1) ok bef slots_pos [OF wfs(1)] field_before_no_overlap [OF bef wfs]
    by (auto simp: loc_ok_def field_before_def collision_check_def)
qed

theorem struct_layout_sound_witness:
  "gen_constants (allocate_slots (map (\<lambda>n. \<lparr>field_layout = Bytes n, field_slot = None, field_base_slot = None\<rparr>) [1, 8, 1, 32]))
     = Some [(0, 0), (0, 1), (0, 9), (1, 0)]
   \<and> no_overlap (Bytes 8) (0, 1) (Bytes 32) (1, 0)"
proof -
  let ?fs = "map (\<lambda>n. \<lparr>field_layout = Bytes n, field_slot = None, field_base_slot = None\<rparr>) [1, 8, 1, 32]"
  have "gen_constants (allocate_slots ?fs) = Some [(0, 0), (0, 1), (0, 9), (1, 0)]"
    by (simp add: gen_constants_def allocate_slots_def slot_fits_def next_loc_def)
  with struct_layout_sound [of ?fs "[(0, 0), (0, 1), (0, 9), (1, 0)]" 1 3] show ?thesis
    by (simp add: layout_wf_def)
qed

end
