(* ===== verification/Storable.thy ===== *)
theory Storable
  imports Packing
begin

text \<open>
  Typed values in storage: what the \<open>Storable\<close> derive macro generates
  (\<open>sci/crates/precompiles-macros/src/storable.rs\<close>, \<open>storable_primitives.rs\<close>) and the trait
  implementations it relies on (\<open>storage/types/mod.rs\<close>, \<open>primitives.rs\<close>, \<open>slot.rs\<close>).
  Types are data: single-word types, structs of fields, and mapping fields, which own a slot but no value.
  Arrays and the dynamic types (vectors, strings) are not fields of this model.

  The generated code keeps a pending word per slot group while it stores, and a cached word while it loads;
  both are modelled as they are generated.
\<close>

section \<open>Types and values\<close>

text \<open>The single-word types and what \<open>from_word\<close> accepts. A value is kept as its \<open>to_word\<close>; the
  argument of the integer and byte types is the number of bytes, that of \<open>UnitEnum\<close> the number of
  variants.\<close>

datatype prim = UInt nat | SInt nat | BoolT | AddressT | FixedBytes nat | UnitEnum nat

primrec prim_bytes :: "prim \<Rightarrow> nat" where
  "prim_bytes (UInt n) = n"
| "prim_bytes (SInt n) = n"
| "prim_bytes BoolT = 1"
| "prim_bytes AddressT = 20"
| "prim_bytes (FixedBytes n) = n"
| "prim_bytes (UnitEnum n) = 1"

definition int_from_word :: "nat \<Rightarrow> u256 \<Rightarrow> TempoPrecompileError + u256" where
  "int_from_word n w = (if take_bit (8 * n) w \<noteq> w then Inl (Panic UnderOverflow) else Inr w)"

primrec from_word :: "prim \<Rightarrow> u256 \<Rightarrow> TempoPrecompileError + u256" where
  "from_word (UInt n) w = int_from_word n w"
| "from_word (SInt n) w = int_from_word n w"
| "from_word BoolT w = Inr (if w = 0 then 0 else 1)"
| "from_word AddressT w = Inr (take_bit 160 w)"
| "from_word (FixedBytes n) w = Inr (take_bit (8 * n) w)"
| "from_word (UnitEnum k) w = (case int_from_word 1 w of
     Inl e \<Rightarrow> Inl e
   | Inr d \<Rightarrow> if unat d < k then Inr d else Inl (Panic EnumConversionError))"

datatype sty = Prim prim | Struct "field list"
  and field = Direct sty | MapField

datatype sval = PV u256 | SV "sval list"

definition slot_count :: "Layout list \<Rightarrow> nat" where
  "slot_count ls = (case gen_constants (map (\<lambda>l. (l, Auto 0)) ls) of
     Some locs \<Rightarrow> if ls = [] then 0 else fst (last locs) + slots (last ls)
   | None \<Rightarrow> 0)"

fun sty_layout :: "sty \<Rightarrow> Layout" and layout_of_field :: "field \<Rightarrow> Layout" where
  "sty_layout (Prim p) = Bytes (prim_bytes p)"
| "sty_layout (Struct fs) = Slots (slot_count (map layout_of_field fs))"
| "layout_of_field (Direct t) = sty_layout t"
| "layout_of_field MapField = Slots 1"

text \<open>The fields of a struct that \<open>load\<close> and \<open>store\<close> handle, with their locations: mappings have
  a slot but no value of their own.\<close>

definition struct_locs :: "field list \<Rightarrow> (nat \<times> nat) list" where
  "struct_locs fs = (case gen_constants (map (\<lambda>f. (layout_of_field f, Auto 0)) fs) of Some locs \<Rightarrow> locs | None \<Rightarrow> [])"

fun direct_fields :: "field list \<Rightarrow> (nat \<times> nat) list \<Rightarrow> (sty \<times> nat \<times> nat) list" where
  "direct_fields (Direct t # fs) (loc # locs) = (t, loc) # direct_fields fs locs"
| "direct_fields (MapField # fs) (loc # locs) = direct_fields fs locs"
| "direct_fields _ _ = []"

section \<open>Loading and storing\<close>

type_synonym storage = "u256 \<Rightarrow> u256"

definition s_load :: "u256 \<Rightarrow> (storage, u256) pc" where
  "s_load slot = pc_read (\<lambda>\<sigma>. \<sigma> slot)"

definition s_store :: "u256 \<Rightarrow> u256 \<Rightarrow> (storage, unit) pc" where
  "s_store slot w = pc_write (\<lambda>\<sigma>. \<sigma>(slot := w))"

definition pc_lift :: "TempoPrecompileError + 'a \<Rightarrow> ('s, 'a) pc" where
  "pc_lift r = (case r of Inl e \<Rightarrow> pc_throw e | Inr x \<Rightarrow> pc_return x)"

text \<open>\<open>LayoutCtx\<close>: \<open>None\<close> is a full-slot context, \<open>Some offset\<close> a packed one.\<close>

definition load_prim :: "prim \<Rightarrow> u256 \<Rightarrow> nat option \<Rightarrow> (storage, sval) pc" where
  "load_prim p slot ctx = pc_bind (s_load slot) (\<lambda>w.
     pc_bind (pc_lift (case ctx of
         Some offset \<Rightarrow> if prim_bytes p < 32 then extract_from_word (from_word p) w offset (prim_bytes p) else from_word p w
       | None \<Rightarrow> from_word p w)) (\<lambda>v. pc_return (PV v)))"

definition store_prim :: "prim \<Rightarrow> u256 \<Rightarrow> u256 \<Rightarrow> nat option \<Rightarrow> (storage, unit) pc" where
  "store_prim p v slot ctx = (case ctx of
     Some offset \<Rightarrow> if prim_bytes p < 32 then
         pc_bind (s_load slot) (\<lambda>current.
         pc_bind (pc_lift (insert_into_word current v offset (prim_bytes p))) (\<lambda>updated. s_store slot updated))
       else s_store slot v
   | None \<Rightarrow> s_store slot v)"

definition delete_prim :: "prim \<Rightarrow> u256 \<Rightarrow> nat option \<Rightarrow> (storage, unit) pc" where
  "delete_prim p slot ctx = (case ctx of
     None \<Rightarrow> pc_each (\<lambda>offset. s_store (slot + word_of_nat offset) 0) [0..<slots (Bytes (prim_bytes p))]
   | Some offset \<Rightarrow> pc_bind (s_load slot) (\<lambda>current.
       pc_bind (pc_lift (delete_from_word current offset (prim_bytes p))) (\<lambda>cleared. s_store slot cleared)))"

text \<open>Packing a value into the slot word held in memory (\<open>PackedSlot\<close>).\<close>

fun packed_store :: "sty \<Rightarrow> sval \<Rightarrow> nat \<Rightarrow> u256 \<Rightarrow> TempoPrecompileError + u256" where
  "packed_store (Prim p) (PV v) offset w = insert_into_word w v offset (prim_bytes p)"
| "packed_store _ _ _ w = Inr w"

fun packed_load :: "sty \<Rightarrow> nat \<Rightarrow> u256 \<Rightarrow> TempoPrecompileError + sval" where
  "packed_load (Prim p) offset w = map_sum id PV (extract_from_word (from_word p) w offset (prim_bytes p))"
| "packed_load (Struct fs) _ w = Inl (Fatal ''not packable'')"

definition commit_pending :: "u256 \<Rightarrow> u256 \<Rightarrow> nat option \<Rightarrow> (storage, unit) pc" where
  "commit_pending base_slot pending_val pending_offset = (case pending_offset of
     Some offset \<Rightarrow> s_store (base_slot + word_of_nat offset) pending_val
   | None \<Rightarrow> pc_return ())"

text \<open>Whether the slot group ends with a field: the next field is in another slot or not packable.\<close>

fun should_store :: "nat \<Rightarrow> (sty \<times> nat \<times> nat) list \<Rightarrow> bool" where
  "should_store s [] = True"
| "should_store s ((t, s', _) # _) = (s \<noteq> s' \<or> \<not> is_packable (sty_layout t))"

function (sequential) store_ty :: "bool \<Rightarrow> sty \<Rightarrow> sval \<Rightarrow> u256 \<Rightarrow> (storage, unit) pc"
  and store_fields :: "bool \<Rightarrow> u256 \<Rightarrow> nat option \<Rightarrow> (sty \<times> nat \<times> nat) list \<Rightarrow> sval list \<Rightarrow> u256 \<Rightarrow> nat option \<Rightarrow>
    (storage, unit) pc" where
  "store_ty t4 (Prim p) (PV v) slot = store_prim p v slot None"
| "store_ty t4 (Struct fs) (SV vs) slot =
     store_fields t4 slot None (direct_fields fs (struct_locs fs)) vs 0 None"
| "store_ty t4 _ _ slot = pc_return ()"
| "store_fields t4 base prev ((t, s, off) # rest) (v # vs) pending_val pending_offset =
     (if is_packable (sty_layout t) \<and> prev = Some s then
        pc_bind (pc_lift (packed_store t v off pending_val)) (\<lambda>pv.
        if should_store s rest
        then pc_then (commit_pending base pv pending_offset) (store_fields t4 base (Some s) rest vs pv None)
        else store_fields t4 base (Some s) rest vs pv pending_offset)
      else if is_packable (sty_layout t) then
        pc_then (commit_pending base pending_val pending_offset)
        (pc_bind (if t4 then pc_return 0 else s_load (base + word_of_nat s)) (\<lambda>pv0.
         pc_bind (pc_lift (packed_store t v off pv0)) (\<lambda>pv.
         if should_store s rest
         then pc_then (commit_pending base pv (Some s)) (store_fields t4 base (Some s) rest vs pv None)
         else store_fields t4 base (Some s) rest vs pv (Some s))))
      else
        pc_then (commit_pending base pending_val pending_offset)
        (pc_then (store_ty t4 t v (base + word_of_nat s))
         (store_fields t4 base (Some s) rest vs pending_val None)))"
| "store_fields t4 base prev _ _ pending_val pending_offset = pc_return ()"
  by pat_completeness auto

function (sequential) load_ty :: "sty \<Rightarrow> u256 \<Rightarrow> (storage, sval) pc"
  and load_fields :: "u256 \<Rightarrow> nat option \<Rightarrow> (sty \<times> nat \<times> nat) list \<Rightarrow> u256 \<Rightarrow> (storage, sval list) pc" where
  "load_ty (Prim p) slot = load_prim p slot None"
| "load_ty (Struct fs) slot =
     pc_bind (load_fields slot None (direct_fields fs (struct_locs fs)) 0) (\<lambda>vs. pc_return (SV vs))"
| "load_fields base prev [] cached = pc_return []"
| "load_fields base prev ((t, s, off) # rest) cached =
     (if is_packable (sty_layout t) \<and> prev = Some s then
        pc_bind (pc_lift (packed_load t off cached)) (\<lambda>v.
        pc_bind (load_fields base (Some s) rest cached) (\<lambda>vs. pc_return (v # vs)))
      else if is_packable (sty_layout t) then
        pc_bind (s_load (base + word_of_nat s)) (\<lambda>c.
        pc_bind (pc_lift (packed_load t off c)) (\<lambda>v.
        pc_bind (load_fields base (Some s) rest c) (\<lambda>vs. pc_return (v # vs))))
      else
        pc_bind (load_ty t (base + word_of_nat s)) (\<lambda>v.
        pc_bind (load_fields base (Some s) rest cached) (\<lambda>vs. pc_return (v # vs))))"
  by pat_completeness auto

lemma direct_fields_size: "size_list (\<lambda>x. size (fst x)) (direct_fields fs locs) \<le> size_list size fs"
  by (induction fs locs rule: direct_fields.induct) auto

termination load_ty
  by (relation "measure (\<lambda>x. case x of Inl (t, _) \<Rightarrow> size t | Inr (_, _, items, _) \<Rightarrow> size_list (\<lambda>x. size (fst x)) items)")
    (auto intro: le_imp_less_Suc direct_fields_size)

termination store_ty
  by (relation "measure (\<lambda>x. case x of Inl (_, t, _, _) \<Rightarrow> size t
      | Inr (_, _, _, items, _, _, _) \<Rightarrow> size_list (\<lambda>x. size (fst x)) items)")
    (auto intro: le_imp_less_Suc direct_fields_size)

section \<open>Well-formed types and values\<close>

primrec prim_wf :: "prim \<Rightarrow> bool" where
  "prim_wf (UInt n) = (1 \<le> n \<and> n \<le> 32)"
| "prim_wf (SInt n) = (1 \<le> n \<and> n \<le> 32)"
| "prim_wf BoolT = True"
| "prim_wf AddressT = True"
| "prim_wf (FixedBytes n) = (1 \<le> n \<and> n \<le> 32)"
| "prim_wf (UnitEnum k) = (1 \<le> k \<and> k \<le> 256)"

fun sty_wf :: "sty \<Rightarrow> bool" and field_wf :: "field \<Rightarrow> bool" where
  "sty_wf (Prim p) = prim_wf p"
| "sty_wf (Struct fs) = (fs \<noteq> [] \<and> gen_constants (map (\<lambda>f. (layout_of_field f, Auto 0)) fs) \<noteq> None
     \<and> (\<forall>f \<in> set fs. field_wf f))"
| "field_wf (Direct t) = sty_wf t"
| "field_wf MapField = True"

definition canonical :: "prim \<Rightarrow> u256 \<Rightarrow> bool" where
  "canonical p v \<longleftrightarrow> from_word p v = Inr v \<and> take_bit (8 * prim_bytes p) v = v"

fun wt :: "sty \<Rightarrow> sval \<Rightarrow> bool" and wts :: "field list \<Rightarrow> sval list \<Rightarrow> bool" where
  "wt (Prim p) (PV v) = canonical p v"
| "wt (Struct fs) (SV vs) = wts fs vs"
| "wt _ _ = False"
| "wts [] [] = True"
| "wts (Direct t # fs) (v # vs) = (wt t v \<and> wts fs vs)"
| "wts (MapField # fs) vs = wts fs vs"
| "wts _ _ = False"

lemma prim_layout_wf: "prim_wf p \<Longrightarrow> layout_wf (Bytes (prim_bytes p))"
  by (cases p) (simp_all add: layout_wf_def)

lemma layout_slots_bound:
  assumes "\<forall>l \<in> set ls. layout_wf l" "gen_constants (map (\<lambda>l. (l, Auto 0)) ls) = Some locs"
  shows "length locs = length ls \<and> sorted_wrt field_before (zip ls locs)
    \<and> (\<forall>(l, loc) \<in> set (zip ls locs). loc_ok l loc \<and> fst loc + slots l \<le> slot_count ls \<and> slot_count ls \<le> 2 ^ 256)"
proof -
  note s = gen_constants_sorted [OF assms(2) [unfolded gen_constants_def] assms(1)]
  have len: "length locs = length ls" and sorted: "sorted_wrt field_before (zip ls locs)"
    and ok: "\<forall>(l, loc) \<in> set (zip ls locs). loc_ok l loc \<and> fst loc + slots l \<le> 2 ^ 256" using s by auto
  have "fst loc + slots l \<le> slot_count ls \<and> slot_count ls \<le> 2 ^ 256" if "(l, loc) \<in> set (zip ls locs)" for l loc
  proof -
    have ne: "ls \<noteq> []" "locs \<noteq> []" using that by auto
    then have last: "last (zip ls locs) = (last ls, last locs)" using len by (simp add: last_zip)
    have count: "slot_count ls = fst (last locs) + slots (last ls)" using ne assms(2) by (simp add: slot_count_def)
    have lmem: "(last ls, last locs) \<in> set (zip ls locs)" using last ne len by (metis last_in_set zip_eq_Nil_iff)
    obtain ys where ys: "zip ls locs = ys @ [(last ls, last locs)]"
      using last ne len by (metis append_butlast_last_id zip_eq_Nil_iff)
    then have "(l, loc) = (last ls, last locs) \<or> field_before (l, loc) (last ls, last locs)"
      using that sorted by (auto simp: sorted_wrt_append)
    moreover have "slots l = 1" if "is_packable l" using that by (cases l) simp_all
    moreover have "1 \<le> slots (last ls)" using slots_pos assms(1) ne(1) by simp
    ultimately have "fst loc + slots l \<le> slot_count ls" by (auto simp: field_before_def count split: prod.splits)
    moreover have "slot_count ls \<le> 2 ^ 256" using ok lmem by (auto simp: count)
    ultimately show ?thesis by simp
  qed
  with len sorted ok show ?thesis by fast
qed

lemma sty_layout_wf: "sty_wf t \<Longrightarrow> layout_wf (sty_layout t)" and layout_of_field_wf: "field_wf f \<Longrightarrow> layout_wf (layout_of_field f)"
proof (induction t and f)
  case (Struct fs)
  obtain locs where "gen_constants (map (\<lambda>l. (l, Auto 0)) (map layout_of_field fs)) = Some locs"
    using Struct.prems by (auto simp: comp_def)
  moreover have wf: "\<forall>l \<in> set (map layout_of_field fs). layout_wf l" using Struct by auto
  ultimately have b: "length locs = length (map layout_of_field fs)"
    "\<forall>(l, loc) \<in> set (zip (map layout_of_field fs) locs). fst loc + slots l \<le> slot_count (map layout_of_field fs)"
    using layout_slots_bound by fast+
  obtain f fs' loc locs' where "fs = f # fs'" "locs = loc # locs'"
    using b(1) Struct.prems by (cases fs; cases locs) auto
  then have "slots (layout_of_field f) \<le> slot_count (map layout_of_field fs)" "layout_wf (layout_of_field f)"
    using b(2) wf by auto
  then show ?case using slots_pos by (fastforce simp: layout_wf_def)
qed (simp_all add: prim_layout_wf, simp add: layout_wf_def)

section \<open>Storing and loading agree\<close>

definition roundtrips :: "sty \<Rightarrow> bool" where
  "roundtrips t \<longleftrightarrow> (\<forall>t4 v slot \<sigma>. wt t v \<longrightarrow> (\<exists>\<sigma>'. store_ty t4 t v slot [] \<sigma> = (Inr (), [], \<sigma>')
     \<and> (\<forall>x. (\<forall>i < slots (sty_layout t). x \<noteq> slot + word_of_nat i) \<longrightarrow> \<sigma>' x = \<sigma> x)
     \<and> (\<forall>\<tau>. (\<forall>i < slots (sty_layout t). \<tau> (slot + word_of_nat i) = \<sigma>' (slot + word_of_nat i)) \<longrightarrow>
          load_ty t slot [] \<tau> = (Inr v, [], \<tau>))))"

definition item_before :: "sty \<times> nat \<times> nat \<Rightarrow> sty \<times> nat \<times> nat \<Rightarrow> bool" where
  "item_before x y \<longleftrightarrow> field_before (sty_layout (fst x), snd x) (sty_layout (fst y), snd y)"

definition item_ok :: "sty \<times> nat \<times> nat \<Rightarrow> bool" where
  "item_ok x \<longleftrightarrow> sty_wf (fst x) \<and> loc_ok (sty_layout (fst x)) (snd x)
     \<and> fst (snd x) + slots (sty_layout (fst x)) \<le> 2 ^ 256"

definition in_items :: "u256 \<Rightarrow> (sty \<times> nat \<times> nat) list \<Rightarrow> u256 \<Rightarrow> bool" where
  "in_items base items x \<longleftrightarrow> (\<exists>(t, s, off) \<in> set items. \<exists>i. s \<le> i \<and> i < s + slots (sty_layout t) \<and> x = base + word_of_nat i)"

fun shares :: "nat option \<Rightarrow> (sty \<times> nat \<times> nat) list \<Rightarrow> bool" where
  "shares (Some p) ((t, s, off) # items) = (is_packable (sty_layout t) \<and> s = p)"
| "shares _ _ = False"

lemma should_store_shares: "should_store s items = (\<not> shares (Some s) items)"
  by (cases items) auto

lemma slot_inj:
  assumes "i < 2 ^ 256" "j < 2 ^ 256" "(base :: u256) + word_of_nat i = base + word_of_nat j"
  shows "i = j"
proof -
  have "(word_of_nat i :: u256) = word_of_nat j" using assms(3) by simp
  then have "unat (word_of_nat i :: u256) = unat (word_of_nat j :: u256)" by (rule arg_cong)
  then show ?thesis using assms(1,2) by (simp add: unsigned_of_nat take_bit_nat_eq_self)
qed

lemma packable_item:
  assumes "is_packable (sty_layout t)" "item_ok (t, s, off)" "wt t v"
  obtains p w where "t = Prim p" "v = PV w" "off + prim_bytes p \<le> 32" "canonical p w" "slots (sty_layout t) = 1"
  using assms by (cases t; cases v) (auto simp: item_ok_def loc_ok_def)

lemma packed_round:
  assumes "packed_store (Prim p) (PV w) off pv = Inr u" "canonical p w"
  shows "field_of off (prim_bytes p) u = w"
    "\<And>off' n'. off' + n' \<le> off \<Longrightarrow> field_of off' n' u = field_of off' n' pv"
  using assms insert_same_field [of pv w off "prim_bytes p" u] insert_other_field [of pv w off "prim_bytes p" u]
  by (auto simp: canonical_def)

lemma packed_load_field:
  "off + prim_bytes p \<le> 32 \<Longrightarrow> field_of off (prim_bytes p) u = w \<Longrightarrow> canonical p w \<Longrightarrow>
   packed_load (Prim p) off u = Inr (PV w)"
  by (simp add: extract_field canonical_def)

text \<open>After the last field of a slot group, all further fields are in later slots.\<close>

lemma items_after:
  assumes "sorted_wrt item_before ((t, s, off) # rest)" "\<forall>x \<in> set ((t, s, off) # rest). item_ok x"
    "\<not> shares (Some s) rest" "(t', s', off') \<in> set rest"
  shows "s + slots (sty_layout t) \<le> s'"
proof (cases rest)
  case (Cons h rest')
  obtain th sh offh where h: "h = (th, sh, offh)" by (cases h)
  have th: "s + slots (sty_layout t) \<le> sh"
    using assms(1,3) by (auto simp: Cons h item_before_def field_before_def)
  have "1 \<le> slots (sty_layout t)" "1 \<le> slots (sty_layout th)"
    using assms(2) sty_layout_wf slots_pos by (auto simp: Cons h item_ok_def)
  then show ?thesis using th assms(1,4) by (auto simp: Cons h item_before_def field_before_def)
qed (use assms(4) in simp)

lemma items_disjoint:
  assumes "sorted_wrt item_before ((t, s, off) # rest)" "\<forall>x \<in> set ((t, s, off) # rest). item_ok x"
    "\<not> shares (Some s) rest" "s \<le> i" "i < s + slots (sty_layout t)"
  shows "\<not> in_items base rest (base + word_of_nat i)"
proof
  assume "in_items base rest (base + word_of_nat i)"
  then obtain t' s' off' j where j: "(t', s', off') \<in> set rest" "s' \<le> j" "j < s' + slots (sty_layout t')"
    "base + word_of_nat i = base + word_of_nat j" by (auto simp: in_items_def)
  have "i < 2 ^ 256" "j < 2 ^ 256" using assms(2,5) j(1,3) by (force simp: item_ok_def)+
  then have "i = j" using j(4) slot_inj by blast
  moreover have "s + slots (sty_layout t) \<le> s'" using assms(1-3) j(1) by (rule items_after)
  ultimately show False using assms(5) j(2) by simp
qed

lemma pc_lift_Inr [simp]: "pc_lift (Inr x) = pc_return x"
  by (simp add: pc_lift_def)

text \<open>What storing the fields from some field on achieves: nothing outside their slots changes, loading gives
  the values back from any storage that agrees on these slots, and the fields packed before into a pending
  word survive in it.\<close>

definition stored_fields :: "u256 \<Rightarrow> nat option \<Rightarrow> (sty \<times> nat \<times> nat) list \<Rightarrow> sval list \<Rightarrow> u256 \<Rightarrow> storage \<Rightarrow> storage \<Rightarrow> bool" where
  "stored_fields base prev items vs pv \<sigma> \<sigma>' \<longleftrightarrow>
     (\<forall>x. \<not> in_items base items x \<longrightarrow> \<sigma>' x = \<sigma> x)
     \<and> (\<forall>\<tau> cached. (\<forall>x. in_items base items x \<longrightarrow> \<tau> x = \<sigma>' x) \<longrightarrow>
          (shares prev items \<longrightarrow> cached = \<tau> (base + word_of_nat (the prev))) \<longrightarrow>
          load_fields base prev items cached [] \<tau> = (Inr vs, [], \<tau>))
     \<and> (shares prev items \<longrightarrow> (\<forall>off' n'. off' + n' \<le> snd (snd (hd items)) \<longrightarrow>
          field_of off' n' (\<sigma>' (base + word_of_nat (the prev))) = field_of off' n' pv))"

lemma in_items_Cons:
  "in_items base ((t, s, off) # rest) x \<longleftrightarrow>
   (\<exists>i. s \<le> i \<and> i < s + slots (sty_layout t) \<and> x = base + word_of_nat i) \<or> in_items base rest x"
  by (auto simp: in_items_def)

text \<open>A packed field followed by the fields of its slot group or by the end of the group.\<close>

lemma stored_packed:
  assumes sorted: "sorted_wrt item_before ((Prim p, s, off) # rest)" and ok: "\<forall>x \<in> set ((Prim p, s, off) # rest). item_ok x"
    and packable: "prim_bytes p < 32" and off: "off + prim_bytes p \<le> 32" and can: "canonical p w"
    and ins: "packed_store (Prim p) (PV w) off pv0 = Inr pv"
    and rest: "stored_fields base (Some s) rest vs pv (if shares (Some s) rest then \<sigma> else \<sigma>(base + word_of_nat s := pv)) \<sigma>'"
  shows "field_of off (prim_bytes p) (\<sigma>' (base + word_of_nat s)) = w"
    "\<And>off' n'. off' + n' \<le> off \<Longrightarrow> field_of off' n' (\<sigma>' (base + word_of_nat s)) = field_of off' n' pv0"
    "\<And>x. \<not> in_items base ((Prim p, s, off) # rest) x \<Longrightarrow> \<sigma>' x = \<sigma> x"
    "\<And>\<tau>. (\<forall>x. in_items base ((Prim p, s, off) # rest) x \<longrightarrow> \<tau> x = \<sigma>' x) \<Longrightarrow>
       packed_load (Prim p) off (\<tau> (base + word_of_nat s)) = Inr (PV w)
       \<and> load_fields base (Some s) rest (\<tau> (base + word_of_nat s)) [] \<tau> = (Inr vs, [], \<tau>)"
proof -
  let ?slot = "base + word_of_nat s"
  have keep: "field_of off' n' (\<sigma>' ?slot) = field_of off' n' pv" if "off' + n' \<le> off + prim_bytes p" for off' n'
  proof (cases "shares (Some s) rest")
    case True
    then obtain t' off'' rest' where r: "rest = (t', s, off'') # rest'" "is_packable (sty_layout t')"
      by (cases rest) auto
    then have "off + prim_bytes p \<le> off''"
      using sorted ok slots_pos [OF sty_layout_wf] by (fastforce simp: item_before_def field_before_def item_ok_def)
    then show ?thesis using rest True r that by (simp add: stored_fields_def)
  next
    case False
    have "\<not> in_items base rest ?slot" using sorted ok False by (rule items_disjoint) simp_all
    then show ?thesis using rest False by (simp add: stored_fields_def)
  qed
  show f: "field_of off (prim_bytes p) (\<sigma>' ?slot) = w" using keep packed_round(1) [OF ins can] by simp
  show "field_of off' n' (\<sigma>' ?slot) = field_of off' n' pv0" if "off' + n' \<le> off" for off' n'
    using keep packed_round(2) [OF ins can that] that by simp
  show "\<sigma>' x = \<sigma> x" if "\<not> in_items base ((Prim p, s, off) # rest) x" for x
  proof -
    have "x \<noteq> ?slot" "\<not> in_items base rest x" using that by (auto simp: in_items_Cons)
    then show ?thesis using rest by (auto simp: stored_fields_def split: if_splits)
  qed
  show "packed_load (Prim p) off (\<tau> ?slot) = Inr (PV w) \<and> load_fields base (Some s) rest (\<tau> ?slot) [] \<tau> = (Inr vs, [], \<tau>)"
    if \<tau>: "\<forall>x. in_items base ((Prim p, s, off) # rest) x \<longrightarrow> \<tau> x = \<sigma>' x" for \<tau>
  proof -
    have "in_items base ((Prim p, s, off) # rest) ?slot" by (auto simp: in_items_Cons)
    then have "\<tau> ?slot = \<sigma>' ?slot" using \<tau> by blast
    then have "packed_load (Prim p) off (\<tau> ?slot) = Inr (PV w)" using packed_load_field [OF off _ can] f by simp
    moreover have "load_fields base (Some s) rest (\<tau> ?slot) [] \<tau> = (Inr vs, [], \<tau>)"
      using rest \<tau> unfolding stored_fields_def in_items_Cons by simp
    ultimately show ?thesis by simp
  qed
qed

lemma stored_packed_fields:
  assumes "sorted_wrt item_before ((Prim p, s, off) # rest)" "\<forall>x \<in> set ((Prim p, s, off) # rest). item_ok x"
    and "prim_bytes p < 32" "off + prim_bytes p \<le> 32" "canonical p w"
    and "packed_store (Prim p) (PV w) off pv0 = Inr pv"
    and "stored_fields base (Some s) rest vs pv (if shares (Some s) rest then \<sigma> else \<sigma>(base + word_of_nat s := pv)) \<sigma>'"
    and "prev = Some s \<Longrightarrow> pv0 = pv'"
  shows "stored_fields base prev ((Prim p, s, off) # rest) (PV w # vs) pv' \<sigma> \<sigma>'"
  unfolding stored_fields_def
proof (intro conjI allI impI)
  note facts = stored_packed [OF assms(1-7)]
  show "\<sigma>' y = \<sigma> y" if "\<not> in_items base ((Prim p, s, off) # rest) y" for y using facts(3) that .
  show "load_fields base prev ((Prim p, s, off) # rest) cached [] \<tau> = (Inr (PV w # vs), [], \<tau>)"
    if "\<forall>y. in_items base ((Prim p, s, off) # rest) y \<longrightarrow> \<tau> y = \<sigma>' y"
      "shares prev ((Prim p, s, off) # rest) \<longrightarrow> cached = \<tau> (base + word_of_nat (the prev))" for \<tau> cached
    using facts(4) [of \<tau>] that assms(3) by (auto simp: s_load_def pc_bind_Inr simp del: packed_load.simps)
  show "field_of off' n' (\<sigma>' (base + word_of_nat (the prev))) = field_of off' n' pv'"
    if "shares prev ((Prim p, s, off) # rest)" "off' + n' \<le> snd (snd (hd ((Prim p, s, off) # rest)))" for off' n'
  proof -
    have "prev = Some s" using that(1) by (cases prev) auto
    then show ?thesis using facts(2) [of off' n'] that(2) assms(8) by simp
  qed
qed

text \<open>A field that fills its slots, followed by fields in later slots.\<close>

lemma stored_whole:
  assumes sorted: "sorted_wrt item_before ((t, s, off) # rest)" and ok: "\<forall>x \<in> set ((t, s, off) # rest). item_ok x"
    and whole: "\<not> is_packable (sty_layout t)" and nos: "\<not> shares (Some s) rest"
    and frame: "\<forall>y. (\<forall>i < slots (sty_layout t). y \<noteq> base + word_of_nat s + word_of_nat i) \<longrightarrow> \<sigma>1 y = \<sigma> y"
    and load: "\<forall>\<tau>. (\<forall>i < slots (sty_layout t). \<tau> (base + word_of_nat s + word_of_nat i) = \<sigma>1 (base + word_of_nat s + word_of_nat i)) \<longrightarrow>
          load_ty t (base + word_of_nat s) [] \<tau> = (Inr v, [], \<tau>)"
    and st: "stored_fields base (Some s) rest vs pv \<sigma>1 \<sigma>'"
  shows "stored_fields base prev ((t, s, off) # rest) (v # vs) pv \<sigma> \<sigma>'"
  unfolding stored_fields_def
proof (intro conjI allI impI)
  have idx: "base + word_of_nat s + word_of_nat i = base + word_of_nat (s + i)" for i by (simp add: add.assoc)
  have mine: "\<sigma>' (base + word_of_nat (s + i)) = \<sigma>1 (base + word_of_nat (s + i))" if "i < slots (sty_layout t)" for i
    using items_disjoint [OF sorted ok nos, of "s + i"] that st by (simp add: stored_fields_def)
  show "\<sigma>' y = \<sigma> y" if "\<not> in_items base ((t, s, off) # rest) y" for y
  proof -
    have "\<not> in_items base rest y" "\<forall>i < slots (sty_layout t). y \<noteq> base + word_of_nat s + word_of_nat i"
      using that unfolding in_items_Cons idx by (blast, metis le_add1 nat_add_left_cancel_less)
    then show ?thesis using st frame by (simp add: stored_fields_def)
  qed
  show "load_fields base prev ((t, s, off) # rest) cached [] \<tau> = (Inr (v # vs), [], \<tau>)"
    if \<tau>: "\<forall>y. in_items base ((t, s, off) # rest) y \<longrightarrow> \<tau> y = \<sigma>' y" for \<tau> cached
  proof -
    have "\<tau> (base + word_of_nat (s + i)) = \<sigma>1 (base + word_of_nat (s + i))" if "i < slots (sty_layout t)" for i
    proof -
      have "in_items base ((t, s, off) # rest) (base + word_of_nat (s + i))"
        using that unfolding in_items_Cons by (auto intro!: exI [of _ "s + i"])
      then show ?thesis using \<tau> mine [OF that] by simp
    qed
    then have "load_ty t (base + word_of_nat s) [] \<tau> = (Inr v, [], \<tau>)" using load unfolding idx by blast
    moreover have "load_fields base (Some s) rest cached [] \<tau> = (Inr vs, [], \<tau>)"
      using st \<tau> nos unfolding stored_fields_def in_items_Cons by simp
    ultimately show ?thesis using whole by (simp add: pc_bind_Inr)
  qed
  show "field_of off' n' (\<sigma>' (base + word_of_nat (the prev))) = field_of off' n' pv"
    if "shares prev ((t, s, off) # rest)" for off' n'
    using that whole by (cases prev) auto
qed

lemma store_fields_ok:
  assumes "sorted_wrt item_before items" "\<forall>x \<in> set items. item_ok x \<and> roundtrips (fst x)"
    and "list_all2 (\<lambda>x v. wt (fst x) v) items vs" "po = (if shares prev items then prev else None)"
  shows "\<exists>\<sigma>'. store_fields t4 base prev items vs pv po [] \<sigma> = (Inr (), [], \<sigma>')
    \<and> stored_fields base prev items vs pv \<sigma> \<sigma>'"
  using assms
proof (induction items arbitrary: prev vs pv po \<sigma>)
  case Nil
  then show ?case by (auto simp: stored_fields_def)
next
  case (Cons x rest)
  obtain t s off where x: "x = (t, s, off)" by (cases x)
  obtain v vs' where vs: "vs = v # vs'" "wt t v" "list_all2 (\<lambda>x v. wt (fst x) v) rest vs'"
    using Cons.prems(3) by (auto simp: x list_all2_Cons1)
  have sorted: "sorted_wrt item_before ((t, s, off) # rest)" "sorted_wrt item_before rest"
    using Cons.prems(1) by (simp_all add: x)
  have ok: "\<forall>y \<in> set ((t, s, off) # rest). item_ok y" "\<forall>y \<in> set rest. item_ok y \<and> roundtrips (fst y)" "roundtrips t"
    using Cons.prems(2) by (simp_all add: x)
  note IH = Cons.IH [OF sorted(2) ok(2) vs(3)]
  show ?case
  proof (cases "is_packable (sty_layout t)")
    case True
    with vs(2) ok(1) obtain p w where p: "t = Prim p" "v = PV w" "off + prim_bytes p \<le> 32" "canonical p w" "slots (sty_layout t) = 1"
      using packable_item [OF True, of s off v] by auto
    have pb: "prim_bytes p < 32" using True p(1) by simp
    define share where "share = (prev = Some s)"
    define pv0 where "pv0 = (if share then pv else if t4 then 0 else \<sigma> (base + word_of_nat s))"
    obtain pv1 where ins: "packed_store (Prim p) (PV w) off pv0 = Inr pv1"
      using insert_into_word_ok [OF p(3)] by auto
    let ?\<sigma> = "if shares (Some s) rest then \<sigma> else \<sigma>(base + word_of_nat s := pv1)"
    let ?po = "if shares (Some s) rest then Some s else None"
    obtain \<sigma>' where run: "store_fields t4 base (Some s) rest vs' pv1 ?po [] ?\<sigma> = (Inr (), [], \<sigma>')"
      and st: "stored_fields base (Some s) rest vs' pv1 ?\<sigma> \<sigma>'" using IH [of ?po "Some s" pv1 ?\<sigma>] by auto
    have "shares prev (x # rest) = share" using True by (cases prev) (auto simp: x share_def)
    then have po: "po = (if share then Some s else None)" using Cons.prems(4) by (simp add: share_def)
    have "store_fields t4 base prev (x # rest) vs pv po [] \<sigma> = (Inr (), [], \<sigma>')"
      using True run ins unfolding po
      by (auto simp: x vs(1) p(1,2) should_store_shares share_def pv0_def commit_pending_def s_load_def s_store_def
          simp del: packed_store.simps)
    moreover have "stored_fields base prev (x # rest) vs pv \<sigma> \<sigma>'"
      using stored_packed_fields [OF sorted(1) [unfolded p(1)] ok(1) [unfolded p(1)] pb p(3,4) ins st, of prev pv]
      by (simp add: x p(1,2) vs(1) pv0_def share_def)
    ultimately show ?thesis by blast
  next
    case False
    obtain \<sigma>1 where one: "store_ty t4 t v (base + word_of_nat s) [] \<sigma> = (Inr (), [], \<sigma>1)"
      "\<forall>y. (\<forall>i < slots (sty_layout t). y \<noteq> base + word_of_nat s + word_of_nat i) \<longrightarrow> \<sigma>1 y = \<sigma> y"
      "\<forall>\<tau>. (\<forall>i < slots (sty_layout t). \<tau> (base + word_of_nat s + word_of_nat i) = \<sigma>1 (base + word_of_nat s + word_of_nat i)) \<longrightarrow>
          load_ty t (base + word_of_nat s) [] \<tau> = (Inr v, [], \<tau>)"
      using ok(3) vs(2) unfolding roundtrips_def by blast
    have nos: "\<not> shares (Some s) rest"
      using sorted(1) False slots_pos [OF sty_layout_wf, of t] ok(1)
      by (cases rest) (auto simp: item_before_def field_before_def item_ok_def)
    obtain \<sigma>' where run: "store_fields t4 base (Some s) rest vs' pv None [] \<sigma>1 = (Inr (), [], \<sigma>')"
      and st: "stored_fields base (Some s) rest vs' pv \<sigma>1 \<sigma>'" using IH [of None "Some s" pv \<sigma>1] nos by auto
    have po: "po = None" using Cons.prems(4) False by (cases prev) (auto simp: x)
    have "store_fields t4 base prev (x # rest) vs pv po [] \<sigma> = (Inr (), [], \<sigma>')"
      using False run one(1) by (simp add: x vs(1) po commit_pending_def pc_then_Inr)
    moreover have "stored_fields base prev (x # rest) vs pv \<sigma> \<sigma>'"
      unfolding x vs(1) using sorted(1) ok(1) False nos one(2,3) st by (rule stored_whole)
    ultimately show ?thesis by blast
  qed
qed

lemma direct_fields_items:
  assumes "length locs = length fs" "sorted_wrt field_before (zip (map layout_of_field fs) locs)" "\<forall>f \<in> set fs. field_wf f"
    and "\<forall>(l, loc) \<in> set (zip (map layout_of_field fs) locs). loc_ok l loc \<and> fst loc + slots l \<le> N"
  shows "sorted_wrt item_before (direct_fields fs locs)
    \<and> (\<forall>x \<in> set (direct_fields fs locs). Direct (fst x) \<in> set fs \<and> sty_wf (fst x)
         \<and> loc_ok (sty_layout (fst x)) (snd x) \<and> fst (snd x) + slots (sty_layout (fst x)) \<le> N
         \<and> (sty_layout (fst x), snd x) \<in> set (zip (map layout_of_field fs) locs))"
  using assms
proof (induction fs locs rule: direct_fields.induct)
  case (1 t fs loc locs)
  then have IH: "sorted_wrt item_before (direct_fields fs locs)"
    "\<forall>x \<in> set (direct_fields fs locs). Direct (fst x) \<in> set fs \<and> sty_wf (fst x)
         \<and> loc_ok (sty_layout (fst x)) (snd x) \<and> fst (snd x) + slots (sty_layout (fst x)) \<le> N
         \<and> (sty_layout (fst x), snd x) \<in> set (zip (map layout_of_field fs) locs)" by auto
  then have "\<forall>x \<in> set (direct_fields fs locs). item_before (t, loc) x"
    using 1(3) by (auto simp: item_before_def)
  with IH 1 show ?case by auto
qed auto

lemma wts_Nil [simp]: "wts [] vs \<longleftrightarrow> vs = []"
  by (cases vs) simp_all

lemma wts_items:
  "length locs = length fs \<Longrightarrow> wts fs vs \<Longrightarrow> list_all2 (\<lambda>x v. wt (fst x) v) (direct_fields fs locs) vs"
proof (induction fs locs arbitrary: vs rule: direct_fields.induct)
  case (1 t fs loc locs)
  then show ?case by (cases vs) auto
qed auto

lemma struct_items:
  assumes "sty_wf (Struct fs)"
  defines "items \<equiv> direct_fields fs (struct_locs fs)"
  shows "length (struct_locs fs) = length fs" "sorted_wrt item_before items"
    "\<forall>x \<in> set items. item_ok x \<and> Direct (fst x) \<in> set fs"
    "\<forall>x \<in> set items. fst (snd x) + slots (sty_layout (fst x)) \<le> slots (sty_layout (Struct fs))"
    "slots (sty_layout (Struct fs)) \<le> 2 ^ 256"
proof -
  let ?ls = "map layout_of_field fs"
  obtain locs where locs: "gen_constants (map (\<lambda>l. (l, Auto 0)) ?ls) = Some locs" using assms(1) by (auto simp: comp_def)
  then have sl: "struct_locs fs = locs" by (simp add: struct_locs_def comp_def)
  have wf: "\<forall>l \<in> set ?ls. layout_wf l" using assms(1) layout_of_field_wf by auto
  note b = layout_slots_bound [OF wf locs]
  then show "length (struct_locs fs) = length fs" by (simp add: sl)
  obtain f fs' loc locs' where "fs = f # fs'" "locs = loc # locs'"
    using b assms(1) by (cases fs; cases locs) auto
  then show "slots (sty_layout (Struct fs)) \<le> 2 ^ 256" using b by auto
  have bound: "\<forall>(l, loc) \<in> set (zip ?ls locs). loc_ok l loc \<and> fst loc + slots l \<le> slot_count ?ls" using b by auto
  have "\<forall>(l, loc) \<in> set (zip ?ls locs). fst loc + slots l \<le> 2 ^ 256" using b by fastforce
  with direct_fields_items [of locs fs "slot_count ?ls"] b bound assms(1)
  show "sorted_wrt item_before items" "\<forall>x \<in> set items. item_ok x \<and> Direct (fst x) \<in> set fs"
    "\<forall>x \<in> set items. fst (snd x) + slots (sty_layout (fst x)) \<le> slots (sty_layout (Struct fs))"
    by (auto simp: items_def sl item_ok_def)
qed

lemma in_struct:
  assumes "sty_wf (Struct fs)" "in_items base (direct_fields fs (struct_locs fs)) x"
  shows "\<exists>i < slots (sty_layout (Struct fs)). x = base + word_of_nat i"
proof -
  obtain t s off i where i: "(t, s, off) \<in> set (direct_fields fs (struct_locs fs))" "s \<le> i"
      "i < s + slots (sty_layout t)" "x = base + word_of_nat i"
    using assms(2) by (auto simp: in_items_def)
  then have "s + slots (sty_layout t) \<le> slots (sty_layout (Struct fs))" using struct_items(4) [OF assms(1)] by fastforce
  then show ?thesis using i by (intro exI [of _ i]) simp
qed

lemma roundtrips_all: "sty_wf t \<Longrightarrow> roundtrips t" and "\<And>t. f = Direct t \<Longrightarrow> sty_wf t \<Longrightarrow> roundtrips t"
proof (induction t and f)
  case (Prim p)
  have "load_ty (Prim p) slot [] \<tau> = (Inr (PV w), [], \<tau>)" if "canonical p w" "\<tau> slot = w" for slot \<tau> w
    using that by (simp add: load_prim_def s_load_def canonical_def)
  moreover have "store_ty t4 (Prim p) (PV w) slot [] \<sigma> = (Inr (), [], \<sigma>(slot := w))" for t4 slot w \<sigma>
    by (simp add: store_prim_def s_store_def)
  ultimately show ?case by (auto simp: roundtrips_def elim!: wt.elims(2))
next
  case (Struct fs)
  let ?items = "direct_fields fs (struct_locs fs)"
  note st = struct_items [OF Struct.prems]
  have "\<forall>x \<in> set ?items. item_ok x \<and> roundtrips (fst x)"
    using st(3) Struct by (auto simp: item_ok_def)
  note run = store_fields_ok [OF st(2) this]
  show ?case unfolding roundtrips_def
  proof (intro allI impI)
    fix t4 v slot and \<sigma> :: storage
    assume "wt (Struct fs) v"
    then obtain vs where v: "v = SV vs" "wts fs vs" by (auto elim!: wt.elims(2))
    obtain \<sigma>' where \<sigma>': "store_fields t4 slot None ?items vs 0 None [] \<sigma> = (Inr (), [], \<sigma>')"
      "stored_fields slot None ?items vs 0 \<sigma> \<sigma>'"
      using run [OF wts_items [OF st(1) v(2)], of None None t4 slot 0 \<sigma>] by auto
    show "\<exists>\<sigma>'. store_ty t4 (Struct fs) v slot [] \<sigma> = (Inr (), [], \<sigma>')
     \<and> (\<forall>x. (\<forall>i < slots (sty_layout (Struct fs)). x \<noteq> slot + word_of_nat i) \<longrightarrow> \<sigma>' x = \<sigma> x)
     \<and> (\<forall>\<tau>. (\<forall>i < slots (sty_layout (Struct fs)). \<tau> (slot + word_of_nat i) = \<sigma>' (slot + word_of_nat i)) \<longrightarrow>
          load_ty (Struct fs) slot [] \<tau> = (Inr v, [], \<tau>))"
    proof (intro exI conjI allI impI)
      show "store_ty t4 (Struct fs) v slot [] \<sigma> = (Inr (), [], \<sigma>')" using \<sigma>'(1) by (simp add: v(1))
      show "\<sigma>' x = \<sigma> x" if "\<forall>i < slots (sty_layout (Struct fs)). x \<noteq> slot + word_of_nat i" for x
        using \<sigma>'(2) in_struct [OF Struct.prems, of slot x] that by (auto simp: stored_fields_def)
      show "load_ty (Struct fs) slot [] \<tau> = (Inr v, [], \<tau>)"
        if "\<forall>i < slots (sty_layout (Struct fs)). \<tau> (slot + word_of_nat i) = \<sigma>' (slot + word_of_nat i)" for \<tau>
      proof -
        have "load_fields slot None ?items 0 [] \<tau> = (Inr vs, [], \<tau>)"
          using \<sigma>'(2) in_struct [OF Struct.prems, of slot] that unfolding stored_fields_def by (metis shares.simps(2))
        then show ?thesis by (simp add: v(1) pc_bind_Inr)
      qed
    qed
  qed
next
  case (Direct t)
  then show ?case by simp
qed simp

text \<open>C16: what is stored is what is loaded. For every struct type built from single-word types, nested structs
  and mappings whose layout compiles, storing a value, before or after the T4 change of the store, and
  loading it back gives the value, and no slot outside the struct's own slots changes, whatever the storage
  held before.\<close>

theorem storable_round_trip:
  assumes "sty_wf t" "wt t v"
  shows "\<exists>\<sigma>'. store_ty t4 t v slot [] \<sigma> = (Inr (), [], \<sigma>') \<and> load_ty t slot [] \<sigma>' = (Inr v, [], \<sigma>')
    \<and> (\<forall>x. (\<forall>i < slots (sty_layout t). x \<noteq> slot + word_of_nat i) \<longrightarrow> \<sigma>' x = \<sigma> x)"
  using roundtrips_all [OF assms(1)] assms(2) unfolding roundtrips_def by blast

definition sample_sty :: sty where
  "sample_sty = Struct [Direct (Prim (UInt 8)), MapField, Direct (Prim BoolT),
     Direct (Struct [Direct (Prim (UInt 16)), Direct (Prim (UInt 16))]), Direct (Prim AddressT)]"

definition sample_val :: sval where
  "sample_val = SV [PV 77, PV 1, SV [PV 5, PV 6], PV 9]"

theorem storable_round_trip_witness:
  "slots (sty_layout sample_sty) = 5 \<and> (\<exists>\<sigma>'. store_ty True sample_sty sample_val 100 [] (\<lambda>_. - 1) = (Inr (), [], \<sigma>')
    \<and> load_ty sample_sty 100 [] \<sigma>' = (Inr sample_val, [], \<sigma>') \<and> \<sigma>' 99 = - 1)"
proof -
  have wf: "sty_wf sample_sty" and n: "slots (sty_layout sample_sty) = 5"
    by (simp_all add: sample_sty_def gen_constants_def slot_fits_def next_loc_def slot_count_def Let_def)
  have "wt sample_sty sample_val"
    by (simp add: sample_sty_def sample_val_def canonical_def int_from_word_def take_bit_eq_mod)
  moreover have "(99 :: u256) \<noteq> 100 + word_of_nat i" if "i < 5" for i
  proof -
    have "i = 0 \<or> i = 1 \<or> i = 2 \<or> i = 3 \<or> i = 4" using that by arith
    then show ?thesis by auto
  qed
  ultimately show ?thesis
    using storable_round_trip [OF wf, of sample_val True 100 "\<lambda>_. - 1"] n by auto
qed


section \<open>Single fields\<close>

text \<open>The handler of a struct field accesses the field alone: packed if the field shares its slot with a
  neighbour, as a full slot otherwise.\<close>

definition field_ctx :: "field list \<Rightarrow> nat \<Rightarrow> nat option" where
  "field_ctx fs i = (let locs = struct_locs fs in
     if ((0 < i \<and> fst (locs ! i) = fst (locs ! (i - 1)))
         \<or> (i + 1 < length fs \<and> fst (locs ! i) = fst (locs ! (i + 1))))
        \<and> is_packable (layout_of_field (fs ! i))
     then Some (snd (locs ! i)) else None)"

definition field_write :: "field list \<Rightarrow> prim \<Rightarrow> u256 \<Rightarrow> nat \<Rightarrow> u256 \<Rightarrow> (storage, unit) pc" where
  "field_write fs p base i v = store_prim p v (base + word_of_nat (fst (struct_locs fs ! i))) (field_ctx fs i)"

definition field_read :: "field list \<Rightarrow> prim \<Rightarrow> u256 \<Rightarrow> nat \<Rightarrow> (storage, sval) pc" where
  "field_read fs p base i = load_prim p (base + word_of_nat (fst (struct_locs fs ! i))) (field_ctx fs i)"

text \<open>Loading a struct reads each field by itself; the cached word only saves accesses.\<close>

definition reads_item :: "u256 \<Rightarrow> storage \<Rightarrow> sty \<times> nat \<times> nat \<Rightarrow> sval \<Rightarrow> bool" where
  "reads_item base \<tau> x v \<longleftrightarrow> (case x of (t, s, off) \<Rightarrow>
     if is_packable (sty_layout t) then packed_load t off (\<tau> (base + word_of_nat s)) = Inr v
     else load_ty t (base + word_of_nat s) [] \<tau> = (Inr v, [], \<tau>))"

lemma reads_item_simp:
  "reads_item base \<tau> (t, s, off) v \<longleftrightarrow>
    (if is_packable (sty_layout t) then packed_load t off (\<tau> (base + word_of_nat s)) = Inr v
     else load_ty t (base + word_of_nat s) [] \<tau> = (Inr v, [], \<tau>))"
  by (simp add: reads_item_def)

definition quiet :: "('s, 'a) pc \<Rightarrow> bool" where
  "quiet m \<longleftrightarrow> (\<forall>\<tau>. \<exists>r. m [] \<tau> = (r, [], \<tau>))"

lemma quiet_basic: "quiet (pc_return x)" "quiet (pc_throw e)" "quiet (pc_read g)" "quiet (pc_lift r)"
proof -
  show "quiet (pc_lift r)" by (cases r) (simp_all add: quiet_def pc_lift_def)
qed (simp_all add: quiet_def)

lemma quiet_bind:
  assumes "quiet m" "\<And>x. quiet (k x)"
  shows "quiet (pc_bind m k)"
  unfolding quiet_def
proof
  fix \<tau>
  obtain r where "m [] \<tau> = (r, [], \<tau>)" using assms(1) by (auto simp: quiet_def)
  then show "\<exists>r. pc_bind m k [] \<tau> = (r, [], \<tau>)"
    using assms(2) by (cases r) (auto simp: pc_bind_def quiet_def)
qed

lemma load_quiet: "quiet (load_ty t slot)" and load_fields_quiet: "quiet (load_fields base prev items cached)"
proof (induction t slot and base prev items cached rule: load_ty_load_fields.induct)
  case (4 base prev t s off rest cached)
  then show ?case
    by (cases "is_packable (sty_layout t)"; cases "prev = Some s")
      (auto simp: s_load_def simp del: pc_return_run intro!: quiet_bind quiet_basic)
qed (simp_all add: load_prim_def s_load_def quiet_bind quiet_basic del: pc_return_run)

lemma quiet_bind_Inr:
  assumes "quiet m"
  shows "pc_bind m k [] \<tau> = (Inr y, [], \<tau>) \<longleftrightarrow> (\<exists>x. m [] \<tau> = (Inr x, [], \<tau>) \<and> k x [] \<tau> = (Inr y, [], \<tau>))"
proof -
  obtain r where "m [] \<tau> = (r, [], \<tau>)" using assms by (auto simp: quiet_def)
  then show ?thesis by (cases r) (auto simp: pc_bind_def)
qed

lemma load_fields_iff:
  assumes "sorted_wrt item_before items" "\<forall>x \<in> set items. item_ok x"
    "shares prev items \<longrightarrow> cached = \<tau> (base + word_of_nat (the prev))"
  shows "load_fields base prev items cached [] \<tau> = (Inr vs, [], \<tau>) \<longleftrightarrow> list_all2 (reads_item base \<tau>) items vs"
  using assms
proof (induction items arbitrary: prev cached vs)
  case (Cons x rest)
  obtain t s off where x: "x = (t, s, off)" by (cases x)
  let ?w = "\<tau> (base + word_of_nat s)"
  have rest: "load_fields base (Some s) rest c [] \<tau> = (Inr us, [], \<tau>) \<longleftrightarrow> list_all2 (reads_item base \<tau>) rest us"
    if "shares (Some s) rest \<longrightarrow> c = ?w" for c us
    using Cons.IH [of "Some s" c us] Cons.prems that by simp
  have nos: "\<not> shares (Some s) rest" if "\<not> is_packable (sty_layout t)"
    using Cons.prems(1,2) that slots_pos [OF sty_layout_wf, of t]
    by (cases rest) (auto simp: x item_before_def field_before_def item_ok_def)
  have lift: "pc_lift r [] \<tau> = (Inr v, [], \<tau>) \<longleftrightarrow> r = Inr v" for r :: "TempoPrecompileError + sval" and v
    by (cases r) (simp_all add: pc_lift_def)
  note q = quiet_bind_Inr [OF load_quiet] quiet_bind_Inr [OF load_fields_quiet] quiet_bind_Inr [OF quiet_basic(4)]
  show ?case
  proof (cases "is_packable (sty_layout t)")
    case True
    have "prev = Some s \<Longrightarrow> cached = ?w" using Cons.prems(3) True by (auto simp: x)
    then show ?thesis
      using True rest by (auto simp: x reads_item_simp s_load_def q lift list_all2_Cons1)
  next
    case False
    then show ?thesis using rest nos by (auto simp: x reads_item_simp q list_all2_Cons1)
  qed
qed (auto simp: list_all2_Nil)

text \<open>A load looks at the slots of its own type only.\<close>

lemma reads_item_local:
  assumes "item_ok x" "reads_item base \<sigma> x v" "\<And>y. in_items base [x] y \<Longrightarrow> \<tau> y = \<sigma> y"
    and local: "\<And>slot. load_ty (fst x) slot [] \<sigma> = (Inr v, [], \<sigma>) \<Longrightarrow>
      (\<And>i. i < slots (sty_layout (fst x)) \<Longrightarrow> \<tau> (slot + word_of_nat i) = \<sigma> (slot + word_of_nat i)) \<Longrightarrow>
      load_ty (fst x) slot [] \<tau> = (Inr v, [], \<tau>)"
  shows "reads_item base \<tau> x v"
proof -
  obtain t s off where x: "x = (t, s, off)" by (cases x)
  have pos: "1 \<le> slots (sty_layout t)" using assms(1) sty_layout_wf slots_pos by (auto simp: x item_ok_def)
  have mine: "\<tau> (base + word_of_nat (s + i)) = \<sigma> (base + word_of_nat (s + i))" if "i < slots (sty_layout t)" for i
  proof (rule assms(3))
    show "in_items base [x] (base + word_of_nat (s + i))"
      using that unfolding x in_items_Cons by (metis le_add1 nat_add_left_cancel_less)
  qed
  show ?thesis
  proof (cases "is_packable (sty_layout t)")
    case True
    then show ?thesis using assms(2) mine [of 0] pos by (simp add: x reads_item_simp)
  next
    case False
    have "load_ty t (base + word_of_nat s) [] \<tau> = (Inr v, [], \<tau>)"
      using assms(2) False mine by (intro local [unfolded x fst_conv]) (simp_all add: x reads_item_simp add.assoc)
    then show ?thesis using False by (simp add: x reads_item_simp)
  qed
qed

lemma load_local:
  "sty_wf t \<Longrightarrow> load_ty t slot [] \<sigma> = (Inr v, [], \<sigma>) \<Longrightarrow>
   (\<And>i. i < slots (sty_layout t) \<Longrightarrow> \<tau> (slot + word_of_nat i) = \<sigma> (slot + word_of_nat i)) \<Longrightarrow>
   load_ty t slot [] \<tau> = (Inr v, [], \<tau>)"
  and "\<And>t. f = Direct t \<Longrightarrow> sty_wf t \<Longrightarrow> load_ty t slot [] \<sigma> = (Inr v, [], \<sigma>) \<Longrightarrow>
   (\<And>i. i < slots (sty_layout t) \<Longrightarrow> \<tau> (slot + word_of_nat i) = \<sigma> (slot + word_of_nat i)) \<Longrightarrow>
   load_ty t slot [] \<tau> = (Inr v, [], \<tau>)"
proof (induction t and f arbitrary: slot v and slot v)
  case (Prim p)
  then have "\<tau> slot = \<sigma> slot" using Prim.prems(3) [of 0] by simp
  moreover obtain w where "v = PV w" "from_word p (\<sigma> slot) = Inr w"
    using Prim.prems(2)
    by (auto simp: load_prim_def s_load_def quiet_bind_Inr [OF quiet_basic(4)] pc_lift_def split: sum.splits)
  ultimately show ?case by (simp add: load_prim_def s_load_def)
next
  case (Struct fs)
  let ?items = "direct_fields fs (struct_locs fs)"
  note st = struct_items [OF Struct.prems(1)]
  have ok: "\<forall>x \<in> set ?items. item_ok x" using st(3) by simp
  obtain vs where vs: "v = SV vs" "load_fields slot None ?items 0 [] \<sigma> = (Inr vs, [], \<sigma>)"
    using Struct.prems(2) by (auto simp: quiet_bind_Inr [OF load_fields_quiet])
  have reads: "list_all2 (reads_item slot \<sigma>) ?items vs" using vs(2) load_fields_iff [OF st(2) ok] by simp
  have "reads_item slot \<tau> x u" if "x \<in> set ?items" "reads_item slot \<sigma> x u" for x u
  proof (rule reads_item_local [OF _ that(2)])
    show "item_ok x" using ok that(1) by blast
    show "\<tau> y = \<sigma> y" if "in_items slot [x] y" for y
    proof -
      have "in_items slot ?items y" using that \<open>x \<in> set ?items\<close> unfolding in_items_def by fastforce
      with in_struct [OF Struct.prems(1)] obtain i where "i < slots (sty_layout (Struct fs))" "y = slot + word_of_nat i"
        by blast
      then show ?thesis using Struct.prems(3) by simp
    qed
    show "load_ty (fst x) slot' [] \<tau> = (Inr u, [], \<tau>)"
      if "load_ty (fst x) slot' [] \<sigma> = (Inr u, [], \<sigma>)"
        "\<And>i. i < slots (sty_layout (fst x)) \<Longrightarrow> \<tau> (slot' + word_of_nat i) = \<sigma> (slot' + word_of_nat i)" for slot'
      using Struct.IH [of "Direct (fst x)" "fst x" slot' u] st(3) \<open>x \<in> set ?items\<close> that
      by (auto simp: item_ok_def)
  qed
  then have "list_all2 (reads_item slot \<tau>) ?items vs"
    using reads by (auto simp: list_all2_conv_all_nth)
  then have "load_fields slot None ?items 0 [] \<tau> = (Inr vs, [], \<tau>)" using load_fields_iff [OF st(2) ok] by simp
  then show ?case by (simp add: vs(1) pc_bind_Inr)
next
  case (Direct t)
  then show ?case by simp
qed simp

lemma direct_fields_map: "direct_fields (map Direct ts) locs = zip ts locs"
  by (induction ts arbitrary: locs) (simp, case_tac locs, simp_all)

lemma item_slots_mono:
  assumes "sorted_wrt item_before items" "a \<le> b" "b < length items"
  shows "fst (snd (items ! a)) \<le> fst (snd (items ! b))"
proof (cases "a = b")
  case False
  then have "item_before (items ! a) (items ! b)" using assms sorted_wrt_nth_less by fastforce
  then show ?thesis by (auto simp: item_before_def field_before_def split: prod.splits)
qed simp

text \<open>A field that shares its slot with another shares it with a neighbour, and is accessed as packed.\<close>

lemma shared_slot_packed:
  assumes wf: "sty_wf (Struct (map Direct ts))" and i: "i < length ts" "ts ! i = Prim p"
    and j: "j < length ts" "j \<noteq> i" "fst (struct_locs (map Direct ts) ! j) = fst (struct_locs (map Direct ts) ! i)"
  shows "field_ctx (map Direct ts) i = Some (snd (struct_locs (map Direct ts) ! i)) \<and> prim_bytes p < 32
    \<and> is_packable (sty_layout (ts ! j))
    \<and> (snd (struct_locs (map Direct ts) ! j) + layout_bytes (sty_layout (ts ! j)) \<le> snd (struct_locs (map Direct ts) ! i)
       \<or> snd (struct_locs (map Direct ts) ! i) + prim_bytes p \<le> snd (struct_locs (map Direct ts) ! j))"
proof -
  let ?fs = "map Direct ts" and ?locs = "struct_locs (map Direct ts)"
  let ?items = "zip ts ?locs"
  note st = struct_items [OF wf, unfolded direct_fields_map]
  have len: "length ?locs = length ts" using st(1) by simp
  have nth: "?items ! a = (ts ! a, ?locs ! a)" if "a < length ts" for a using len that by simp
  have pos: "1 \<le> slots (sty_layout (ts ! a))" if "a < length ts" for a
    using wf that slots_pos sty_layout_wf by (auto simp: set_conv_nth)
  have bef: "item_before (?items ! a) (?items ! b)" if "a < b" "b < length ts" for a b
    using sorted_wrt_nth_less [OF st(2) that(1)] that len by simp
  have near: "(0 < i \<and> fst (?locs ! i) = fst (?locs ! (i - 1))) \<or> (i + 1 < length ts \<and> fst (?locs ! i) = fst (?locs ! (i + 1)))"
  proof (cases "j < i")
    case True
    then have "fst (?locs ! j) \<le> fst (?locs ! (i - 1))" "fst (?locs ! (i - 1)) \<le> fst (?locs ! i)"
      using item_slots_mono [OF st(2), of j "i - 1"] item_slots_mono [OF st(2), of "i - 1" i] i(1) len nth by simp_all
    then show ?thesis using j(3) True by simp
  next
    case False
    then have "fst (?locs ! i) \<le> fst (?locs ! (i + 1))" "fst (?locs ! (i + 1)) \<le> fst (?locs ! j)" "i + 1 < length ts"
      using item_slots_mono [OF st(2), of i "i + 1"] item_slots_mono [OF st(2), of "i + 1" j] j(1,2) len nth by simp_all
    then show ?thesis using j(3) by simp
  qed
  have both: "is_packable (sty_layout (ts ! i)) \<and> is_packable (sty_layout (ts ! j))
      \<and> (snd (?locs ! j) + layout_bytes (sty_layout (ts ! j)) \<le> snd (?locs ! i)
         \<or> snd (?locs ! i) + layout_bytes (sty_layout (ts ! i)) \<le> snd (?locs ! j))"
    using bef [of i j] bef [of j i] j i(1) pos [of i] pos [of j] nth
    by (cases "j < i") (auto simp: item_before_def field_before_def split: prod.splits)
  then show ?thesis using near i len by (simp add: field_ctx_def Let_def)
qed

lemma other_field_reads:
  assumes wf: "sty_wf (Struct (map Direct ts))" and i: "i < length ts" "ts ! i = Prim p"
    and j: "j < length ts" "j \<noteq> i" and loc: "struct_locs (map Direct ts) ! i = (s, off)"
    and reads: "reads_item slot \<sigma> (ts ! j, struct_locs (map Direct ts) ! j) v"
    and u: "\<And>off' n'. field_ctx (map Direct ts) i = Some off \<Longrightarrow> off' + n' \<le> off \<or> off + prim_bytes p \<le> off' \<Longrightarrow>
      field_of off' n' u = field_of off' n' (\<sigma> (slot + word_of_nat s))"
  shows "reads_item slot (\<sigma>(slot + word_of_nat s := u)) (ts ! j, struct_locs (map Direct ts) ! j) v"
proof -
  let ?locs = "struct_locs (map Direct ts)" and ?\<tau> = "\<sigma>(slot + word_of_nat s := u)"
  let ?items = "zip ts ?locs"
  note st = struct_items [OF wf, unfolded direct_fields_map]
  have len: "length ?locs = length ts" using st(1) by simp
  have ok: "item_ok (ts ! a, ?locs ! a)" if "a < length ts" for a
    using st(3) nth_mem [of a ?items] that len by auto
  obtain s' off' where loc': "?locs ! j = (s', off')" by (cases "?locs ! j")
  show ?thesis
  proof (cases "s' = s")
    case True
    note sh = shared_slot_packed [OF wf i j, unfolded loc loc' fst_conv snd_conv, OF True]
    obtain p' where p': "ts ! j = Prim p'" using sh by (cases "ts ! j") auto
    have "off' + prim_bytes p' \<le> 32" using ok [OF j(1)] by (simp add: p' loc' item_ok_def loc_ok_def)
    moreover have "field_of off' (prim_bytes p') u = field_of off' (prim_bytes p') (\<sigma> (slot + word_of_nat s))"
      using sh by (intro u) (auto simp: p')
    ultimately show ?thesis using reads sh by (simp add: p' loc' True reads_item_simp extract_field)
  next
    case False
    have bef: "item_before (ts ! a, ?locs ! a) (ts ! b, ?locs ! b)" if "a < b" "b < length ts" for a b
      using sorted_wrt_nth_less [OF st(2) that(1)] that len by simp
    have out: "\<not> (s' \<le> s \<and> s < s' + slots (sty_layout (ts ! j)))"
      using bef [of i j] bef [of j i] i j False
      by (cases "j < i") (auto simp: loc loc' item_before_def field_before_def)
    show ?thesis
    proof (rule reads_item_local [OF ok [OF j(1)] reads])
      show "?\<tau> y = \<sigma> y" if y: "in_items slot [(ts ! j, ?locs ! j)] y" for y
      proof -
        obtain k where k: "s' \<le> k" "k < s' + slots (sty_layout (ts ! j))" "y = slot + word_of_nat k"
          using y by (auto simp: in_items_def loc')
        have "s < 2 ^ 256" "k < 2 ^ 256" using ok [OF i(1)] ok [OF j(1)] k(2) by (auto simp: item_ok_def i loc loc')
        then have "y \<noteq> slot + word_of_nat s" using slot_inj [of k s slot] k out by auto
        then show ?thesis by simp
      qed
      show "load_ty (fst (ts ! j, ?locs ! j)) slot' [] ?\<tau> = (Inr v, [], ?\<tau>)"
        if "load_ty (fst (ts ! j, ?locs ! j)) slot' [] \<sigma> = (Inr v, [], \<sigma>)"
          "\<And>i. i < slots (sty_layout (fst (ts ! j, ?locs ! j))) \<Longrightarrow> ?\<tau> (slot' + word_of_nat i) = \<sigma> (slot' + word_of_nat i)" for slot'
      proof (rule load_local(1) [OF _ that(1)])
        show "sty_wf (fst (ts ! j, ?locs ! j))" using ok [OF j(1)] by (simp add: item_ok_def loc')
      qed (rule that(2))
    qed
  qed
qed

lemma gen_constants_chain:
  "gen_constants_from (Some (pl, base, ploc)) (map (\<lambda>l. (l, Auto base)) ls) = Some locs \<Longrightarrow> i < length ls \<Longrightarrow>
   locs ! i = next_loc ((pl # ls) ! i) (ls ! i) ((ploc # locs) ! i)"
proof (induction ls arbitrary: pl ploc locs i)
  case (Cons l ls)
  then obtain locs' where "locs = next_loc pl l ploc # locs'"
    "gen_constants_from (Some (l, base, next_loc pl l ploc)) (map (\<lambda>l. (l, Auto base)) ls) = Some locs'"
    by (auto simp: Let_def split: option.splits)
  then show ?case using Cons by (cases i) simp_all
qed simp

text \<open>A field that does not share its slot with the field before it starts the slot.\<close>

lemma new_slot_offset:
  assumes wf: "sty_wf (Struct (map Direct ts))" and i: "i < length ts"
    and new: "i = 0 \<or> fst (struct_locs (map Direct ts) ! i) \<noteq> fst (struct_locs (map Direct ts) ! (i - 1))"
  shows "snd (struct_locs (map Direct ts) ! i) = 0"
proof -
  obtain t ts' where ts: "ts = t # ts'" using i by (cases ts) auto
  let ?auto = "map (\<lambda>l. (l, Auto 0 :: SlotAssignment))"
  have "gen_constants (map (\<lambda>f. (layout_of_field f, Auto 0)) (map Direct ts)) \<noteq> None" using wf by simp
  then have "gen_constants (?auto (map sty_layout ts)) = Some (struct_locs (map Direct ts))"
    by (auto simp: struct_locs_def comp_def)
  then obtain locs where locs: "struct_locs (map Direct ts) = (0, 0) # locs"
    "gen_constants_from (Some (sty_layout t, 0, (0, 0))) (?auto (map sty_layout ts')) = Some locs"
    by (auto simp: ts gen_constants_def slot_fits_def comp_def Let_def dest!: sym [of "_ # _"] split: if_splits)
  show ?thesis
  proof (cases i)
    case (Suc k)
    have "locs ! k = next_loc ((sty_layout t # map sty_layout ts') ! k) (map sty_layout ts' ! k) (((0, 0) # locs) ! k)"
      using gen_constants_chain [OF locs(2)] i Suc ts by simp
    then show ?thesis using new Suc locs(1) by (auto simp: next_loc_def split: prod.splits if_splits)
  qed (simp add: locs(1))
qed

text \<open>C28: fields are independent. Writing one field of a struct through its own handler changes that field of
  the loaded struct and no other, and the handler reads back what was written; so the fields of a stored
  struct behave like the fields of a record.\<close>

theorem field_write_updates_field:
  assumes wf: "sty_wf (Struct (map Direct ts))" and i: "i < length ts" "ts ! i = Prim p" and can: "canonical p w"
    and load: "load_ty (Struct (map Direct ts)) slot [] \<sigma> = (Inr (SV vs), [], \<sigma>)"
  shows "\<exists>\<sigma>'. field_write (map Direct ts) p slot i w [] \<sigma> = (Inr (), [], \<sigma>')
    \<and> field_read (map Direct ts) p slot i [] \<sigma>' = (Inr (PV w), [], \<sigma>')
    \<and> load_ty (Struct (map Direct ts)) slot [] \<sigma>' = (Inr (SV (vs[i := PV w])), [], \<sigma>')"
proof -
  let ?locs = "struct_locs (map Direct ts)"
  let ?items = "zip ts ?locs" and ?ctx = "field_ctx (map Direct ts) i"
  note st = struct_items [OF wf, unfolded direct_fields_map]
  have len: "length ?locs = length ts" using st(1) by simp
  obtain s off where loc: "?locs ! i = (s, off)" by (cases "?locs ! i")
  have nth: "?items ! a = (ts ! a, ?locs ! a)" if "a < length ts" for a using len that by simp
  have ok: "\<forall>x \<in> set ?items. item_ok x" using st(3) by simp
  have mem: "?items ! a \<in> set ?items" if "a < length ts" for a using len that by (intro nth_mem) simp
  have mine: "item_ok (Prim p, s, off)" using ok mem [OF i(1)] i nth loc by (metis (no_types))
  then have off: "off + prim_bytes p \<le> 32" by (simp add: item_ok_def loc_ok_def)
  obtain u0 where ins: "insert_into_word (\<sigma> (slot + word_of_nat s)) w off (prim_bytes p) = Inr u0"
    using insert_into_word_ok [OF off] by blast
  define u where "u = (case ?ctx of Some _ \<Rightarrow> u0 | None \<Rightarrow> w)"
  define \<sigma>' where "\<sigma>' = \<sigma>(slot + word_of_nat s := u)"
  have ctx: "?ctx = Some off \<and> prim_bytes p < 32 \<or> ?ctx = None"
    using i len loc by (auto simp: field_ctx_def Let_def)
  have alone: "off = 0" if "?ctx = None" "prim_bytes p < 32"
    using new_slot_offset [OF wf i(1)] that i loc by (fastforce simp: field_ctx_def Let_def split: if_splits)
  have whole: "?ctx = None" if "\<not> prim_bytes p < 32" using that ctx by auto
  have field: "field_of off (prim_bytes p) u0 = w" using insert_same_field [OF ins] can by (simp add: canonical_def)
  have wr: "field_write (map Direct ts) p slot i w [] \<sigma> = (Inr (), [], \<sigma>')"
    using ctx ins by (auto simp: field_write_def store_prim_def loc s_load_def s_store_def u_def \<sigma>'_def)
  have rd: "field_read (map Direct ts) p slot i [] \<sigma>' = (Inr (PV w), [], \<sigma>')"
    using ctx field can off
    by (auto simp: field_read_def load_prim_def loc s_load_def u_def \<sigma>'_def extract_field canonical_def)
  have "list_all2 (reads_item slot \<sigma>) ?items vs"
    using load load_fields_iff [OF st(2) ok, of None 0 \<sigma> slot]
    by (auto simp: direct_fields_map quiet_bind_Inr [OF load_fields_quiet])
  then have reads: "length vs = length ts" "\<And>a. a < length ts \<Longrightarrow> reads_item slot \<sigma> (?items ! a) (vs ! a)"
    using len by (auto simp: list_all2_conv_all_nth)
  have "reads_item slot \<sigma>' (?items ! a) (vs[i := PV w] ! a)" if a: "a < length ts" for a
  proof (cases "a = i")
    case True
    have "field_of off (prim_bytes p) u = w" if "prim_bytes p < 32"
      using ctx field alone that can by (auto simp: u_def field_of_def canonical_def)
    moreover have "u = w" if "\<not> prim_bytes p < 32" using whole that by (simp add: u_def)
    ultimately show ?thesis
      using True i off can reads(1) nth loc
      by (auto simp: reads_item_simp \<sigma>'_def extract_field canonical_def load_prim_def s_load_def)
  next
    case False
    have "reads_item slot \<sigma>' (ts ! a, ?locs ! a) (vs ! a)"
      unfolding \<sigma>'_def
    proof (rule other_field_reads [OF wf i a False loc])
      show "reads_item slot \<sigma> (ts ! a, ?locs ! a) (vs ! a)" using reads(2) [OF a] nth [OF a] by simp
      show "field_of off' n' u = field_of off' n' (\<sigma> (slot + word_of_nat s))"
        if "?ctx = Some off" "off' + n' \<le> off \<or> off + prim_bytes p \<le> off'" for off' n'
        using insert_other_field [OF ins that(2)] that(1) by (simp add: u_def)
    qed
    then show ?thesis using False nth [OF a] by simp
  qed
  then have "list_all2 (reads_item slot \<sigma>') ?items (vs[i := PV w])"
    using reads(1) len by (auto simp: list_all2_conv_all_nth)
  then have "load_fields slot None ?items 0 [] \<sigma>' = (Inr (vs[i := PV w]), [], \<sigma>')"
    using load_fields_iff [OF st(2) ok, of None 0 \<sigma>' slot] by simp
  then have "load_ty (Struct (map Direct ts)) slot [] \<sigma>' = (Inr (SV (vs[i := PV w])), [], \<sigma>')"
    by (simp add: direct_fields_map pc_bind_Inr)
  with wr rd show ?thesis by blast
qed

definition sample_fields :: "sty list" where
  "sample_fields = [Prim (UInt 8), Prim BoolT, Prim AddressT, Prim (UInt 32)]"

theorem field_write_updates_field_witness:
  "\<exists>\<sigma>'. field_write (map Direct sample_fields) BoolT 100 1 1 [] (\<lambda>_. 0) = (Inr (), [], \<sigma>')
    \<and> field_read (map Direct sample_fields) BoolT 100 1 [] \<sigma>' = (Inr (PV 1), [], \<sigma>')
    \<and> load_ty (Struct (map Direct sample_fields)) 100 [] \<sigma>' = (Inr (SV [PV 0, PV 1, PV 0, PV 0]), [], \<sigma>')"
proof -
  let ?t = "Struct (map Direct sample_fields)"
  have wf: "sty_wf ?t"
    by (simp add: sample_fields_def gen_constants_def slot_fits_def next_loc_def Let_def)
  have items: "direct_fields (map Direct sample_fields) (struct_locs (map Direct sample_fields)) =
      [(Prim (UInt 8), 0, 0), (Prim BoolT, 0, 8), (Prim AddressT, 0, 9), (Prim (UInt 32), 1, 0)]"
    by (simp add: sample_fields_def struct_locs_def gen_constants_def slot_fits_def next_loc_def Let_def)
  have load: "load_ty ?t 100 [] (\<lambda>_. 0) = (Inr (SV [PV 0, PV 0, PV 0, PV 0]), [], \<lambda>_. 0)"
    by (simp add: items pc_bind_def s_load_def pc_lift_def extract_from_word_def int_from_word_def load_prim_def)
  have "canonical BoolT 1" by (simp add: canonical_def take_bit_eq_mod)
  then show ?thesis
    using field_write_updates_field [OF wf _ _ _ load, of 1 BoolT 1] by (simp add: sample_fields_def)
qed

section \<open>Deletion\<close>

text \<open>The generated \<open>delete\<close> of a struct: without dynamic fields every slot that a direct field occupies
  is zeroed; the slots of mappings are left alone.\<close>

definition delete_struct :: "field list \<Rightarrow> u256 \<Rightarrow> (storage, unit) pc" where
  "delete_struct fs base = pc_each (\<lambda>slot_offset.
     if \<exists>(t, s, off) \<in> set (direct_fields fs (struct_locs fs)). s \<le> slot_offset \<and> slot_offset < s + slots (sty_layout t)
     then s_store (base + word_of_nat slot_offset) 0 else pc_return ())
     [0..<slot_count (map layout_of_field fs)]"

fun zero_val :: "sty \<Rightarrow> sval" and zero_vals :: "field list \<Rightarrow> sval list" where
  "zero_val (Prim p) = PV 0"
| "zero_val (Struct fs) = SV (zero_vals fs)"
| "zero_vals [] = []"
| "zero_vals (Direct t # fs) = zero_val t # zero_vals fs"
| "zero_vals (MapField # fs) = zero_vals fs"

lemma zero_vals_direct:
  "length locs = length fs \<Longrightarrow> zero_vals fs = map (\<lambda>x. zero_val (fst x)) (direct_fields fs locs)"
  by (induction fs locs rule: direct_fields.induct) auto

lemma from_word_0: "prim_wf p \<Longrightarrow> from_word p 0 = Inr 0"
  by (cases p) (simp_all add: int_from_word_def)

lemma reads_item_zero:
  assumes "item_ok x" "\<And>slot. load_ty (fst x) slot [] (\<lambda>_. 0) = (Inr (zero_val (fst x)), [], \<lambda>_. 0)"
  shows "reads_item base (\<lambda>_. 0) x (zero_val (fst x))"
proof -
  obtain t s off where x: "x = (t, s, off)" by (cases x)
  show ?thesis
  proof (cases t)
    case (Prim p)
    have "off + prim_bytes p \<le> 32" "prim_wf p" using assms(1) by (simp_all add: x Prim item_ok_def loc_ok_def)
    then show ?thesis
      using assms(2) by (simp add: x Prim reads_item_simp extract_field from_word_0 field_of_def)
  qed (use assms(2) in \<open>simp add: x reads_item_simp\<close>)
qed

lemma load_zero:
  "sty_wf t \<Longrightarrow> load_ty t slot [] (\<lambda>_. 0) = (Inr (zero_val t), [], \<lambda>_. 0)"
  and "\<And>t. f = Direct t \<Longrightarrow> sty_wf t \<Longrightarrow> load_ty t slot [] (\<lambda>_. 0) = (Inr (zero_val t), [], \<lambda>_. 0)"
proof (induction t and f arbitrary: slot and slot)
  case (Prim p)
  then show ?case by (simp add: load_prim_def s_load_def pc_lift_def from_word_0)
next
  case (Struct fs)
  let ?items = "direct_fields fs (struct_locs fs)"
  note st = struct_items [OF Struct.prems(1)]
  have ok: "\<forall>x \<in> set ?items. item_ok x" using st(3) by simp
  have "reads_item slot (\<lambda>_. 0) x (zero_val (fst x))" if "x \<in> set ?items" for x
  proof (rule reads_item_zero)
    show "item_ok x" using ok that by blast
    show "load_ty (fst x) slot' [] (\<lambda>_. 0) = (Inr (zero_val (fst x)), [], \<lambda>_. 0)" for slot'
      using Struct.IH [of "Direct (fst x)" "fst x" slot'] st(3) that by (auto simp: item_ok_def)
  qed
  then have "list_all2 (reads_item slot (\<lambda>_. 0)) ?items (zero_vals fs)"
    by (simp add: zero_vals_direct [OF st(1)] list_all2_conv_all_nth)
  then have "load_fields slot None ?items 0 [] (\<lambda>_. 0) = (Inr (zero_vals fs), [], \<lambda>_. 0)"
    using load_fields_iff [OF st(2) ok] by simp
  then show ?case by (simp add: pc_bind_Inr)
qed simp_all

lemma fold_zero:
  "fold (\<lambda>i \<sigma>. if P i then \<sigma>(b + word_of_nat i := 0) else \<sigma>) is \<sigma> x =
    (if \<exists>i \<in> set is. P i \<and> x = b + word_of_nat i then (0 :: u256) else \<sigma> (x :: u256))"
  by (induction "is" arbitrary: \<sigma>) auto

lemma delete_struct_run:
  assumes "sty_wf (Struct fs)"
  shows "delete_struct fs base [] \<sigma> = (Inr (), [], \<lambda>x. if in_items base (direct_fields fs (struct_locs fs)) x then 0 else \<sigma> x)"
proof -
  let ?items = "direct_fields fs (struct_locs fs)" and ?n = "slot_count (map layout_of_field fs)"
  define P where "P i \<longleftrightarrow> (\<exists>(t, s, off) \<in> set ?items. s \<le> i \<and> i < s + slots (sty_layout t))" for i
  note st = struct_items [OF assms]
  have run: "delete_struct fs base [] \<sigma> = (Inr (), [], fold (\<lambda>i \<sigma>. if P i then \<sigma>(base + word_of_nat i := 0) else \<sigma>) [0..<?n] \<sigma>)"
    unfolding delete_struct_def P_def [symmetric] by (rule pc_each_run) (simp add: s_store_def)
  have lt: "i < ?n" if "P i" for i
  proof -
    obtain t s off where x: "(t, s, off) \<in> set ?items" "i < s + slots (sty_layout t)" using \<open>P i\<close> unfolding P_def by blast
    show ?thesis using bspec [OF st(4) x(1)] x(2) by simp
  qed
  have "in_items base ?items x \<longleftrightarrow> (\<exists>i. P i \<and> x = base + word_of_nat i)" for x
    unfolding in_items_def P_def by blast
  then have in_iff: "(\<exists>i \<in> set [0..<?n]. P i \<and> x = base + word_of_nat i) \<longleftrightarrow> in_items base ?items x" for x
    using lt by (metis atLeastLessThan_iff le0 set_upt)
  have "fold (\<lambda>i \<sigma>. if P i then \<sigma>(base + word_of_nat i := 0) else \<sigma>) [0..<?n] \<sigma> = (\<lambda>x. if in_items base ?items x then 0 else \<sigma> x)"
    by (rule ext) (simp only: fold_zero in_iff)
  with run show ?thesis by (simp only:)
qed

text \<open>C29: deletion gives the default value. Deleting a stored struct leaves a struct whose every field loads as
  zero, and changes no slot but those of its fields, so its mappings are untouched.\<close>

theorem struct_delete_loads_default:
  assumes "sty_wf (Struct fs)"
  shows "\<exists>\<sigma>'. delete_struct fs slot [] \<sigma> = (Inr (), [], \<sigma>')
    \<and> load_ty (Struct fs) slot [] \<sigma>' = (Inr (zero_val (Struct fs)), [], \<sigma>')
    \<and> (\<forall>x. \<not> in_items slot (direct_fields fs (struct_locs fs)) x \<longrightarrow> \<sigma>' x = \<sigma> x)"
proof -
  let ?items = "direct_fields fs (struct_locs fs)"
  let ?\<tau> = "\<lambda>x. if in_items slot ?items x then 0 else \<sigma> x"
  note st = struct_items [OF assms]
  have ok: "\<forall>x \<in> set ?items. item_ok x" using st(3) by simp
  have "reads_item slot ?\<tau> x (zero_val (fst x))" if x: "x \<in> set ?items" for x
  proof (rule reads_item_local [where \<sigma> = "\<lambda>_. 0"])
    have wf: "sty_wf (fst x)" using ok x by (auto simp: item_ok_def)
    show "reads_item slot (\<lambda>_. 0) x (zero_val (fst x))" using reads_item_zero load_zero(1) [OF wf] ok x by blast
    show "?\<tau> y = 0" if "in_items slot [x] y" for y
    proof -
      have "in_items slot ?items y" using that x unfolding in_items_def by fastforce
      then show ?thesis by simp
    qed
    show "load_ty (fst x) slot' [] ?\<tau> = (Inr (zero_val (fst x)), [], ?\<tau>)"
      if "load_ty (fst x) slot' [] (\<lambda>_. 0) = (Inr (zero_val (fst x)), [], \<lambda>_. 0)"
        "\<And>i. i < slots (sty_layout (fst x)) \<Longrightarrow> ?\<tau> (slot' + word_of_nat i) = 0" for slot'
      using that(2) by (intro load_local(1) [OF wf that(1)]) blast
  qed (use ok x in blast)
  then have "list_all2 (reads_item slot ?\<tau>) ?items (zero_vals fs)"
    by (simp add: zero_vals_direct [OF st(1)] list_all2_conv_all_nth)
  then have "load_fields slot None ?items 0 [] ?\<tau> = (Inr (zero_vals fs), [], ?\<tau>)"
    using load_fields_iff [OF st(2) ok] by simp
  then show ?thesis using delete_struct_run [OF assms] by (simp add: pc_bind_Inr)
qed

theorem struct_delete_loads_default_witness:
  "\<exists>\<sigma>'. delete_struct [Direct (Prim (UInt 8)), MapField] 100 [] (\<lambda>_. - 1) = (Inr (), [], \<sigma>')
    \<and> load_ty (Struct [Direct (Prim (UInt 8)), MapField]) 100 [] \<sigma>' = (Inr (SV [PV 0]), [], \<sigma>')
    \<and> \<sigma>' 101 = - 1"
proof -
  let ?fs = "[Direct (Prim (UInt 8)), MapField]"
  have wf: "sty_wf (Struct ?fs)" by (simp add: gen_constants_def slot_fits_def next_loc_def Let_def)
  have items: "direct_fields ?fs (struct_locs ?fs) = [(Prim (UInt 8), 0, 0)]"
    by (simp add: struct_locs_def gen_constants_def slot_fits_def next_loc_def Let_def)
  have "\<not> in_items 100 (direct_fields ?fs (struct_locs ?fs)) 101" unfolding items in_items_def by auto
  then show ?thesis using struct_delete_loads_default [OF wf, of 100 "\<lambda>_. - 1"] by auto
qed

end
