(* ===== verification/Key_Word.thy ===== *)
theory Key_Word
  imports Storable Hook
begin

text \<open>
  The storage word of a session key, for hosts outside of an execution
  (\<open>sci/crates/precompiles/src/account_keychain/sci_ext.rs\<close>): its slot, its decoding and encoding, and the test of
  activity that the transaction pool applies to the word it reads from the committed state.
\<close>

section \<open>The word of a key\<close>

definition authorized_key_sty :: sty where
  "authorized_key_sty = Struct [Direct (Prim (UInt 1)), Direct (Prim (UInt 8)), Direct (Prim BoolT), Direct (Prim BoolT)]"

definition key_to_sval :: "AuthorizedKey \<Rightarrow> sval" where
  "key_to_sval k = SV [PV (ucast (signature_type k)), PV (ucast (expiry k)), PV (of_bool (enforce_limits k)),
     PV (of_bool (is_revoked k))]"

fun key_of_sval :: "sval \<Rightarrow> AuthorizedKey" where
  "key_of_sval (SV [PV t, PV e, PV l, PV r]) =
     \<lparr>signature_type = ucast t, expiry = ucast e, enforce_limits = (l \<noteq> 0), is_revoked = (r \<noteq> 0)\<rparr>"
| "key_of_sval _ = \<lparr>signature_type = 0, expiry = 0, enforce_limits = False, is_revoked = False\<rparr>"

text \<open>The slot of an element of a mapping from addresses.\<close>

definition mapping_slot :: "(bytes \<Rightarrow> b256) \<Rightarrow> address \<Rightarrow> u256 \<Rightarrow> u256" where
  "mapping_slot K key slot = K (replicate (32 - length (address_bytes key)) 0 @ address_bytes key @ be_bytes slot)"

definition keys_slot :: u256 where "keys_slot = 0"

definition authorized_key_slot :: "(bytes \<Rightarrow> b256) \<Rightarrow> address \<Rightarrow> address \<Rightarrow> u256" where
  "authorized_key_slot K account key_id = mapping_slot K key_id (mapping_slot K account keys_slot)"

text \<open>A \<open>PackedSlot\<close> answers every load with its word; a key takes one slot, so a store writes slot zero only. The
  scratch context has the default hardfork.\<close>

definition decode_authorized_key :: "u256 \<Rightarrow> TempoPrecompileError + AuthorizedKey" where
  "decode_authorized_key word = map_sum id key_of_sval (fst (load_ty authorized_key_sty 0 [] (\<lambda>_. word)))"

definition encode_authorized_key :: "AuthorizedKey \<Rightarrow> TempoPrecompileError + u256" where
  "encode_authorized_key key = (case store_ty (is_t4 Genesis) authorized_key_sty (key_to_sval key) 0 [] (\<lambda>_. 0) of
     (Inl e, _, _) \<Rightarrow> Inl e
   | (Inr _, _, slot) \<Rightarrow> Inr (slot 0))"

definition authorized_key_word_is_active :: "u256 \<Rightarrow> u64 \<Rightarrow> bool" where
  "authorized_key_word_is_active word ts = (case decode_authorized_key word of
     Inr key \<Rightarrow> expiry key \<noteq> 0 \<and> \<not> is_revoked key \<and> expiry key > ts
   | Inl _ \<Rightarrow> False)"

section \<open>The pool and the hook agree on a key\<close>

lemma key_items: "direct_fields [Direct (Prim (UInt 1)), Direct (Prim (UInt 8)), Direct (Prim BoolT), Direct (Prim BoolT)]
    (struct_locs [Direct (Prim (UInt 1)), Direct (Prim (UInt 8)), Direct (Prim BoolT), Direct (Prim BoolT)])
  = [(Prim (UInt 1), 0, 0), (Prim (UInt 8), 0, 1), (Prim BoolT, 0, 9), (Prim BoolT, 0, 10)]"
  by (simp add: struct_locs_def gen_constants_def slot_fits_def next_loc_def Let_def)

lemma key_layout: "sty_wf authorized_key_sty" "slots (sty_layout authorized_key_sty) = 1"
  by (simp_all add: authorized_key_sty_def gen_constants_def slot_fits_def next_loc_def slot_count_def Let_def)

lemma take_bit_ucast_wide: "take_bit (LENGTH('a)) (ucast (x :: 'a::len word) :: 'b::len word) = ucast x"
  by (rule bit_word_eqI) (auto simp: bit_simps dest: bit_imp_le_length)

lemma key_field_bits: "take_bit 8 (ucast (t :: u8) :: u256) = ucast t" "take_bit 64 (ucast (e :: u64) :: u256) = ucast e"
  using take_bit_ucast_wide [of t] take_bit_ucast_wide [of e] by simp_all

lemma key_sval_wt: "wt authorized_key_sty (key_to_sval k)"
proof -
  have "canonical (UInt 1) (ucast (t :: u8))" "canonical (UInt 8) (ucast (e :: u64))" "canonical BoolT (of_bool b)" for t e b
    by (simp_all add: canonical_def int_from_word_def key_field_bits)
  then show ?thesis by (simp only: authorized_key_sty_def key_to_sval_def wt.simps wts.simps simp_thms)
qed

lemma key_sval_inverse: "key_of_sval (key_to_sval k) = k"
proof -
  have "ucast (ucast (t :: u8) :: u256) = t" "ucast (ucast (e :: u64) :: u256) = e" for t e
    by (rule bit_word_eqI, simp add: bit_simps)+
  then show ?thesis by (simp add: key_to_sval_def)
qed

lemma bind_load: "pc_bind (s_load x) k [] \<sigma> = k (\<sigma> x) [] \<sigma>"
  by (simp add: pc_bind_def s_load_def)

lemma bind_step: "pc_bind (pc_return y) i = i y" "pc_bind (if t4 then pc_return 0 else s_load x) k [] \<sigma> = k (if t4 then 0 else \<sigma> x) [] \<sigma>"
  "pc_bind (s_store x w) j [] \<sigma> = j () [] (\<sigma>(x := w))"
  by (simp_all add: pc_bind_def s_load_def s_store_def pc_return_def)

lemma key_packable: "is_packable (sty_layout (Prim (UInt 1)))" "is_packable (sty_layout (Prim (UInt 8)))"
  "is_packable (sty_layout (Prim BoolT))"
  by (simp_all add: is_packable_def)

definition put :: "nat \<Rightarrow> nat \<Rightarrow> u256 \<Rightarrow> u256 \<Rightarrow> u256" where
  "put off n v w = (case insert_into_word w v off n of Inr x \<Rightarrow> x | Inl _ \<Rightarrow> 0)"

lemma packed_store_put: "packed_store (Prim (UInt 1)) (PV v) 0 w = Inr (put 0 1 v w)"
  "packed_store (Prim (UInt 8)) (PV v) 1 w = Inr (put 1 8 v w)"
  "packed_store (Prim BoolT) (PV v) 9 w = Inr (put 9 1 v w)" "packed_store (Prim BoolT) (PV v) 10 w = Inr (put 10 1 v w)"
  by (simp_all add: put_def insert_into_word_def Let_def)

lemma key_store_pack:
  "store_ty t4 authorized_key_sty (SV [PV a, PV b, PV c, PV d]) slot [] \<sigma> =
     (Inr (), [], \<sigma>(slot := put 10 1 d (put 9 1 c (put 1 8 b (put 0 1 a (if t4 then 0 else \<sigma> slot))))))"
  by (simp only: authorized_key_sty_def store_ty.simps key_items,
    simp only: store_fields.simps key_packable packed_store_put should_store.simps pc_lift_Inr commit_pending_def pc_then_def
      option.case simp_thms if_True if_False option.inject option.distinct bind_load bind_step, simp add: pc_return_def)

definition key_word :: "AuthorizedKey \<Rightarrow> u256" where
  "key_word k = put 10 1 (of_bool (is_revoked k)) (put 9 1 (of_bool (enforce_limits k))
     (put 1 8 (ucast (expiry k)) (put 0 1 (ucast (signature_type k)) 0)))"

lemma key_store_word:
  "store_ty True authorized_key_sty (key_to_sval k) slot [] \<sigma> = (Inr (), [], \<sigma>(slot := key_word k))"
  "encode_authorized_key k = Inr (key_word k)"
  by (simp_all only: key_to_sval_def key_store_pack key_word_def encode_authorized_key_def if_True)
    simp

lemma decode_key_word: "decode_authorized_key (key_word k) = Inr k"
proof -
  obtain \<sigma>' where \<sigma>': "store_ty True authorized_key_sty (key_to_sval k) 0 [] (\<lambda>_. 0) = (Inr (), [], \<sigma>')"
    and load: "\<forall>\<tau>. (\<forall>i < slots (sty_layout authorized_key_sty). \<tau> (0 + word_of_nat i) = \<sigma>' (0 + word_of_nat i)) \<longrightarrow>
      load_ty authorized_key_sty 0 [] \<tau> = (Inr (key_to_sval k), [], \<tau>)"
    using roundtrips_all [OF key_layout(1)] key_sval_wt unfolding roundtrips_def by blast
  have "\<sigma>' 0 = key_word k" using \<sigma>' by (auto simp: key_store_word)
  then have "load_ty authorized_key_sty 0 [] (\<lambda>_. key_word k) = (Inr (key_to_sval k), [], \<lambda>_. key_word k)"
    using load [rule_format, of "\<lambda>_. key_word k"] by (simp add: key_layout)
  then show ?thesis by (simp add: decode_authorized_key_def key_sval_inverse)
qed

lemma key_word_active: "authorized_key_word_is_active (key_word k) ts \<longleftrightarrow> key_active ts k"
  by (auto simp: authorized_key_word_is_active_def decode_key_word key_active_def)

lemma key_word_zero: "key_word \<lparr>signature_type = 0, expiry = 0, enforce_limits = False, is_revoked = False\<rparr> = 0"
  by (simp add: key_word_def put_def insert_into_word_def Let_def)

lemma zero_word_inactive: "\<not> authorized_key_word_is_active 0 ts"
  using key_word_active [of "\<lparr>signature_type = 0, expiry = 0, enforce_limits = False, is_revoked = False\<rparr>" ts]
  by (simp add: key_word_zero key_active_def)

text \<open>C40: the word of a key. What the precompile writes for a key at launch, whatever its slot held before, is the word
  that the encoder computes without an execution context, and changes no other slot. Decoding it gives the key, and the
  pool's test of the word says exactly what the pre-execution hook finds for that key in the keychain. The empty word is
  no active key.\<close>

theorem key_word_agrees_with_hook:
  "\<exists>w. store_ty (is_t4 SCI_LAUNCH_HARDFORK) authorized_key_sty (key_to_sval (keys kc root k)) slot [] \<sigma> = (Inr (), [], \<sigma>(slot := w))
    \<and> encode_authorized_key (keys kc root k) = Inr w \<and> decode_authorized_key w = Inr (keys kc root k)
    \<and> key_is_active h root k [] kc = (Inr (authorized_key_word_is_active w (now h)), [], kc)
    \<and> \<not> authorized_key_word_is_active 0 (now h)"
proof -
  have "is_t4 SCI_LAUNCH_HARDFORK" by (simp add: SCI_LAUNCH_HARDFORK_def fork_defs)
  then show ?thesis
    using zero_word_inactive by (simp add: key_store_word decode_key_word key_is_active_run key_word_active)
qed

end
