(* ===== verification/Pool.thy ===== *)
theory Pool
  imports Key_Word Transactions L1_Block_Info
begin

text \<open>
  Admission of transactions to the pool (\<open>crates/execution/txpool/src/validator.rs\<close> and the pooled cost of
  \<open>transaction.rs\<close>): the limits on account-abstraction fields, the balance checks of signer and sponsor, the check of
  the signer's key in the committed keychain, and the propagation flag. The validator of the Ethereum layer, the state
  providers and the chain's activation times are parameters.
\<close>

section \<open>Limits and errors\<close>

definition ACCOUNT_KEYCHAIN_ADDRESS :: address where
  "ACCOUNT_KEYCHAIN_ADDRESS = 0xAAAAAAAA00000000000000000000000000000000"

definition MAX_AA_CALLS :: nat where "MAX_AA_CALLS = 32"
definition MAX_AA_CALL_INPUT_SIZE :: nat where "MAX_AA_CALL_INPUT_SIZE = 128 * 1024"
definition MAX_AA_ACCESS_LIST_ACCOUNTS :: nat where "MAX_AA_ACCESS_LIST_ACCOUNTS = 256"
definition MAX_AA_STORAGE_KEYS_PER_ACCOUNT :: nat where "MAX_AA_STORAGE_KEYS_PER_ACCOUNT = 256"
definition MAX_AA_ACCESS_LIST_STORAGE_KEYS_TOTAL :: nat where "MAX_AA_ACCESS_LIST_STORAGE_KEYS_TOTAL = 2048"
definition DEFAULT_DA_FOOTPRINT_GAS_SCALAR :: "16 word" where "DEFAULT_DA_FOOTPRINT_GAS_SCALAR = 400"

lemmas pool_limits = MAX_AA_CALLS_def MAX_AA_CALL_INPUT_SIZE_def MAX_AA_ACCESS_LIST_ACCOUNTS_def
  MAX_AA_STORAGE_KEYS_PER_ACCOUNT_def MAX_AA_ACCESS_LIST_STORAGE_KEYS_TOTAL_def

datatype BaseTxPoolError =
    DaFootprintExceedsBlockGasLimit (transaction_da_footprint: u64) (block_gas_limit: u64)
  | EmptyAaBatch
  | TooManyAaCalls (aa_count: nat) (max_allowed: nat)
  | AaCallInputTooLarge (call_index: nat) (input_size: nat) (max_allowed: nat)
  | TooManyAaAccessListAccounts (aa_count: nat) (max_allowed: nat)
  | TooManyAaStorageKeysPerAccount (account_index: nat) (aa_count: nat) (max_allowed: nat)
  | TooManyAaTotalStorageKeys (aa_count: nat) (max_allowed: nat)
  | AaFeePayerRootMismatch
  | AaSponsoredSignerNotAuthorized (named_root: address) (named_signer: address)

text \<open>The errors of an outcome: those of this code, and those of the inner validator.\<close>

datatype pool_error = TxTypeNotSupported | InsufficientFunds u256 u256 | PoolOther BaseTxPoolError | InnerInvalid string

section \<open>Pooled transactions\<close>

text \<open>What the pool reads of a transaction; \<open>ptx_cost\<close> is the amount the signer must hold.\<close>

record pooled_tx =
  ptx_ty :: u8
  ptx_is_eip4844 :: bool
  ptx_sender :: address
  ptx_gas_limit :: u64
  ptx_cost :: u256
  ptx_aa :: "BaseAaTransaction option"
  ptx_encoded :: bytes

definition aa_signer_pool_cost :: "BaseAaTransaction option \<Rightarrow> address \<Rightarrow> u256 option" where
  "aa_signer_pool_cost self signer = map_option (\<lambda>atx.
     let signer_pays_gas = (at_fee_payer atx = None \<or> at_fee_payer atx = Some signer);
         signer_pays_value = (at_root atx = None \<or> at_root atx = Some signer);
         cost = (if signer_pays_gas
           then sat_add 0 (sat_mul (ucast (at_max_fee_per_gas atx)) (ucast (at_gas_limit atx))) else 0)
     in if signer_pays_value then foldl (\<lambda>acc c. sat_add acc (call_value c)) cost (at_calls atx) else cost) self"

definition build_inner :: "pooled_tx \<Rightarrow> pooled_tx" where
  "build_inner transaction = (case aa_signer_pool_cost (ptx_aa transaction) (ptx_sender transaction) of
     Some cost \<Rightarrow> transaction\<lparr>ptx_cost := cost\<rparr>
   | None \<Rightarrow> transaction)"

definition estimated_compressed_size :: "pooled_tx \<Rightarrow> u64 option" where
  "estimated_compressed_size self = tx_estimated_size_fjord_bytes (ptx_encoded self)"

text \<open>The outcome of a validation. A transaction without blobs is the only content of a valid transaction here.\<close>

record valid_tx =
  vt_balance :: u256
  vt_state_nonce :: u64
  vt_transaction :: pooled_tx
  vt_propagate :: bool
  vt_bytecode_hash :: "b256 option"
  vt_authorities :: "address list option"

datatype outcome = Outcome_Valid valid_tx | Outcome_Invalid pooled_tx pool_error | Outcome_Error string

section \<open>The validator\<close>

text \<open>Readers of accounts answer with the balance; the inner validator, the state providers and the activation times of
  the chain are parameters.\<close>

type_synonym account_reader = "address \<Rightarrow> string + u256 option"

record state_provider =
  basic_account :: account_reader
  storage_at :: "address \<Rightarrow> u256 \<Rightarrow> string + u256 option"

record 'o validator =
  inner_validate :: "'o \<Rightarrow> pooled_tx \<Rightarrow> account_reader option \<Rightarrow> outcome \<times> account_reader option"
  inner_block_gas_limit :: u64
  client_latest :: "string + state_provider"
  upgrade_active :: "BaseUpgrade \<Rightarrow> u64 \<Rightarrow> bool"
  pool_l1_info :: L1BlockInfo
  pool_timestamp :: u64
  require_l1_data_gas_fee :: bool

fun check_inputs :: "nat \<Rightarrow> AaCall list \<Rightarrow> BaseTxPoolError option" where
  "check_inputs i [] = None"
| "check_inputs i (c # cs) = (if length (call_input c) > MAX_AA_CALL_INPUT_SIZE
     then Some (AaCallInputTooLarge i (length (call_input c)) MAX_AA_CALL_INPUT_SIZE) else check_inputs (i + 1) cs)"

text \<open>The counter of storage keys is a \<open>usize\<close> that saturates.\<close>

fun check_access_list :: "nat \<Rightarrow> nat \<Rightarrow> AccessList \<Rightarrow> BaseTxPoolError + nat" where
  "check_access_list i total_keys [] = Inr total_keys"
| "check_access_list i total_keys (entry # rest) = (if length (snd entry) > MAX_AA_STORAGE_KEYS_PER_ACCOUNT
     then Inl (TooManyAaStorageKeysPerAccount i (length (snd entry)) MAX_AA_STORAGE_KEYS_PER_ACCOUNT)
     else check_access_list (i + 1) (min (total_keys + length (snd entry)) (2 ^ 64 - 1)) rest)"

definition ensure_aa_field_limits :: "pooled_tx \<Rightarrow> BaseTxPoolError option" where
  "ensure_aa_field_limits transaction = (case ptx_aa transaction of
     None \<Rightarrow> None
   | Some atx \<Rightarrow>
       if at_calls atx = [] then Some EmptyAaBatch
       else if length (at_calls atx) > MAX_AA_CALLS then Some (TooManyAaCalls (length (at_calls atx)) MAX_AA_CALLS)
       else (case check_inputs 0 (at_calls atx) of
         Some err \<Rightarrow> Some err
       | None \<Rightarrow>
         if length (at_access_list atx) > MAX_AA_ACCESS_LIST_ACCOUNTS
         then Some (TooManyAaAccessListAccounts (length (at_access_list atx)) MAX_AA_ACCESS_LIST_ACCOUNTS)
         else (case check_access_list 0 0 (at_access_list atx) of
           Inl err \<Rightarrow> Some err
         | Inr total_keys \<Rightarrow> if total_keys > MAX_AA_ACCESS_LIST_STORAGE_KEYS_TOTAL
             then Some (TooManyAaTotalStorageKeys total_keys MAX_AA_ACCESS_LIST_STORAGE_KEYS_TOTAL) else None)))"

text \<open>From here on \<open>None\<close> is the panic of the size estimate on inputs of two gigabytes and more.\<close>

definition pool_cost_addition :: "calldata_gas \<Rightarrow> 'o validator \<Rightarrow> pooled_tx \<Rightarrow> u64 \<Rightarrow> u256 option" where
  "pool_cost_addition cg self tx gas = map_option fst (tx_cost cg (pool_l1_info self) (ptx_encoded tx) (ucast gas)
     (upgrade_from_timestamp (upgrade_active self) (pool_timestamp self)))"

definition da_footprint_error :: "'o validator \<Rightarrow> pooled_tx \<Rightarrow> BaseTxPoolError option option" where
  "da_footprint_error self tx =
     (if upgrade_active self Jovian (pool_timestamp self) then
        map_option (\<lambda>size.
          let da_footprint = sat_mul size (ucast (case da_footprint_gas_scalar (pool_l1_info self) of
                Some scalar \<Rightarrow> scalar | None \<Rightarrow> DEFAULT_DA_FOOTPRINT_GAS_SCALAR))
          in if da_footprint > inner_block_gas_limit self
             then Some (DaFootprintExceedsBlockGasLimit da_footprint (inner_block_gas_limit self)) else None)
        (estimated_compressed_size tx)
      else Some None)"

definition sponsor_of :: "pooled_tx \<Rightarrow> address option" where
  "sponsor_of tx = Option.bind (ptx_aa tx) (\<lambda>atx. case at_fee_payer atx of
     Some fp \<Rightarrow> if fp \<noteq> ptx_sender tx then Some fp else None | None \<Rightarrow> None)"

definition apply_base_checks :: "calldata_gas \<Rightarrow> 'o validator \<Rightarrow> outcome \<Rightarrow> outcome option" where
  "apply_base_checks cg self out =
     (if \<not> require_l1_data_gas_fee self then Some out
      else case out of
        Outcome_Valid v \<Rightarrow>
          let tx = vt_transaction v in
          Option.bind (da_footprint_error self tx) (\<lambda>too_large. case too_large of
            Some err \<Rightarrow> Some (Outcome_Invalid tx (PoolOther err))
          | None \<Rightarrow> Option.bind (pool_cost_addition cg self tx (ptx_gas_limit tx)) (\<lambda>cost_addition.
              let cost = sat_add (ptx_cost tx) cost_addition in
              if sponsor_of tx = None \<and> cost > vt_balance v
              then Some (Outcome_Invalid tx (InsufficientFunds (vt_balance v) cost))
              else Some (Outcome_Valid v)))
      | _ \<Rightarrow> Some out)"

definition account_balance :: "'o validator \<Rightarrow> address \<Rightarrow> account_reader option \<Rightarrow> u256" where
  "account_balance self addr state =
     (let latest = (case client_latest self of
            Inl _ \<Rightarrow> 0
          | Inr sp \<Rightarrow> (case basic_account sp addr of Inr (Some account) \<Rightarrow> account | _ \<Rightarrow> 0))
      in case state of
        Some reader \<Rightarrow> (case reader addr of Inr (Some account) \<Rightarrow> account | _ \<Rightarrow> latest)
      | None \<Rightarrow> latest)"

definition check_aa_sponsor_balance :: "calldata_gas \<Rightarrow> 'o validator \<Rightarrow> outcome \<Rightarrow> account_reader option \<Rightarrow> outcome option" where
  "check_aa_sponsor_balance cg self out state = (case out of
     Outcome_Valid v \<Rightarrow>
       let tx = vt_transaction v in
       (case (ptx_aa tx, sponsor_of tx) of
         (Some atx, Some fp) \<Rightarrow>
           let gas_cost = sat_mul (ucast (at_max_fee_per_gas atx)) (ucast (at_gas_limit atx));
               val = foldl (\<lambda>acc c. sat_add acc (call_value c)) 0 (at_calls atx)
           in Option.bind (if require_l1_data_gas_fee self then pool_cost_addition cg self tx (at_gas_limit atx) else Some 0) (\<lambda>l1_cost.
              let needed = sat_add (sat_add gas_cost val) l1_cost;
                  fee_payer_balance = account_balance self fp state
              in if fee_payer_balance < needed
                 then Some (Outcome_Invalid tx (InsufficientFunds fee_payer_balance needed))
                 else Some (Outcome_Valid v))
       | _ \<Rightarrow> Some (Outcome_Valid v))
   | _ \<Rightarrow> Some out)"

definition keychain_word :: "(bytes \<Rightarrow> b256) \<Rightarrow> 'o validator \<Rightarrow> address \<Rightarrow> address \<Rightarrow> string + u256" where
  "keychain_word K self root signer = (case client_latest self of
     Inl e \<Rightarrow> Inl e
   | Inr sp \<Rightarrow> map_sum id (\<lambda>word. case word of Some w \<Rightarrow> w | None \<Rightarrow> 0)
       (storage_at sp ACCOUNT_KEYCHAIN_ADDRESS (authorized_key_slot K root signer)))"

definition check_aa_keychain_authorization :: "(bytes \<Rightarrow> b256) \<Rightarrow> 'o validator \<Rightarrow> outcome \<Rightarrow> outcome" where
  "check_aa_keychain_authorization K self out = (case out of
     Outcome_Valid v \<Rightarrow>
       let tx = vt_transaction v; sender = ptx_sender tx in
       (case ptx_aa tx of
         Some atx \<Rightarrow>
           if at_fee_payer atx \<noteq> None \<and> at_fee_payer atx \<noteq> at_root atx
           then Outcome_Invalid tx (PoolOther AaFeePayerRootMismatch)
           else (case sponsor_of tx of
             Some sponsor_root \<Rightarrow>
               (case keychain_word K self sponsor_root sender of
                  Inr word \<Rightarrow> if \<not> authorized_key_word_is_active word (pool_timestamp self)
                    then Outcome_Invalid tx (PoolOther (AaSponsoredSignerNotAuthorized sponsor_root sender))
                    else Outcome_Valid v
                | Inl _ \<Rightarrow> Outcome_Valid v)
           | None \<Rightarrow> Outcome_Valid v)
       | None \<Rightarrow> Outcome_Valid v)
   | _ \<Rightarrow> out)"

definition validate_one_with_state :: "calldata_gas \<Rightarrow> (bytes \<Rightarrow> b256) \<Rightarrow> bool \<Rightarrow> 'o validator \<Rightarrow> 'o \<Rightarrow> pooled_tx \<Rightarrow>
    account_reader option \<Rightarrow> (outcome \<times> account_reader option) option" where
  "validate_one_with_state cg K AA_GOSSIP_ENABLED self origin transaction state =
     (if ptx_is_eip4844 transaction then Some (Outcome_Invalid transaction TxTypeNotSupported, state)
      else let is_aa = (ptx_ty transaction = SCI_AA_TX_TYPE_ID) in
      case (if is_aa then ensure_aa_field_limits transaction else None) of
        Some err \<Rightarrow> Some (Outcome_Invalid transaction (PoolOther err), state)
      | None \<Rightarrow>
        (case inner_validate self origin transaction state of (out, state) \<Rightarrow>
         Option.bind (apply_base_checks cg self out) (\<lambda>out.
         Option.bind (check_aa_sponsor_balance cg self out state) (\<lambda>out.
         case check_aa_keychain_authorization K self out of
           Outcome_Valid v \<Rightarrow> Some (Outcome_Valid (if is_aa \<and> \<not> AA_GOSSIP_ENABLED then v\<lparr>vt_propagate := False\<rparr> else v), state)
         | out \<Rightarrow> Some (out, state)))))"

definition validate_one :: "calldata_gas \<Rightarrow> (bytes \<Rightarrow> b256) \<Rightarrow> bool \<Rightarrow> 'o validator \<Rightarrow> 'o \<Rightarrow> pooled_tx \<Rightarrow> outcome option" where
  "validate_one cg K AA_GOSSIP_ENABLED self origin transaction =
     map_option fst (validate_one_with_state cg K AA_GOSSIP_ENABLED self origin transaction None)"

section \<open>What is admitted\<close>

definition within_limits :: "BaseAaTransaction \<Rightarrow> bool" where
  "within_limits atx \<longleftrightarrow> 1 \<le> length (at_calls atx) \<and> length (at_calls atx) \<le> 32
     \<and> (\<forall>c \<in> set (at_calls atx). length (call_input c) \<le> 131072)
     \<and> length (at_access_list atx) \<le> 256 \<and> (\<forall>e \<in> set (at_access_list atx). length (snd e) \<le> 256)
     \<and> (\<Sum>e \<leftarrow> at_access_list atx. length (snd e)) \<le> 2048"

lemma check_inputs_None: "check_inputs i cs = None \<longleftrightarrow> (\<forall>c \<in> set cs. length (call_input c) \<le> 131072)"
  by (induction cs arbitrary: i) (auto simp: pool_limits)

lemma check_access_list_result:
  "check_access_list i t es = Inr r \<longleftrightarrow> (\<forall>e \<in> set es. length (snd e) \<le> 256)
     \<and> r = (if es = [] then t else min (t + (\<Sum>e \<leftarrow> es. length (snd e))) (2 ^ 64 - 1))"
proof (induction es arbitrary: i t)
  case (Cons e es)
  show ?case by (auto simp: Cons.IH pool_limits min_def not_less)
qed auto

lemma field_limits_decided:
  assumes "ptx_aa tx = Some atx"
  shows "ensure_aa_field_limits tx = None \<longleftrightarrow> within_limits atx"
proof (cases "check_access_list 0 0 (at_access_list atx)")
  case (Inl e)
  have "\<not> (\<forall>e \<in> set (at_access_list atx). length (snd e) \<le> 256)"
    using Inl check_access_list_result [of 0 0 "at_access_list atx"] by (metis sum.distinct(1))
  then show ?thesis
    using assms Inl by (auto simp: ensure_aa_field_limits_def within_limits_def split: option.splits)
next
  case (Inr r)
  then show ?thesis
    using assms Inr [unfolded check_access_list_result] check_inputs_None [of 0 "at_calls atx"]
    by (auto simp: ensure_aa_field_limits_def within_limits_def pool_limits Suc_le_eq min_def
      split: option.splits if_splits)
qed

lemma unat_fold_values:
  "unat (foldl (\<lambda>acc c. sat_add acc (call_value c)) (a :: u256) cs) = min (unat a + (\<Sum>c \<leftarrow> cs. unat (call_value c))) (2 ^ 256 - 1)"
proof (induction cs arbitrary: a)
  case Nil
  then show ?case using unat_le_max [of a] by simp
next
  case (Cons c cs)
  then show ?case by (simp add: unat_sat_add)
qed

lemma pool_cost_total: "length (ptx_encoded tx) < 2 ^ 31 \<Longrightarrow> \<exists>c. pool_cost_addition cg V tx g = Some c"
  using estimate_ok [of "ptx_encoded tx"]
  by (fastforce simp: pool_cost_addition_def tx_cost_def calculate_tx_l1_cost_def calculate_tx_l1_cost_fjord_def
    calculate_tx_l1_cost_ecotone_def calculate_tx_l1_cost_bedrock_def data_gas_def l1_tx_estimated_size_fjord_def Let_def
    split: option.splits)

lemma sponsor_cases:
  assumes "ptx_aa tx = Some atx"
  shows "sponsor_of tx = (case at_fee_payer atx of Some fp \<Rightarrow> if fp \<noteq> ptx_sender tx then Some fp else None | None \<Rightarrow> None)"
  using assms by (simp add: sponsor_of_def)

definition da_fits :: "'o validator \<Rightarrow> pooled_tx \<Rightarrow> bool" where
  "da_fits V tx \<longleftrightarrow> da_footprint_error V tx = Some None"

text \<open>What the signer and the sponsor of a transaction must hold, as sums of integers; both stop at the largest word.\<close>

definition gas_bill :: "BaseAaTransaction \<Rightarrow> nat" where
  "gas_bill atx = unat (at_max_fee_per_gas atx) * unat (at_gas_limit atx)"

definition value_bill :: "BaseAaTransaction \<Rightarrow> nat" where
  "value_bill atx = (\<Sum>c \<leftarrow> at_calls atx. unat (call_value c))"

lemma unat_gas_bill: "unat (sat_mul (ucast (at_max_fee_per_gas atx)) (ucast (at_gas_limit atx)) :: u256) = gas_bill atx"
proof -
  have "unat (at_max_fee_per_gas atx) < 2 ^ 128" "unat (at_gas_limit atx) < 2 ^ 64"
    using unsigned_less [of "at_max_fee_per_gas atx"] unsigned_less [of "at_gas_limit atx"] by simp_all
  then have "gas_bill atx < 2 ^ 128 * 2 ^ 64" unfolding gas_bill_def by (intro mult_strict_mono) simp_all
  then show ?thesis
    by (simp add: unat_sat_mul gas_bill_def unsigned_ucast_eq take_bit_nat_eq_self \<open>_ < 2 ^ 128\<close> \<open>_ < 2 ^ 64\<close>)
qed

lemma sponsor_needs:
  "unat (sat_add (sat_add (sat_mul (ucast (at_max_fee_per_gas atx)) (ucast (at_gas_limit atx)))
      (foldl (\<lambda>acc c. sat_add acc (call_value c)) 0 (at_calls atx))) c :: u256)
   = min (gas_bill atx + value_bill atx + unat c) (2 ^ 256 - 1)"
  by (simp add: unat_sat_add unat_gas_bill unat_fold_values value_bill_def)

lemma signer_cost:
  assumes "ptx_aa tx = Some atx" "sponsor_of tx = None"
  shows "unat (sat_add (ptx_cost (build_inner tx)) c)
    = min (gas_bill atx + (if at_root atx = None \<or> at_root atx = Some (ptx_sender tx) then value_bill atx else 0) + unat c) (2 ^ 256 - 1)"
proof -
  have "at_fee_payer atx = None \<or> at_fee_payer atx = Some (ptx_sender tx)"
    using assms by (auto simp: sponsor_of_def split: option.splits if_splits)
  then show ?thesis
    using assms(1) by (auto simp: build_inner_def aa_signer_pool_cost_def Let_def unat_sat_add unat_gas_bill unat_fold_values value_bill_def)
qed

text \<open>What the pool requires of an account-abstraction transaction that the inner validator accepted with the outcome
  \<open>v\<close>: \<open>c\<close> is the cost of its data and operator fee. A key is asked for only of a sponsored transaction, and only if the
  keychain can be read.\<close>

definition admissible :: "(bytes \<Rightarrow> b256) \<Rightarrow> 'o validator \<Rightarrow> AccountKeychain \<Rightarrow> account_reader option \<Rightarrow> valid_tx \<Rightarrow> BaseAaTransaction \<Rightarrow> nat \<Rightarrow> bool" where
  "admissible K V kc state v atx c \<longleftrightarrow>
     within_limits atx
   \<and> (at_fee_payer atx = None \<or> at_fee_payer atx = at_root atx)
   \<and> (require_l1_data_gas_fee V \<longrightarrow> da_fits V (vt_transaction v))
   \<and> (case sponsor_of (vt_transaction v) of
        Some root \<Rightarrow> min (gas_bill atx + value_bill atx + (if require_l1_data_gas_fee V then c else 0)) (2 ^ 256 - 1)
            \<le> unat (account_balance V root state)
          \<and> (case keychain_word K V root (ptx_sender (vt_transaction v)) of
               Inr _ \<Rightarrow> key_active (pool_timestamp V) (keys kc root (ptx_sender (vt_transaction v)))
             | Inl _ \<Rightarrow> True)
      | None \<Rightarrow> require_l1_data_gas_fee V \<longrightarrow>
          min (gas_bill atx + (if at_root atx = None \<or> at_root atx = Some (ptx_sender (vt_transaction v)) then value_bill atx else 0) + c)
            (2 ^ 256 - 1) \<le> unat (vt_balance v))"

lemma sponsor_of_cost: "sponsor_of (tx\<lparr>ptx_cost := c\<rparr>) = sponsor_of tx"
  by (cases "ptx_aa tx") (auto simp: sponsor_of_def split: option.splits)

lemma build_inner_cost: "\<exists>c. build_inner tx = tx\<lparr>ptx_cost := c\<rparr>"
proof (cases "aa_signer_pool_cost (ptx_aa tx) (ptx_sender tx)")
  case None
  then have "build_inner tx = tx\<lparr>ptx_cost := ptx_cost tx\<rparr>" by (simp add: build_inner_def)
  then show ?thesis by blast
qed (auto simp: build_inner_def)

lemma build_inner_simps [simp]: "ptx_aa (build_inner tx) = ptx_aa tx" "ptx_sender (build_inner tx) = ptx_sender tx"
  "ptx_gas_limit (build_inner tx) = ptx_gas_limit tx" "ptx_encoded (build_inner tx) = ptx_encoded tx" "ptx_ty (build_inner tx) = ptx_ty tx"
  "ptx_is_eip4844 (build_inner tx) = ptx_is_eip4844 tx" "sponsor_of (build_inner tx) = sponsor_of tx"
  using build_inner_cost [of tx] sponsor_of_cost [where tx = tx] by auto

lemma da_decided:
  assumes "length (ptx_encoded tx) < 2 ^ 31"
  shows "da_fits V tx \<or> (\<exists>err. da_footprint_error V tx = Some (Some err))"
  using estimate_ok [OF assms]
  by (auto simp: da_fits_def da_footprint_error_def estimated_compressed_size_def tx_estimated_size_fjord_bytes_def Let_def)

lemma base_checks_decided:
  assumes "vt_transaction v = build_inner tx" "ptx_aa tx = Some atx" "length (ptx_encoded tx) < 2 ^ 31"
    "pool_cost_addition cg V (build_inner tx) (ptx_gas_limit tx) = Some c"
  shows "if (require_l1_data_gas_fee V \<longrightarrow> da_fits V (build_inner tx)) \<and> (sponsor_of tx = None \<longrightarrow> require_l1_data_gas_fee V \<longrightarrow>
      min (gas_bill atx + (if at_root atx = None \<or> at_root atx = Some (ptx_sender tx) then value_bill atx else 0) + unat c)
        (2 ^ 256 - 1) \<le> unat (vt_balance v))
    then apply_base_checks cg V (Outcome_Valid v) = Some (Outcome_Valid v)
    else \<exists>e. apply_base_checks cg V (Outcome_Valid v) = Some (Outcome_Invalid (build_inner tx) e)"
proof -
  let ?run = "apply_base_checks cg V (Outcome_Valid v)"
  consider (free) "\<not> require_l1_data_gas_fee V" | (big) e where "require_l1_data_gas_fee V" "da_footprint_error V (build_inner tx) = Some (Some e)"
    | (fits) "require_l1_data_gas_fee V" "da_footprint_error V (build_inner tx) = Some None"
    using da_decided [of "build_inner tx" V] assms(3) by (auto simp: da_fits_def)
  then show ?thesis
  proof cases
    case free
    then show ?thesis by (simp add: apply_base_checks_def)
  next
    case big
    then have "?run = Some (Outcome_Invalid (build_inner tx) (PoolOther e))" "\<not> da_fits V (build_inner tx)"
      by (simp_all add: apply_base_checks_def assms(1) Let_def da_fits_def)
    then show ?thesis using big(1) by simp
  next
    case fits
    then have "?run = (if sponsor_of tx = None \<and> sat_add (ptx_cost (build_inner tx)) c > vt_balance v
        then Some (Outcome_Invalid (build_inner tx) (InsufficientFunds (vt_balance v) (sat_add (ptx_cost (build_inner tx)) c)))
        else Some (Outcome_Valid v))"
      by (simp add: apply_base_checks_def assms(1,4) Let_def)
    moreover have "da_fits V (build_inner tx)" using fits by (simp add: da_fits_def)
    moreover have "sat_add (ptx_cost (build_inner tx)) c > vt_balance v \<longleftrightarrow>
        \<not> min (gas_bill atx + (if at_root atx = None \<or> at_root atx = Some (ptx_sender tx) then value_bill atx else 0) + unat c)
          (2 ^ 256 - 1) \<le> unat (vt_balance v)" if "sponsor_of tx = None"
      unfolding word_less_nat_alt signer_cost [OF assms(2) that] by (rule not_le [symmetric])
    ultimately show ?thesis using fits(1) by (cases "sponsor_of tx = None") (simp_all only: simp_thms if_True if_False, auto)
  qed
qed

lemma sponsor_decided:
  assumes "vt_transaction v = tx" "ptx_aa tx = Some atx" "sponsor_of tx = Some root"
    "pool_cost_addition cg V tx (at_gas_limit atx) = Some c"
  shows "if min (gas_bill atx + value_bill atx + (if require_l1_data_gas_fee V then unat c else 0)) (2 ^ 256 - 1)
      \<le> unat (account_balance V root state)
    then check_aa_sponsor_balance cg V (Outcome_Valid v) state = Some (Outcome_Valid v)
    else \<exists>e. check_aa_sponsor_balance cg V (Outcome_Valid v) state = Some (Outcome_Invalid tx e)"
  using assms sponsor_needs [of atx c] sponsor_needs [of atx 0]
  by (auto simp: check_aa_sponsor_balance_def Let_def word_less_nat_alt not_less)

lemma keychain_decided:
  assumes "vt_transaction v = tx" "ptx_aa tx = Some atx"
    "\<forall>r w. at_fee_payer atx = Some r \<longrightarrow> keychain_word K V r (ptx_sender tx) = Inr w \<longrightarrow> w = key_word (keys kc r (ptx_sender tx))"
  shows "if (at_fee_payer atx = None \<or> at_fee_payer atx = at_root atx)
      \<and> (case sponsor_of tx of Some root \<Rightarrow> (case keychain_word K V root (ptx_sender tx) of
             Inr _ \<Rightarrow> key_active (pool_timestamp V) (keys kc root (ptx_sender tx)) | Inl _ \<Rightarrow> True) | None \<Rightarrow> True)
    then check_aa_keychain_authorization K V (Outcome_Valid v) = Outcome_Valid v
    else \<exists>e. check_aa_keychain_authorization K V (Outcome_Valid v) = Outcome_Invalid tx e"
  using assms
  by (auto simp: check_aa_keychain_authorization_def Let_def key_word_active sponsor_of_def split: option.splits if_splits sum.splits)

lemma refused_stays_refused:
  "check_aa_sponsor_balance cg V (Outcome_Invalid tx e) state = Some (Outcome_Invalid tx e)"
  "check_aa_keychain_authorization K V (Outcome_Invalid tx e) = Outcome_Invalid tx e"
  by (simp_all add: check_aa_sponsor_balance_def check_aa_keychain_authorization_def)

lemma unsponsored_passes:
  "sponsor_of (vt_transaction v) = None \<Longrightarrow> check_aa_sponsor_balance cg V (Outcome_Valid v) state = Some (Outcome_Valid v)"
  by (simp add: check_aa_sponsor_balance_def Let_def split: option.splits)

lemma three_stages:
  assumes "if A then r = Some (Outcome_Valid v) else \<exists>e. r = Some (Outcome_Invalid t e)"
    "if B then check_aa_sponsor_balance cg V (Outcome_Valid v) st = Some (Outcome_Valid v)
     else \<exists>e. check_aa_sponsor_balance cg V (Outcome_Valid v) st = Some (Outcome_Invalid t e)"
    "if C then check_aa_keychain_authorization K V (Outcome_Valid v) = Outcome_Valid v
     else \<exists>e. check_aa_keychain_authorization K V (Outcome_Valid v) = Outcome_Invalid t e"
    "run = Option.bind r (\<lambda>out. Option.bind (check_aa_sponsor_balance cg V out st) (\<lambda>out.
      case check_aa_keychain_authorization K V out of Outcome_Valid v \<Rightarrow> Some (Outcome_Valid (f v), st) | out \<Rightarrow> Some (out, st)))"
  shows "if A \<and> B \<and> C then run = Some (Outcome_Valid (f v), st) else \<exists>e s. run = Some (Outcome_Invalid t e, s)"
proof (cases "A \<and> B \<and> C")
  case True
  then have "r = Some (Outcome_Valid v)" "check_aa_sponsor_balance cg V (Outcome_Valid v) st = Some (Outcome_Valid v)"
    "check_aa_keychain_authorization K V (Outcome_Valid v) = Outcome_Valid v" using assms(1-3) by simp_all
  then show ?thesis using True by (simp only: assms(4) simp_thms if_True Option.bind.simps outcome.case)
next
  case False
  then consider (base) e where "r = Some (Outcome_Invalid t e)"
    | (sponsor) e where "r = Some (Outcome_Valid v)" "check_aa_sponsor_balance cg V (Outcome_Valid v) st = Some (Outcome_Invalid t e)"
    | (key) e where "r = Some (Outcome_Valid v)" "check_aa_sponsor_balance cg V (Outcome_Valid v) st = Some (Outcome_Valid v)"
        "check_aa_keychain_authorization K V (Outcome_Valid v) = Outcome_Invalid t e"
    using assms(1-3) by (cases A; cases B; cases C) (simp_all, blast+)
  then have "\<exists>e s. run = Some (Outcome_Invalid t e, s)"
    by cases (simp_all only: assms(4) Option.bind.simps outcome.case refused_stays_refused, blast+)
  then show ?thesis by (simp only: if_not_P [OF False])
qed

text \<open>C6: what the pool admits. Let the inner validator accept an account-abstraction transaction of less than two
  gigabytes, and let every word the pool can read for its fee payer and signer be the word of that key in a keychain. Then
  the pool returns a verdict, and admits the transaction exactly if it is within all field limits, a fee payer it names is
  its root, its data fits the block where data is charged, and whoever pays can: the root of a sponsored transaction holds at
  least gas, values and data cost, and, unless the keychain cannot be read, has given the signer a key that is active by the
  keychain's own test; the signer of any other transaction holds its share and the data cost, and needs no key here. An
  admitted transaction is offered to peers only if gossip is enabled. All others are refused as they were submitted.\<close>

theorem pool_admits_exactly:
  assumes inner: "inner_validate V origin (build_inner tx) state = (Outcome_Valid v, state')" "vt_transaction v = build_inner tx"
    and tx: "ptx_ty tx = SCI_AA_TX_TYPE_ID" "\<not> ptx_is_eip4844 tx" "ptx_aa tx = Some atx" "ptx_gas_limit tx = at_gas_limit atx"
      "length (ptx_encoded tx) < 2 ^ 31"
    and committed: "\<forall>r w. at_fee_payer atx = Some r \<longrightarrow> keychain_word K V r (ptx_sender tx) = Inr w \<longrightarrow>
      encode_authorized_key (keys kc r (ptx_sender tx)) = Inr w"
  shows "\<exists>c. pool_cost_addition cg V (build_inner tx) (at_gas_limit atx) = Some c
    \<and> (if admissible K V kc state' v atx (unat c)
       then validate_one_with_state cg K gossip V origin (build_inner tx) state
         = Some (Outcome_Valid (v\<lparr>vt_propagate := gossip \<and> vt_propagate v\<rparr>), state')
       else \<exists>e st. validate_one_with_state cg K gossip V origin (build_inner tx) state = Some (Outcome_Invalid (build_inner tx) e, st))"
proof -
  obtain c where c: "pool_cost_addition cg V (build_inner tx) (at_gas_limit atx) = Some c"
    using pool_cost_total [of "build_inner tx" cg V "at_gas_limit atx"] tx(5) by auto
  have word: "\<forall>r w. at_fee_payer atx = Some r \<longrightarrow> keychain_word K V r (ptx_sender (build_inner tx)) = Inr w \<longrightarrow>
      w = key_word (keys kc r (ptx_sender (build_inner tx)))"
    using committed by (auto simp: key_store_word)
  have base: "pool_cost_addition cg V (build_inner tx) (ptx_gas_limit tx) = Some c" using c tx(4) by simp
  have aa: "ptx_aa (build_inner tx) = Some atx" using tx(3) by simp
  show ?thesis
  proof (cases "within_limits atx")
    case False
    then obtain err where "ensure_aa_field_limits (build_inner tx) = Some err"
      using field_limits_decided [of "build_inner tx" atx] tx(3) by auto
    then show ?thesis using False c tx(1,2) by (auto simp: validate_one_with_state_def admissible_def)
  next
    case True
    then have lim: "ensure_aa_field_limits (build_inner tx) = None"
      using field_limits_decided [of "build_inner tx" atx] tx(3) by simp
    have run: "validate_one_with_state cg K gossip V origin (build_inner tx) state =
      Option.bind (apply_base_checks cg V (Outcome_Valid v)) (\<lambda>out.
      Option.bind (check_aa_sponsor_balance cg V out state') (\<lambda>out.
      case check_aa_keychain_authorization K V out of
        Outcome_Valid v \<Rightarrow> Some (Outcome_Valid (if True \<and> \<not> gossip then v\<lparr>vt_propagate := False\<rparr> else v), state')
      | out \<Rightarrow> Some (out, state')))"
      using lim tx(1,2) inner(1) by (simp add: validate_one_with_state_def)
    have gossip: "(if True \<and> \<not> gossip then v\<lparr>vt_propagate := False\<rparr> else v) = v\<lparr>vt_propagate := gossip \<and> vt_propagate v\<rparr>" by simp
    define B where "B = (case sponsor_of tx of None \<Rightarrow> True | Some root \<Rightarrow>
      min (gas_bill atx + value_bill atx + (if require_l1_data_gas_fee V then unat c else 0)) (2 ^ 256 - 1)
      \<le> unat (account_balance V root state'))"
    have B: "if B then check_aa_sponsor_balance cg V (Outcome_Valid v) state' = Some (Outcome_Valid v)
      else \<exists>e. check_aa_sponsor_balance cg V (Outcome_Valid v) state' = Some (Outcome_Invalid (build_inner tx) e)"
    proof (cases "sponsor_of tx")
      case None
      then show ?thesis using unsponsored_passes [of v] inner(2) by (simp add: B_def)
    next
      case (Some root)
      then have "sponsor_of (build_inner tx) = Some root" by simp
      from sponsor_decided [OF inner(2) aa this c, of state'] show ?thesis unfolding B_def Some by simp
    qed
    note stages = three_stages [OF base_checks_decided [OF inner(2) tx(3,5) base] B keychain_decided [OF inner(2) aa word] run]
    have adm: "admissible K V kc state' v atx (unat c) \<longleftrightarrow>
      ((require_l1_data_gas_fee V \<longrightarrow> da_fits V (build_inner tx)) \<and> (sponsor_of tx = None \<longrightarrow> require_l1_data_gas_fee V \<longrightarrow>
        min (gas_bill atx + (if at_root atx = None \<or> at_root atx = Some (ptx_sender tx) then value_bill atx else 0) + unat c)
          (2 ^ 256 - 1) \<le> unat (vt_balance v))) \<and> B \<and>
      (at_fee_payer atx = None \<or> at_fee_payer atx = at_root atx) \<and> (case sponsor_of (build_inner tx) of
        Some root \<Rightarrow> (case keychain_word K V root (ptx_sender (build_inner tx)) of
          Inr _ \<Rightarrow> key_active (pool_timestamp V) (keys kc root (ptx_sender (build_inner tx))) | Inl _ \<Rightarrow> True) | None \<Rightarrow> True)"
      using True by (cases "sponsor_of tx") (simp_all only: admissible_def B_def inner(2) build_inner_simps option.case simp_thms
        option.distinct, blast+)
    show ?thesis
      by (rule exI [of _ c], rule conjI [OF c], unfold adm) (rule stages [unfolded gossip])
  qed
qed

definition pool_aa :: BaseAaTransaction where
  "pool_aa = \<lparr>at_chain_id = 1, at_nonce = 0, at_max_priority_fee_per_gas = 1, at_max_fee_per_gas = 10, at_gas_limit = 1000,
     at_calls = [\<lparr>call_to = Call 9, call_value = 7, call_input = []\<rparr>], at_access_list = [], at_fee_payer = Some 1, at_root = Some 1\<rparr>"

definition pool_tx :: pooled_tx where
  "pool_tx = \<lparr>ptx_ty = SCI_AA_TX_TYPE_ID, ptx_is_eip4844 = False, ptx_sender = 2, ptx_gas_limit = 1000, ptx_cost = 10007,
     ptx_aa = Some pool_aa, ptx_encoded = [0x76]\<rparr>"

definition pool_key :: AuthorizedKey where
  "pool_key = \<lparr>signature_type = 0, expiry = 2000, enforce_limits = True, is_revoked = False\<rparr>"

definition pool_outcome :: "pooled_tx \<Rightarrow> valid_tx" where
  "pool_outcome tx = \<lparr>vt_balance = 0, vt_state_nonce = 0, vt_transaction = tx, vt_propagate = True, vt_bytecode_hash = None,
     vt_authorities = None\<rparr>"

definition pool_at :: "string + u256 option \<Rightarrow> u64 \<Rightarrow> unit validator" where
  "pool_at word ts = \<lparr>inner_validate = (\<lambda>_ tx state. (Outcome_Valid (pool_outcome tx), state)), inner_block_gas_limit = 30000000,
     client_latest = Inr \<lparr>basic_account = (\<lambda>a. Inr (if a = 1 then Some 10012 else None)), storage_at = (\<lambda>_ _. word)\<rparr>,
     upgrade_active = (\<lambda>_ _. False), pool_l1_info = default_l1_info\<lparr>tx_l1_cost := Some 5\<rparr>, pool_timestamp = ts,
     require_l1_data_gas_fee = True\<rparr>"

definition pool_keychain :: AccountKeychain where
  "pool_keychain = empty_keychain\<lparr>keys := (\<lambda>_ _. pool_key)\<rparr>"

lemma pool_sample_cost: "pool_cost_addition cg (pool_at word ts) (build_inner pool_tx) 1000 = Some 5"
  by (simp add: pool_cost_addition_def pool_at_def tx_cost_def calculate_tx_l1_cost_def upgrade_from_timestamp_def is_enabled_in_def)

lemma pool_sample_word: "keychain_word K (pool_at word ts) r k = map_sum id (\<lambda>w. case w of Some x \<Rightarrow> x | None \<Rightarrow> 0) word"
  by (simp add: keychain_word_def pool_at_def)

lemma pool_sample_admissible:
  "admissible K (pool_at word ts) pool_keychain None (pool_outcome (build_inner pool_tx)) pool_aa 5 \<longleftrightarrow> (isl word \<or> ts < 2000)"
proof -
  have "sponsor_of pool_tx = Some 1" "within_limits pool_aa" "gas_bill pool_aa = 10000" "value_bill pool_aa = 7"
    "da_fits (pool_at word ts) (build_inner pool_tx)"
    by (simp_all add: sponsor_of_def pool_tx_def pool_aa_def within_limits_def gas_bill_def value_bill_def da_fits_def
      da_footprint_error_def pool_at_def)
  then show ?thesis
    by (cases word; simp add: admissible_def pool_outcome_def account_balance_def pool_sample_word;
      simp add: pool_at_def pool_aa_def pool_keychain_def pool_key_def key_active_def)
qed

text \<open>A key that expires at 2000: its transaction is admitted at 1000 and refused at 3000, and admitted there if the
  storage cannot be read.\<close>

theorem pool_admits_exactly_witness:
  "validate_one_with_state sample_cg be_word False (pool_at (Inr (Some (key_word pool_key))) 1000) () (build_inner pool_tx) None
     = Some (Outcome_Valid ((pool_outcome (build_inner pool_tx))\<lparr>vt_propagate := False\<rparr>), None)
   \<and> (\<exists>e st. validate_one_with_state sample_cg be_word False (pool_at (Inr (Some (key_word pool_key))) 3000) () (build_inner pool_tx) None
     = Some (Outcome_Invalid (build_inner pool_tx) e, st))
   \<and> validate_one_with_state sample_cg be_word False (pool_at (Inl ''database'') 3000) () (build_inner pool_tx) None
     = Some (Outcome_Valid ((pool_outcome (build_inner pool_tx))\<lparr>vt_propagate := False\<rparr>), None)"
proof -
  have inner: "inner_validate (pool_at word ts) () (build_inner pool_tx) None = (Outcome_Valid (pool_outcome (build_inner pool_tx)), None)"
    and out: "vt_transaction (pool_outcome (build_inner pool_tx)) = build_inner pool_tx" for word ts
    by (simp_all add: pool_at_def pool_outcome_def)
  have tx: "ptx_ty pool_tx = SCI_AA_TX_TYPE_ID" "\<not> ptx_is_eip4844 pool_tx" "ptx_aa pool_tx = Some pool_aa"
    "ptx_gas_limit pool_tx = at_gas_limit pool_aa" "length (ptx_encoded pool_tx) < 2 ^ 31" "at_gas_limit pool_aa = 1000"
    by (simp_all add: pool_tx_def pool_aa_def)
  have committed: "\<forall>r w. at_fee_payer pool_aa = Some r \<longrightarrow> keychain_word be_word (pool_at word ts) r (ptx_sender pool_tx) = Inr w \<longrightarrow>
      encode_authorized_key (keys pool_keychain r (ptx_sender pool_tx)) = Inr w" if "isl word \<or> word = Inr (Some (key_word pool_key))" for word ts
    using that by (auto simp: key_store_word pool_sample_word pool_keychain_def isl_def)
  note run = pool_admits_exactly [OF inner out tx(1-5) committed, where cg = sample_cg and gossip = False, unfolded tx(6) pool_sample_cost]
  show ?thesis
    using run [of "Inr (Some (key_word pool_key))" 1000] run [of "Inr (Some (key_word pool_key))" 3000] run [of "Inl ''database''" 3000]
    by (auto simp: pool_sample_admissible)
qed

end
