(* ===== verification/Spec2Isabelle.thy ===== *)
theory Spec2Isabelle
  imports Sci_Handler Pool
begin

text \<open>
  Verification of SCI Chain, a rollup node whose accounts can hand out session keys: keys with an expiry, spending
  limits and call scopes, under which agents send transactions.

  \<^bold>\<open>The parts of the program and how they interact.\<close> An owner registers session keys with the account
  keychain, a precompile. An agent signs an account-abstraction transaction (type 0x76) with a session key; it names
  the owner as its root and may name it as fee payer. The pool admits the transaction
  (\<open>crates/execution/txpool/src/validator.rs\<close>), the handler \<open>SciHandler\<close> validates it, lets the fee payer cover the
  gas, asks the keychain hook whether the key may make the calls, runs the batch atomically as the root, refunds
  unused gas and charges the spending limits. Below it \<open>BaseHandler\<close> charges gas, the L1 data fee and the operator
  fee. A second precompile, the agent state, holds the flags of a circuit breaker that stops keys. The precompiles
  keep their data in EVM storage through a library of typed storage, partly generated by macros. Paths below are
  relative to \<open>src/sci/crates\<close> for the precompiles and their storage and to \<open>src/crates/common\<close> for transactions and fees.

  \<^bold>\<open>Foundations.\<close>
  \<^item> \<open>Sci_Prelude\<close>: machine integers as words, saturating and checked operations, big-endian bytes.
  \<^item> \<open>Pc_Monad\<close>: the hardfork ladder (\<open>tempo-chainspec-shim\<close>), precompile errors (\<open>precompiles/src/error.rs\<close>) and
    storage programs. A program runs against a script of access outcomes, so that properties stated for every
    script cover every gas limit and every database fault.
  \<^item> \<open>Gas_Tracker\<close>: the gas counter of a precompile call (\<open>revm-shim/src/interpreter.rs\<close>).

  \<^bold>\<open>Storage\<close> (\<open>precompiles/src/storage\<close>, \<open>precompiles-macros\<close>).
  \<^item> \<open>Set_Handler\<close>: the enumerable set over the storage vector. The locale \<open>enumerable_set\<close> is its contract, a
    duplicate-free list; its interpretation on the stored operations shows that they refine it.
  \<^item> \<open>Packing\<close>: slots, offsets and the layout of structs. Fields and array elements never overlap.
  \<^item> \<open>Storable\<close>: what the derive macro generates for structs of single-word fields, nested structs and mappings. Storing
    and loading is the identity, no other slot changes, single fields can be written alone, and a deleted struct loads as zero.
  \<^item> \<open>Key_Word\<close>: the word of a session key for hosts outside of an execution (\<open>account_keychain/sci_ext.rs\<close>), which
    says the same of the key as the keychain does.

  \<^bold>\<open>Precompiles\<close> (\<open>precompiles/src\<close>).
  \<^item> \<open>Keychain_Model\<close>: the state and every operation of \<open>account_keychain/mod.rs\<close>.
  \<^item> \<open>Dispatch\<close>, \<open>Keychain_Dispatch\<close>: selectors, activation of methods, calls and frames.
  \<^item> \<open>Keychain_Frame\<close>, \<open>Keychain_Lifecycle\<close>: what a method may touch, and the life cycle of keys and authorization
    witnesses, for every script of accesses.
  \<^item> \<open>Keychain_Scopes\<close>, \<open>Keychain_Authorize\<close>, \<open>Keychain_Spending\<close>: the stored scopes stand for lists of rules; what an
    authorization leaves; limits bound what is spent, updates and refunds respect the caps.
  \<^item> \<open>Keychain_Steps\<close>: the step relation of everything that writes the keychain, with reachability, its invariants
    and the security properties of session keys.
  \<^item> \<open>Agent_State\<close>: the circuit breaker's flags, which only the breaker moves.
  \<^item> \<open>Hook\<close>: the gate of agent transactions (\<open>handler/hook.rs\<close>, \<open>handler/decode.rs\<close>) and the deductions after them.
    The gate passes exactly the authorized batches (a rejected one leaves the origin written, the key not), a storage fault is never taken for a verdict, and the
    deductions of a batch that passed cannot fail.

  \<^bold>\<open>Transactions and fees\<close>.
  \<^item> \<open>Transactions\<close>: account-abstraction and deposit transactions (\<open>consensus/src/transaction\<close>), their wire format and their conversion for
    execution. Decoding inverts encoding.
  \<^item> \<open>Flz\<close>, \<open>L1_Block_Info\<close>: the size estimate (\<open>flz/src/flz.rs\<close>), which never panics below two gigabytes, and the data and
    operator fees (\<open>evm/src/l1block.rs\<close>).
  \<^item> \<open>Base_Handler\<close>: every method of \<open>BaseHandler\<close> (\<open>evm/src/handler.rs\<close>). No fee is created or lost, and a failed deposit keeps its mint.
  \<^item> \<open>Sci_Handler\<close>: the methods of \<open>SciHandler\<close> that do more than delegate (\<open>evm/src/sci_handler.rs\<close>). A batch runs completely or leaves the journal as it was, sponsored gas
    is paid by the root alone, and an agent transaction that was let in settles its limits: its calls if
    they succeeded, the sponsored gas in any case.
  \<^item> \<open>Pool\<close>: admission to the pool, decided exactly; a key is asked for only of sponsored transactions and only if
    the keychain can be read.

  \<^bold>\<open>How state and effects are represented.\<close> Structs are records, enums datatypes, integers words of their width,
  storage mappings functions. Errors are values of a sum type. A storage program maps the script and the state to a
  result, the rest of the script and the new state; an error keeps what was written, as in Rust. The handlers use
  the same form over the journal, in which a checkpoint is a snapshot and reverting restores it. A panic is \<open>None\<close>
  in the fee code and the error \<open>Panicked\<close> in the handlers.

  \<^bold>\<open>Loops, bounds and fuel.\<close> Every loop of the model ends: the loops of \<open>Flz\<close> and of the generated storage code are
  functions with termination proofs, all others recurse on lists. Results about the size estimate assume an input
  shorter than \<open>2 ^ 31\<close> bytes, since its counters have 32 bits. Fuel occurs only in \<open>list_dec\<close>, a decoder that
  instantiates the codec parameters in witnesses; it starts with the length of its input, and every element and the end
  mark take at least one byte.

  \<^bold>\<open>Parameters.\<close> Code outside the repository is an argument: the hash function, ABI decoders, the order in which a
  hash map is traversed, elementary RLP codecs (\<open>rlp\<close>, contract \<open>rlp_ok\<close>), the operations of revm (record \<open>revm\<close>,
  contracts \<open>incr_contract\<close>, \<open>fee_contract\<close>, \<open>gas_contract\<close>, \<open>transfer_contract\<close>), conversions of foreign
  transactions (\<open>conv_ok\<close>), the calldata gas rules, and in \<open>Pool\<close> the inner validator and the state providers. The
  contracts state documented behaviour, and each theorem that assumes one is applied to concrete functions by its
  witness.

  \<^bold>\<open>Not modelled.\<close> The storage provider and its thread-local context, because they only pass accesses to revm, whose
  answers the scripts stand for. Storage arrays, strings and the derived code of structs with set or
  vector fields (the keychain's scopes are modelled on the set itself). The macros' handling of token
  streams. In the pool, bundle metadata and the update of the L1 block info on a new head. The batcher, builder,
  consensus node, execution node, proof system, infrastructure services, utilities and binaries: asynchronous
  services around external crates, the network and the database.
\<close>

end
